(* ===== verification/Prelude.thy ===== *)
theory Prelude
  imports Main "HOL-Library.Word"
begin

text \<open>
  What every component shares: the machine-integer types of the Rust sources, results
  (\<open>'e + 'a\<close> with \<open>Err\<close> and \<open>Ok\<close>), the byte-order conversions of the integer types, the
  checked, wrapping and saturating arithmetic the code calls, UTF-8 validation, decimal
  formatting, and the list lemmas the wire codecs rest on.

  A Rust \<open>usize\<close> that is a length or an index is a \<open>nat\<close>; one that is an identifier and takes
  part in saturating or wrapping arithmetic is a \<open>64 word\<close>. A Rust \<open>String\<close> is its UTF-8 byte
  sequence: a \<open>string\<close> (a \<open>char\<close> is a byte) in configuration and control code, and a list of
  \<open>u8\<close> on the wire.
\<close>

unbundle bit_operations_syntax

named_theorems wire "decoding facts: what a reader returns on the bytes its writer emits"

type_synonym u8 = "8 word"
type_synonym u16 = "16 word"
type_synonym u32 = "32 word"
type_synonym u64 = "64 word"
type_synonym bytes = "u8 list"

section \<open>Results\<close>

abbreviation Ok :: "'a \<Rightarrow> 'e + 'a" where
  "Ok \<equiv> Inr"

abbreviation Err :: "'e \<Rightarrow> 'e + 'a" where
  "Err \<equiv> Inl"

text \<open>The \<open>?\<close> operator: an error returns early, a value goes on.\<close>

definition rbind :: "'e + 'a \<Rightarrow> ('a \<Rightarrow> 'e + 'b) \<Rightarrow> 'e + 'b" where
  "rbind r f = (case r of Inl e \<Rightarrow> Inl e | Inr x \<Rightarrow> f x)"

text \<open>\<open>Result::map_err\<close> and \<open>Option::ok_or\<close>.\<close>

definition map_err :: "('e \<Rightarrow> 'f) \<Rightarrow> 'e + 'a \<Rightarrow> 'f + 'a" where
  "map_err f r = (case r of Inl e \<Rightarrow> Inl (f e) | Inr x \<Rightarrow> Inr x)"

definition ok_or :: "'e \<Rightarrow> 'a option \<Rightarrow> 'e + 'a" where
  "ok_or e x = (case x of None \<Rightarrow> Inl e | Some v \<Rightarrow> Inr v)"

definition is_err :: "'e + 'a \<Rightarrow> bool" where
  "is_err r = (case r of Inl _ \<Rightarrow> True | Inr _ \<Rightarrow> False)"

lemma rbind_simps [simp]: "rbind (Err e) f = Err e" "rbind (Ok x) f = f x"
  by (simp_all add: rbind_def)

lemma map_err_simps [simp]: "map_err f (Err e) = Err (f e)" "map_err f (Ok x) = Ok x"
  by (simp_all add: map_err_def)

lemma ok_or_simps [simp]: "ok_or e None = Err e" "ok_or e (Some v) = Ok v"
  by (simp_all add: ok_or_def)

lemma is_err_simps [simp]: "is_err (Err e)" "\<not> is_err (Ok x)"
  by (simp_all add: is_err_def)

lemma rbind_eq_Ok_iff: "rbind r f = Ok y \<longleftrightarrow> (\<exists>x. r = Ok x \<and> f x = Ok y)"
  by (cases r) auto

lemma rbind_eq_Err_iff: "rbind r f = Err e \<longleftrightarrow> r = Err e \<or> (\<exists>x. r = Ok x \<and> f x = Err e)"
  by (cases r) auto

lemma map_err_eq_Ok_iff [simp]: "map_err f r = Ok y \<longleftrightarrow> r = Ok y"
  by (cases r) auto

lemma ok_or_eq_Ok_iff [simp]: "ok_or e x = Ok y \<longleftrightarrow> x = Some y"
  by (cases x) auto

lemma not_is_err_iff: "\<not> is_err r \<longleftrightarrow> (\<exists>x. r = Ok x)"
  by (cases r) auto

lemmas result_iffs = rbind_eq_Ok_iff rbind_eq_Err_iff

text \<open>
  The \<open>?\<close> operator in code that reads from a cursor or talks to a stream: the state is kept, also
  when a step fails.
\<close>

type_synonym ('s, 'e, 'a) io = "'s \<Rightarrow> ('e + 'a) \<times> 's"

definition sbind :: "('s, 'e, 'a) io \<Rightarrow> ('a \<Rightarrow> ('s, 'e, 'b) io) \<Rightarrow> ('s, 'e, 'b) io" where
  "sbind m f s = (case m s of (Inl e, s') \<Rightarrow> (Inl e, s') | (Inr x, s') \<Rightarrow> f x s')"

definition sreturn :: "'a \<Rightarrow> ('s, 'e, 'a) io" where
  "sreturn x s = (Ok x, s)"

definition sfail :: "'e \<Rightarrow> ('s, 'e, 'a) io" where
  "sfail e s = (Err e, s)"

definition slift :: "'e + 'a \<Rightarrow> ('s, 'e, 'a) io" where
  "slift r s = (r, s)"

text \<open>\<open>map_err\<close> and \<open>From\<close> conversions of the error of a step.\<close>

definition smap_err :: "('e \<Rightarrow> 'f) \<Rightarrow> ('s, 'e, 'a) io \<Rightarrow> ('s, 'f, 'a) io" where
  "smap_err f m s = (let (r, s') = m s in (map_err f r, s'))"

lemma sbind_Ok: "m s = (Ok x, s') \<Longrightarrow> sbind m f s = f x s'"
  by (simp add: sbind_def)

lemma sbind_Err: "m s = (Err e, s') \<Longrightarrow> sbind m f s = (Err e, s')"
  by (simp add: sbind_def)

lemma smap_err_Ok: "m s = (Ok x, s') \<Longrightarrow> smap_err f m s = (Ok x, s')"
  by (simp add: smap_err_def)

lemma io_simps [simp]:
  "sreturn x s = (Ok x, s)" "sfail e s = (Err e, s)" "slift r s = (r, s)"
  by (simp_all add: sreturn_def sfail_def slift_def)

lemma sbind_eq_Ok_iff: "sbind m f s = (Ok y, t) \<longleftrightarrow> (\<exists>x s'. m s = (Ok x, s') \<and> f x s' = (Ok y, t))"
  by (cases "m s") (auto simp: sbind_def split: sum.splits)

lemma smap_err_eq_Ok_iff [simp]: "smap_err f m s = (Ok y, t) \<longleftrightarrow> m s = (Ok y, t)"
  by (cases "m s") (simp add: smap_err_def)

section \<open>Machine arithmetic\<close>

text \<open>\<open>saturating_add\<close>, \<open>saturating_mul\<close> and \<open>checked_mul\<close> of an unsigned type.\<close>

definition saturating_add :: "'a::len word \<Rightarrow> 'a word \<Rightarrow> 'a word" where
  "saturating_add a b = (if unat a + unat b < 2 ^ LENGTH('a) then a + b else - 1)"

definition saturating_mul :: "'a::len word \<Rightarrow> 'a word \<Rightarrow> 'a word" where
  "saturating_mul a b = (if unat a * unat b < 2 ^ LENGTH('a) then a * b else - 1)"

definition checked_mul :: "'a::len word \<Rightarrow> 'a word \<Rightarrow> 'a word option" where
  "checked_mul a b = (if unat a * unat b < 2 ^ LENGTH('a) then Some (a * b) else None)"

lemma unat_minus_one_word: "unat (- 1 :: 'a::len word) = 2 ^ LENGTH('a) - 1"
  by transfer (simp add: take_bit_minus_one_eq_mask mask_eq_exp_minus_1 nat_diff_distrib nat_power_eq)

lemma unat_saturating_add:
  "unat (saturating_add a b :: 'a::len word) = min (unat a + unat b) (2 ^ LENGTH('a) - 1)"
proof (cases "unat a + unat b < 2 ^ LENGTH('a)")
  case True
  then show ?thesis using unat_add_lem [of a b] by (simp add: saturating_add_def)
next
  case False
  then have "2 ^ LENGTH('a) - 1 \<le> unat a + unat b" by linarith
  with False show ?thesis by (simp add: saturating_add_def unat_minus_one_word min_absorb2)
qed

lemma unat_saturating_mul:
  "unat (saturating_mul a b :: 'a::len word) = min (unat a * unat b) (2 ^ LENGTH('a) - 1)"
proof (cases "unat a * unat b < 2 ^ LENGTH('a)")
  case True
  then show ?thesis using unat_mult_lem [of a b] by (simp add: saturating_mul_def)
next
  case False
  then have "2 ^ LENGTH('a) - 1 \<le> unat a * unat b" by linarith
  with False show ?thesis by (simp add: saturating_mul_def unat_minus_one_word min_absorb2)
qed

lemma checked_mul_Some:
  "checked_mul a b = Some (c :: 'a::len word) \<Longrightarrow> unat c = unat a * unat b"
  using unat_mult_lem [of a b] by (auto simp: checked_mul_def split: if_splits)
lemma sint_word_of_int_self:
  "- (2 ^ (LENGTH('a) - 1)) \<le> q \<Longrightarrow> q < 2 ^ (LENGTH('a) - 1) \<Longrightarrow> sint (word_of_int q :: 'a::len word) = q"
  by (simp add: sint_sbintrunc' signed_take_bit_int_eq_self)

text \<open>Masking the low bits.\<close>

lemma and_mask_take_bit:
  "x AND 1 = take_bit 1 (x :: 'a::len word)" "x AND 3 = take_bit 2 x" "x AND 15 = take_bit 4 x"
  "x AND 127 = take_bit 7 x" "x AND 255 = take_bit 8 x"
  by (simp_all add: take_bit_eq_mask mask_eq_exp_minus_1)

lemma unat_and_mask:
  "unat (x AND 1 :: 'a::len word) = unat x mod 2" "unat (x AND 3) = unat x mod 4"
  "unat (x AND 15) = unat x mod 16" "unat (x AND 127) = unat x mod 128"
  "unat (x AND 255) = unat x mod 256"
  by (simp_all only: and_mask_take_bit unsigned_take_bit_eq) (simp_all add: take_bit_eq_mod)

section \<open>Byte order\<close>

text \<open>\<open>to_be_bytes\<close>, \<open>from_be_bytes\<close> and their little-endian mirrors.\<close>

definition to_be16 :: "u16 \<Rightarrow> bytes" where
  "to_be16 w = [ucast (drop_bit 8 w), ucast w]"

definition from_be16 :: "u8 \<Rightarrow> u8 \<Rightarrow> u16" where
  "from_be16 a b = push_bit 8 (ucast a) OR ucast b"

definition to_be32 :: "u32 \<Rightarrow> bytes" where
  "to_be32 w = [ucast (drop_bit 24 w), ucast (drop_bit 16 w), ucast (drop_bit 8 w), ucast w]"

definition from_be32 :: "u8 \<Rightarrow> u8 \<Rightarrow> u8 \<Rightarrow> u8 \<Rightarrow> u32" where
  "from_be32 a b c d =
     push_bit 24 (ucast a) OR push_bit 16 (ucast b) OR push_bit 8 (ucast c) OR ucast d"

definition to_be64 :: "u64 \<Rightarrow> bytes" where
  "to_be64 w = to_be32 (ucast (drop_bit 32 w)) @ to_be32 (ucast w)"

definition from_be64 :: "u8 \<Rightarrow> u8 \<Rightarrow> u8 \<Rightarrow> u8 \<Rightarrow> u8 \<Rightarrow> u8 \<Rightarrow> u8 \<Rightarrow> u8 \<Rightarrow> u64" where
  "from_be64 a b c d e f g h =
     push_bit 32 (ucast (from_be32 a b c d)) OR ucast (from_be32 e f g h)"

definition to_le32 :: "u32 \<Rightarrow> bytes" where
  "to_le32 w = rev (to_be32 w)"

definition from_le32 :: "u8 \<Rightarrow> u8 \<Rightarrow> u8 \<Rightarrow> u8 \<Rightarrow> u32" where
  "from_le32 a b c d = from_be32 d c b a"

lemma not_bit_ge_len: "LENGTH('a) \<le> n \<Longrightarrow> \<not> bit (w :: 'a::len word) n"
  using bit_imp_le_length by fastforce

lemma not_bit_u8_add [simp]:
  "\<not> bit (b :: u8) (8 + n)" "\<not> bit (b :: u8) (16 + n)" "\<not> bit (b :: u8) (24 + n)"
  by (simp_all add: not_bit_ge_len)

lemma not_bit_u32_add [simp]: "\<not> bit (b :: u32) (32 + n)"
  by (simp add: not_bit_ge_len)

lemma from_be16_to_be16: "from_be16 (ucast (drop_bit 8 w)) (ucast w) = (w :: u16)"
  unfolding from_be16_def by (rule bit_word_eqI) (auto simp: bit_simps)

lemma from_be32_to_be32:
  "from_be32 (ucast (drop_bit 24 w)) (ucast (drop_bit 16 w)) (ucast (drop_bit 8 w)) (ucast w)
   = (w :: u32)"
proof (unfold from_be32_def, rule bit_word_eqI)
  fix n assume "n < LENGTH(32)"
  then consider "n < 8" | "8 \<le> n" "n < 16" | "16 \<le> n" "n < 24" | "24 \<le> n" "n < 32"
    by fastforce
  then show "bit (push_bit 24 (ucast (ucast (drop_bit 24 w) :: u8))  OR
      push_bit 16 (ucast (ucast (drop_bit 16 w) :: u8)) OR
      push_bit 8 (ucast (ucast (drop_bit 8 w) :: u8)) OR ucast (ucast w :: u8) :: u32) n = bit w n"
    by cases (auto simp: bit_simps)
qed

lemma from_be64_halves: "push_bit 32 (ucast (ucast (drop_bit 32 w) :: u32)) OR ucast (ucast w :: u32) = (w :: u64)"
  by (rule bit_word_eqI) (auto simp: bit_simps)

lemma to_be16_from_be16: "to_be16 (from_be16 a b) = [a, b]"
  unfolding from_be16_def to_be16_def by (auto simp: bit_simps intro!: bit_word_eqI)

lemma to_be32_from_be32: "to_be32 (from_be32 a b c d) = [a, b, c, d]"
  unfolding from_be32_def to_be32_def by (auto simp: bit_simps intro!: bit_word_eqI)

text \<open>Reading back the bytes of a word, with the bytes as the writer lists them.\<close>

lemma from_be16_list: "to_be16 w = [a, b] \<Longrightarrow> from_be16 a b = w"
  using from_be16_to_be16 [of w] by (simp add: to_be16_def)

lemma from_be32_list: "to_be32 w = [a, b, c, d] \<Longrightarrow> from_be32 a b c d = w"
  using from_be32_to_be32 [of w] by (simp add: to_be32_def)

lemma from_be64_list:
  assumes "to_be64 w = [a, b, c, d, e, f, g, h]"
  shows "from_be64 a b c d e f g h = w"
proof -
  have hi: "to_be32 (ucast (drop_bit 32 w)) = [a, b, c, d]" and lo: "to_be32 (ucast w) = [e, f, g, h]"
    using assms by (simp_all add: to_be64_def to_be32_def)
  show ?thesis
    unfolding from_be64_def from_be32_list [OF hi] from_be32_list [OF lo] by (rule from_be64_halves)
qed

lemma from_le32_list: "to_le32 w = [a, b, c, d] \<Longrightarrow> from_le32 a b c d = w"
proof -
  assume "to_le32 w = [a, b, c, d]"
  then have "rev (rev (to_be32 w)) = rev [a, b, c, d]" by (simp only: to_le32_def)
  then have "to_be32 w = [d, c, b, a]" by simp
  then show "from_le32 a b c d = w" unfolding from_le32_def by (rule from_be32_list)
qed

lemma to_be16_ex: obtains a b where "to_be16 w = [a, b]" "from_be16 a b = w"
  using that [OF to_be16_def from_be16_list [OF to_be16_def]] .

lemma to_be32_ex: obtains a b c d where "to_be32 w = [a, b, c, d]" "from_be32 a b c d = w"
  using that [OF to_be32_def from_be32_list [OF to_be32_def]] .

lemma to_le32_ex: obtains a b c d where "to_le32 w = [a, b, c, d]" "from_le32 a b c d = w"
proof -
  obtain a b c d where w: "to_be32 w = [a, b, c, d]" by (rule to_be32_ex)
  then have le: "to_le32 w = [d, c, b, a]" by (simp add: to_le32_def)
  show thesis by (rule that [OF le from_le32_list [OF le]])
qed

lemma to_be64_ex:
  obtains a b c d e f g h
  where "to_be64 w = [a, b, c, d, e, f, g, h]" "from_be64 a b c d e f g h = w"
proof -
  obtain a b c d where 1: "to_be32 (ucast (drop_bit 32 w)) = [a, b, c, d]" by (rule to_be32_ex)
  obtain e f g h where 2: "to_be32 (ucast w) = [e, f, g, h]" by (rule to_be32_ex)
  have be: "to_be64 w = [a, b, c, d, e, f, g, h]" by (simp add: to_be64_def 1 2)
  show thesis by (rule that [OF be from_be64_list [OF be]])
qed

lemma length_to_bytes [simp]:
  "length (to_be16 w) = 2" "length (to_be32 v) = 4" "length (to_be64 u) = 8" "length (to_le32 v) = 4"
  by (simp_all add: to_be16_def to_be32_def to_be64_def to_le32_def)

lemma to_le32_from_le32: "to_le32 (from_le32 a b c d) = [a, b, c, d]"
  by (simp add: to_le32_def from_le32_def to_be32_from_be32)

section \<open>Text\<close>

text \<open>\<open>Display\<close> of an unsigned integer: its decimal digits.\<close>

fun show_nat :: "nat \<Rightarrow> string" where
  "show_nat n = (if n < 10 then [char_of (48 + n)] else show_nat (n div 10) @ [char_of (48 + n mod 10)])"

declare show_nat.simps [simp del]

definition show_word :: "'a::len word \<Rightarrow> string" where
  "show_word w = show_nat (unat w)"

definition show_int :: "int \<Rightarrow> string" where
  "show_int i = (if i < 0 then CHR ''-'' # show_nat (nat (- i)) else show_nat (nat i))"

text \<open>
  \<open>str::parse\<close> of an unsigned type with the given number of bits: an optional plus sign, then
  decimal digits whose value fits.
\<close>

definition is_digit :: "char \<Rightarrow> bool" where
  "is_digit c \<longleftrightarrow> 48 \<le> (of_char c :: nat) \<and> of_char c \<le> (57 :: nat)"

definition digits_value :: "string \<Rightarrow> nat" where
  "digits_value ds = foldl (\<lambda>n c. 10 * n + (of_char c - 48)) 0 ds"

definition parse_unsigned :: "nat \<Rightarrow> string \<Rightarrow> nat option" where
  "parse_unsigned width s =
     (let ds = (case s of [] \<Rightarrow> [] | c # r \<Rightarrow> if c = CHR ''+'' then r else s)
      in if ds \<noteq> [] \<and> list_all is_digit ds \<and> digits_value ds < 2 ^ width then Some (digits_value ds) else None)"

lemma digit_char: "d < 10 \<Longrightarrow> is_digit (char_of (48 + d)) \<and> (of_char (char_of (48 + d) :: char) :: nat) = 48 + d"
  by (simp add: is_digit_def)

lemma show_nat_digits: "show_nat n \<noteq> [] \<and> list_all is_digit (show_nat n) \<and> digits_value (show_nat n) = n"
proof (induction n rule: show_nat.induct)
  case (1 n)
  show ?case
  proof (cases "n < 10")
    case True
    then show ?thesis using digit_char [of n] by (subst (1 2 3) show_nat.simps) (simp add: digits_value_def)
  next
    case False
    then show ?thesis using 1 digit_char [of "n mod 10"]
      by (subst (1 2 3) show_nat.simps) (simp add: digits_value_def)
  qed
qed

lemma not_digit_in_show_nat: "\<not> is_digit c \<Longrightarrow> c \<notin> set (show_nat n)"
  using show_nat_digits [of n] by (auto simp: list_all_iff)

lemma parse_show_nat: "n < 2 ^ width \<Longrightarrow> parse_unsigned width (show_nat n) = Some n"
  using show_nat_digits [of n]
  by (cases "show_nat n") (auto simp: parse_unsigned_def is_digit_def split: if_splits)

text \<open>The UTF-8 bytes of a string literal.\<close>

definition str_bytes :: "string \<Rightarrow> bytes" where
  "str_bytes s = map of_char s"

text \<open>\<open>std::str::from_utf8\<close>: the well-formed byte sequences of the Unicode standard.\<close>

definition utf8_cont :: "u8 \<Rightarrow> bool" where
  "utf8_cont b \<longleftrightarrow> 0x80 \<le> b \<and> b \<le> 0xBF"

fun utf8_valid :: "bytes \<Rightarrow> bool" where
  "utf8_valid [] = True"
| "utf8_valid (a # r) =
     (if a < 0x80 then utf8_valid r
      else if 0xC2 \<le> a \<and> a \<le> 0xDF then
        (case r of b # r' \<Rightarrow> utf8_cont b \<and> utf8_valid r' | [] \<Rightarrow> False)
      else if 0xE0 \<le> a \<and> a \<le> 0xEF then
        (case r of
           b # c # r' \<Rightarrow>
             utf8_cont b \<and> (a = 0xE0 \<longrightarrow> 0xA0 \<le> b) \<and> (a = 0xED \<longrightarrow> b \<le> 0x9F) \<and> utf8_cont c
             \<and> utf8_valid r'
         | _ \<Rightarrow> False)
      else if 0xF0 \<le> a \<and> a \<le> 0xF4 then
        (case r of
           b # c # d # r' \<Rightarrow>
             utf8_cont b \<and> (a = 0xF0 \<longrightarrow> 0x90 \<le> b) \<and> (a = 0xF4 \<longrightarrow> b \<le> 0x8F) \<and> utf8_cont c
             \<and> utf8_cont d \<and> utf8_valid r'
         | _ \<Rightarrow> False)
      else False)"

lemma utf8_valid_ascii: "\<forall>b \<in> set s. b < 0x80 \<Longrightarrow> utf8_valid s"
  by (induction s) auto

section \<open>Lists\<close>

lemma take_append_exact [simp]: "length xs = n \<Longrightarrow> take n (xs @ ys) = xs"
  by simp

lemma drop_append_exact [simp]: "length xs = n \<Longrightarrow> drop n (xs @ ys) = ys"
  by simp

lemma length_concat_const:
  "(\<And>x. x \<in> set xs \<Longrightarrow> length (f x) = k) \<Longrightarrow> length (concat (map f xs)) = k * length xs"
  by (induction xs) auto

lemma concat_block:
  assumes "\<And>x. x \<in> set xs \<Longrightarrow> length (f x) = k" "i < length xs"
  shows "take k (drop (i * k) (concat (map f xs))) = f (xs ! i)"
  using assms
proof (induction xs arbitrary: i)
  case (Cons x xs)
  show ?case
  proof (cases i)
    case 0
    then show ?thesis using Cons.prems by simp
  next
    case (Suc j)
    then have "drop (i * k) (concat (map f (x # xs))) = drop (j * k) (concat (map f xs))"
      using Cons.prems by simp
    then show ?thesis using Cons.IH [of j] Cons.prems Suc by simp
  qed
qed simp

lemma concat_block_nth:
  assumes "\<And>x. x \<in> set xs \<Longrightarrow> length (f x) = k" "i < length xs" "j < k"
  shows "concat (map f xs) ! (i * k + j) = f (xs ! i) ! j"
proof -
  have "i * k + j < length (concat (map f xs))"
  proof -
    have "Suc i * k \<le> length xs * k" using assms by (intro mult_le_mono1) simp
    then show ?thesis using assms length_concat_const [of xs f k] by (simp add: mult.commute)
  qed
  then have "concat (map f xs) ! (i * k + j) = take k (drop (i * k) (concat (map f xs))) ! j"
    using assms by simp
  also have "\<dots> = f (xs ! i) ! j" using concat_block [of xs f k i] assms by simp
  finally show ?thesis .
qed

lemma list_all_nthI: "(\<And>i. i < length xs \<Longrightarrow> P (xs ! i)) \<Longrightarrow> list_all P xs"
  by (simp add: list_all_length)

text \<open>\<open>slice::chunks_exact(4)\<close>: the whole four-element chunks, the remainder dropped.\<close>

fun chunks_exact4 :: "'a list \<Rightarrow> ('a \<times> 'a \<times> 'a \<times> 'a) list" where
  "chunks_exact4 (a # b # c # d # r) = (a, b, c, d) # chunks_exact4 r"
| "chunks_exact4 _ = []"

lemma length_chunks_exact4: "length (chunks_exact4 xs) = length xs div 4"
  by (induction xs rule: chunks_exact4.induct) auto

lemma chunks_exact4_le32:
  "map (\<lambda>(a, b, c, d). from_le32 a b c d) (chunks_exact4 (concat (map to_le32 ws))) = ws"
proof (induction ws)
  case Nil
  show ?case by simp
next
  case (Cons w ws)
  obtain a b c d where "to_le32 w = [a, b, c, d]" "from_le32 a b c d = w" by (rule to_le32_ex)
  with Cons.IH show ?case by simp
qed

lemma length_le32s [simp]: "length (concat (map to_le32 xs)) = 4 * length xs"
  by (induction xs) simp_all

lemma le32s_inverse:
  "length data mod 4 = 0 \<Longrightarrow>
   concat (map to_le32 (map (\<lambda>(a, b, c, d). from_le32 a b c d) (chunks_exact4 data))) = data"
  by (induction data rule: chunks_exact4.induct) (auto simp: to_le32_from_le32)

end
