(* ===== verification/Rtp_Codec.thy ===== *)
theory Rtp_Codec
  imports Prelude
begin

text \<open>
  The RTP packet codec of \<open>net-rtp-aes67/src/codec.rs\<close>: the RFC 3550 fixed header, the packet
  framing around it, the payload-type table and the timestamp advance of the send clock. The
  error type and the \<open>Codec\<close> enum are those of \<open>net-rtp-aes67/src/lib.rs\<close>.
\<close>

section \<open>Data\<close>

datatype Codec = PcmL16 | PcmL24 | Opus | Custom u8

datatype TransportError = Unimplemented string | Network string

definition RTP_VERSION :: u8 where
  "RTP_VERSION = 2"

definition RTP_HEADER_LEN :: nat where
  "RTP_HEADER_LEN = 12"

record RtpHeader =
  version :: u8
  padding :: bool
  extension :: bool
  csrc_count :: u8
  marker :: bool
  payload_type :: u8
  seq :: u16
  timestamp :: u32
  ssrc :: u32

record RtpPacket =
  header :: RtpHeader
  payload :: bytes

section \<open>Operations\<close>

definition RtpHeader_new :: "u8 \<Rightarrow> u16 \<Rightarrow> u32 \<Rightarrow> u32 \<Rightarrow> RtpHeader" where
  "RtpHeader_new pt sq ts sc =
     \<lparr>version = RTP_VERSION, padding = False, extension = False, csrc_count = 0, marker = False,
      payload_type = pt AND 0x7F, seq = sq, timestamp = ts, ssrc = sc\<rparr>"

definition RtpHeader_parse :: "bytes \<Rightarrow> TransportError + RtpHeader" where
  "RtpHeader_parse buf =
     (if length buf < RTP_HEADER_LEN then
        Err (Network (''RTP header truncated: got '' @ show_nat (length buf)
          @ '' bytes, need at least '' @ show_nat RTP_HEADER_LEN))
      else
        let ver = drop_bit 6 (buf ! 0) AND 0x03 in
        if ver \<noteq> RTP_VERSION then
          Err (Network (''bad RTP version: got '' @ show_word ver
            @ '', expected '' @ show_word RTP_VERSION))
        else Ok
          \<lparr>version = ver,
           padding = (drop_bit 5 (buf ! 0) AND 0x01 \<noteq> 0),
           extension = (drop_bit 4 (buf ! 0) AND 0x01 \<noteq> 0),
           csrc_count = buf ! 0 AND 0x0F,
           marker = (drop_bit 7 (buf ! 1) AND 0x01 \<noteq> 0),
           payload_type = buf ! 1 AND 0x7F,
           seq = from_be16 (buf ! 2) (buf ! 3),
           timestamp = from_be32 (buf ! 4) (buf ! 5) (buf ! 6) (buf ! 7),
           ssrc = from_be32 (buf ! 8) (buf ! 9) (buf ! 10) (buf ! 11)\<rparr>)"

definition RtpHeader_encode :: "RtpHeader \<Rightarrow> bytes" where
  "RtpHeader_encode h =
     (let byte0 = push_bit 6 RTP_VERSION OR push_bit 5 (of_bool (padding h))
                  OR push_bit 4 (of_bool (extension h)) OR (csrc_count h AND 0x0F);
          byte1 = push_bit 7 (of_bool (marker h)) OR (payload_type h AND 0x7F)
      in [byte0, byte1] @ to_be16 (seq h) @ to_be32 (timestamp h) @ to_be32 (ssrc h))"

definition encoded_len :: "RtpHeader \<Rightarrow> nat" where
  "encoded_len h = RTP_HEADER_LEN + 4 * unat (csrc_count h)"

definition RtpPacket_encode :: "RtpPacket \<Rightarrow> bytes" where
  "RtpPacket_encode p = RtpHeader_encode (header p) @ payload p"

definition RtpPacket_parse :: "bytes \<Rightarrow> TransportError + RtpPacket" where
  "RtpPacket_parse buf =
     rbind (RtpHeader_parse buf) (\<lambda>h.
       let header_len = encoded_len h in
       if length buf < header_len then
         Err (Network (''RTP packet shorter than its header: got '' @ show_nat (length buf)
           @ '' bytes, header claims '' @ show_nat header_len))
       else Ok \<lparr>header = h, payload = drop header_len buf\<rparr>)"

definition codec_to_payload_type :: "Codec \<Rightarrow> u16 \<Rightarrow> u8" where
  "codec_to_payload_type codec channels =
     (case codec of
        PcmL16 \<Rightarrow> if channels \<ge> 2 then 10 else 11
      | PcmL24 \<Rightarrow> 96
      | Opus \<Rightarrow> 97
      | Custom n \<Rightarrow> n)"

definition bytes_per_sample :: "Codec \<Rightarrow> nat" where
  "bytes_per_sample codec = (case codec of PcmL16 \<Rightarrow> 2 | PcmL24 \<Rightarrow> 3 | Opus \<Rightarrow> 1 | Custom _ \<Rightarrow> 1)"

definition timestamp_advance :: "nat \<Rightarrow> Codec \<Rightarrow> u16 \<Rightarrow> u32" where
  "timestamp_advance len codec channels =
     (let bps = bytes_per_sample codec;
          ch = max (unat channels) 1
      in of_nat (len div (bps * ch)))"

section \<open>Header laws\<close>

text \<open>The headers a parse can return; the encoder is injective on them.\<close>

definition header_wf :: "RtpHeader \<Rightarrow> bool" where
  "header_wf h \<longleftrightarrow> version h = RTP_VERSION \<and> csrc_count h < 16 \<and> payload_type h < 128"

definition byte0_of :: "bool \<Rightarrow> bool \<Rightarrow> u8 \<Rightarrow> u8" where
  "byte0_of p x cc =
     push_bit 6 RTP_VERSION OR push_bit 5 (of_bool p) OR push_bit 4 (of_bool x) OR (cc AND 0x0F)"

definition byte1_of :: "bool \<Rightarrow> u8 \<Rightarrow> u8" where
  "byte1_of m pt = push_bit 7 (of_bool m) OR (pt AND 0x7F)"

lemma u8_eqI: "(\<And>n. n < 8 \<Longrightarrow> bit a n = bit b n) \<Longrightarrow> a = (b :: u8)"
  by (rule bit_word_eqI) simp

lemma less_8_cases: "n < (8::nat) \<Longrightarrow> n = 0 \<or> n = 1 \<or> n = 2 \<or> n = 3 \<or> n = 4 \<or> n = 5 \<or> n = 6 \<or> n = 7"
  by auto


lemma byte0_version: "drop_bit 6 (byte0_of p x cc) AND 3 = RTP_VERSION"
  by (rule u8_eqI, drule less_8_cases) (auto simp: byte0_of_def RTP_VERSION_def bit_simps)

lemma byte0_padding: "(drop_bit 5 (byte0_of p x cc) AND 1 \<noteq> 0) = p"
  by (simp add: byte0_of_def RTP_VERSION_def and_one_eq mod_2_eq_odd bit_0[symmetric] bit_simps)

lemma byte0_extension: "(drop_bit 4 (byte0_of p x cc) AND 1 \<noteq> 0) = x"
  by (simp add: byte0_of_def RTP_VERSION_def and_one_eq mod_2_eq_odd bit_0[symmetric] bit_simps)

lemma byte0_csrc: "byte0_of p x cc AND 15 = cc AND 15"
  by (rule u8_eqI, drule less_8_cases) (auto simp: byte0_of_def RTP_VERSION_def bit_simps)

lemma byte1_marker: "(drop_bit 7 (byte1_of m pt) AND 1 \<noteq> 0) = m"
  by (simp add: byte1_of_def and_one_eq mod_2_eq_odd bit_0[symmetric] bit_simps)

lemma byte1_payload_type: "byte1_of m pt AND 127 = pt AND 127"
  by (rule u8_eqI, drule less_8_cases) (auto simp: byte1_of_def bit_simps)

lemma and_one_neq_0: "(drop_bit n (b :: u8) AND 1 \<noteq> 0) = bit b n"
  by (simp add: and_one_eq mod_2_eq_odd bit_iff_odd_drop_bit)

lemma byte0_of_parsed:
  assumes "drop_bit 6 b AND 3 = RTP_VERSION"
  shows "byte0_of (bit b 5) (bit b 4) (b AND 15) = b"
proof (rule u8_eqI)
  fix n :: nat assume n: "n < 8"
  have "bit (drop_bit 6 b AND 3) 0 = bit RTP_VERSION 0" "bit (drop_bit 6 b AND 3) 1 = bit RTP_VERSION 1"
    using assms by simp_all
  then have "\<not> bit b 6" "bit b 7"
    by (simp_all add: RTP_VERSION_def bit_simps bit_iff_odd_drop_bit [of b 6])
  with less_8_cases [OF n] show "bit (byte0_of (bit b 5) (bit b 4) (b AND 15)) n = bit b n"
    by (auto simp: byte0_of_def RTP_VERSION_def bit_simps)
qed

lemma byte1_of_parsed: "byte1_of (bit b 7) (b AND 127) = b"
  by (rule u8_eqI, drule less_8_cases) (auto simp: byte1_of_def bit_simps)

lemma and_mask_less: "x < 16 \<Longrightarrow> x AND 15 = (x :: u8)" "y < 128 \<Longrightarrow> y AND 127 = (y :: u8)"
  by (simp_all add: word_unat_eq_iff unat_and_mask word_less_nat_alt)

lemma length_RtpHeader_encode [simp]: "length (RtpHeader_encode h) = 12"
  by (simp add: RtpHeader_encode_def)

lemma RtpHeader_encode_bytes:
  "RtpHeader_encode h =
     [byte0_of (padding h) (extension h) (csrc_count h), byte1_of (marker h) (payload_type h)]
     @ to_be16 (seq h) @ to_be32 (timestamp h) @ to_be32 (ssrc h)"
  by (simp add: RtpHeader_encode_def byte0_of_def byte1_of_def)

lemmas byte_fields = byte0_version byte0_padding byte0_extension byte0_csrc byte1_marker
  byte1_payload_type

text \<open>What the decoder reads from the encoder's bytes: the masked header.\<close>

lemma RtpHeader_parse_encode:
  "RtpHeader_parse (RtpHeader_encode h @ rest) =
     Ok (h\<lparr>version := RTP_VERSION, csrc_count := csrc_count h AND 15,
           payload_type := payload_type h AND 127\<rparr>)"
proof -
  obtain a b where s: "to_be16 (seq h) = [a, b]" "from_be16 a b = seq h" by (rule to_be16_ex)
  obtain c d e f where t: "to_be32 (timestamp h) = [c, d, e, f]" "from_be32 c d e f = timestamp h"
    by (rule to_be32_ex)
  obtain i j k l where u: "to_be32 (ssrc h) = [i, j, k, l]" "from_be32 i j k l = ssrc h"
    by (rule to_be32_ex)
  show ?thesis
    by (simp add: RtpHeader_parse_def RtpHeader_encode_bytes s t u byte_fields RTP_HEADER_LEN_def)
qed

lemma RtpHeader_parse_Ok_wf:
  assumes "RtpHeader_parse buf = Ok h"
  shows "header_wf h" "RTP_HEADER_LEN \<le> length buf"
  using assms
  by (auto simp: RtpHeader_parse_def header_wf_def Let_def word_less_nat_alt unat_and_mask
      split: if_splits)

lemma list_ge_12:
  assumes "12 \<le> length xs"
  obtains a b c d e f g h i j k l r where "xs = a # b # c # d # e # f # g # h # i # j # k # l # r"
proof -
  have "\<exists>y ys. zs = y # ys \<and> n \<le> length ys" if "Suc n \<le> length zs" for n and zs :: "'a list"
    using that by (cases zs) auto
  note split = this
  show thesis
    using assms that by (auto simp: eval_nat_numeral dest!: split)
qed

lemma RtpHeader_encode_parse:
  assumes "RtpHeader_parse buf = Ok h"
  shows "RtpHeader_encode h = take RTP_HEADER_LEN buf"
proof -
  obtain a b c d e f g hh i j k l r where
    buf: "buf = a # b # c # d # e # f # g # hh # i # j # k # l # r"
    using RtpHeader_parse_Ok_wf(2) [OF assms] unfolding RTP_HEADER_LEN_def by (rule list_ge_12)
  then have v: "drop_bit 6 a AND 3 = RTP_VERSION"
    using assms by (simp add: RtpHeader_parse_def RTP_HEADER_LEN_def Let_def split: if_splits)
  have "h = \<lparr>version = RTP_VERSION, padding = bit a 5, extension = bit a 4, csrc_count = a AND 15,
      marker = bit b 7, payload_type = b AND 127, seq = from_be16 c d,
      timestamp = from_be32 e f g hh, ssrc = from_be32 i j k l\<rparr>"
    using assms buf v by (simp add: RtpHeader_parse_def RTP_HEADER_LEN_def and_one_neq_0)
  then show ?thesis
    using v by (simp add: buf RtpHeader_encode_bytes byte0_of_parsed byte1_of_parsed
        to_be16_from_be16 to_be32_from_be32 RTP_HEADER_LEN_def)
qed

section \<open>Packet laws\<close>

text \<open>
  A packet with a well-formed header and no CSRC list is parsed back from its encoding, whatever
  its payload.
\<close>

theorem RtpPacket_parse_encode:
  assumes "header_wf (header p)" "csrc_count (header p) = 0"
  shows "RtpPacket_parse (RtpPacket_encode p) = Ok p"
  using assms
  by (simp add: RtpPacket_parse_def RtpPacket_encode_def RtpHeader_parse_encode header_wf_def and_mask_less
      encoded_len_def RTP_HEADER_LEN_def)

theorem RtpPacket_parse_encode_witness:
  "RtpPacket_parse (RtpPacket_encode
      \<lparr>header = RtpHeader_new 10 65535 7 0xDEADBEEF, payload = [1, 2, 3]\<rparr>) =
   Ok \<lparr>header = RtpHeader_new 10 65535 7 0xDEADBEEF, payload = [1, 2, 3]\<rparr>"
  by (rule RtpPacket_parse_encode) (simp_all add: RtpHeader_new_def header_wf_def)

text \<open>
  Encoding a parsed packet gives the received bytes without the CSRC list: the twelve fixed
  bytes, then everything after the \<open>csrc_count\<close> four-byte identifiers.
\<close>

theorem RtpPacket_encode_parse:
  assumes "RtpPacket_parse buf = Ok p"
  shows "RtpPacket_encode p = take 12 buf @ drop (12 + 4 * unat (csrc_count (header p))) buf"
  using assms RtpHeader_encode_parse
  by (auto simp: RtpPacket_parse_def RtpPacket_encode_def encoded_len_def RTP_HEADER_LEN_def Let_def
      rbind_eq_Ok_iff split: if_splits)

theorem RtpPacket_encode_parse_witness:
  "RtpPacket_encode \<lparr>header = (RtpHeader_new 96 1 2 3)\<lparr>csrc_count := 1\<rparr>, payload = [9]\<rparr> =
   take 12 [0x81, 96, 0, 1, 0, 0, 0, 2, 0, 0, 0, 3, 5, 6, 7, 8, 9]
   @ drop (12 + 4 * unat (csrc_count (header \<lparr>header = (RtpHeader_new 96 1 2 3)\<lparr>csrc_count := 1\<rparr>, payload = [9]\<rparr>)))
     [0x81, 96, 0, 1, 0, 0, 0, 2, 0, 0, 0, 3, 5, 6, 7, 8, 9]"
  by (rule RtpPacket_encode_parse) code_simp

text \<open>
  Parsing succeeds exactly on a buffer that holds the fixed header, has version 2 and holds the
  CSRC list the header announces.
\<close>

theorem RtpPacket_parse_succeeds_iff:
  "(\<exists>p. RtpPacket_parse buf = Ok p) \<longleftrightarrow>
     12 \<le> length buf \<and> drop_bit 6 (buf ! 0) AND 3 = 2 \<and> 12 + 4 * unat (buf ! 0 AND 15) \<le> length buf"
  by (auto simp: RtpPacket_parse_def RtpHeader_parse_def RTP_HEADER_LEN_def RTP_VERSION_def encoded_len_def
      Let_def)

end
