(* ===== verification/Float32.thy ===== *)
theory Float32
  imports Prelude
begin

text \<open>
  The \<open>f32\<close> of the sources: IEEE 754 binary32 by its bit pattern, with the operations the audio
  code uses. A finite number is an integer multiple of \<open>2^-149\<close>, so its value is the integer
  \<open>f_val\<close> in that unit; an arithmetic result is the exact rational \<open>n / d\<close> in that unit, rounded to
  nearest, ties to even, by \<open>f_pack\<close>. Every NaN an operation produces is the canonical quiet
  NaN: the sources never inspect a NaN's payload.
\<close>

type_synonym f32 = u32

section \<open>Representation\<close>

definition f_sign :: "f32 \<Rightarrow> bool" where
  "f_sign x \<longleftrightarrow> 2 ^ 31 \<le> uint x"

definition f_body :: "f32 \<Rightarrow> int" where
  "f_body x = uint x mod 2 ^ 31"

definition f_exp :: "f32 \<Rightarrow> nat" where
  "f_exp x = nat (f_body x div 2 ^ 23)"

definition f_frac :: "f32 \<Rightarrow> int" where
  "f_frac x = f_body x mod 2 ^ 23"

definition is_nan :: "f32 \<Rightarrow> bool" where
  "is_nan x \<longleftrightarrow> 255 * 2 ^ 23 < f_body x"

definition is_inf :: "f32 \<Rightarrow> bool" where
  "is_inf x \<longleftrightarrow> f_body x = 255 * 2 ^ 23"

definition is_finite :: "f32 \<Rightarrow> bool" where
  "is_finite x \<longleftrightarrow> f_body x < 255 * 2 ^ 23"

definition f_mag :: "f32 \<Rightarrow> int" where
  "f_mag x = (if f_exp x = 0 then f_frac x else (2 ^ 23 + f_frac x) * 2 ^ (f_exp x - 1))"

definition f_val :: "f32 \<Rightarrow> int" where
  "f_val x = (if f_sign x then - f_mag x else f_mag x)"

text \<open>The unit: \<open>1.0\<close> is \<open>2^149\<close> units.\<close>

definition f_unit :: int where
  "f_unit = 2 ^ 149"

section \<open>Rounding\<close>

function int_bits :: "int \<Rightarrow> nat" where
  "int_bits n = (if n \<le> 0 then 0 else Suc (int_bits (n div 2)))"
  by auto
termination
  by (relation "measure nat") auto

declare int_bits.simps [simp del]

definition rne :: "int \<Rightarrow> int \<Rightarrow> int" where
  "rne n d =
     (let q = n div d; r = n mod d in
      if 2 * r > d \<or> (2 * r = d \<and> odd q) then q + 1 else q)"

definition f_make :: "bool \<Rightarrow> int \<Rightarrow> f32" where
  "f_make s b = word_of_int (min b (255 * 2 ^ 23) + (if s then 2 ^ 31 else 0))"

definition f_pack :: "bool \<Rightarrow> int \<Rightarrow> int \<Rightarrow> f32" where
  "f_pack s n d =
     (let k = int_bits (n div d) - 24 in f_make s (int k * 2 ^ 23 + rne n (d * 2 ^ k)))"

definition f_nan :: f32 where
  "f_nan = 0x7FC00000"

definition f_inf :: "bool \<Rightarrow> f32" where
  "f_inf s = f_make s (255 * 2 ^ 23)"

definition f_zero :: "bool \<Rightarrow> f32" where
  "f_zero s = f_make s 0"

section \<open>Operations\<close>

definition f_neg :: "f32 \<Rightarrow> f32" where
  "f_neg x = x XOR 0x80000000"

definition f_abs :: "f32 \<Rightarrow> f32" where
  "f_abs x = x AND 0x7FFFFFFF"

definition f_add :: "f32 \<Rightarrow> f32 \<Rightarrow> f32" where
  "f_add a b =
     (if is_nan a \<or> is_nan b then f_nan
      else if is_inf a then (if is_inf b \<and> f_sign a \<noteq> f_sign b then f_nan else a)
      else if is_inf b then b
      else let v = f_val a + f_val b in
           if v = 0 then f_zero (f_sign a \<and> f_sign b) else f_pack (v < 0) \<bar>v\<bar> 1)"

definition f_sub :: "f32 \<Rightarrow> f32 \<Rightarrow> f32" where
  "f_sub a b = f_add a (f_neg b)"

definition f_mul :: "f32 \<Rightarrow> f32 \<Rightarrow> f32" where
  "f_mul a b =
     (let s = (f_sign a \<noteq> f_sign b) in
      if is_nan a \<or> is_nan b then f_nan
      else if is_inf a \<or> is_inf b then (if f_body a = 0 \<or> f_body b = 0 then f_nan else f_inf s)
      else f_pack s (f_mag a * f_mag b) f_unit)"

definition f_div :: "f32 \<Rightarrow> f32 \<Rightarrow> f32" where
  "f_div a b =
     (let s = (f_sign a \<noteq> f_sign b) in
      if is_nan a \<or> is_nan b then f_nan
      else if is_inf a then (if is_inf b then f_nan else f_inf s)
      else if is_inf b then f_zero s
      else if f_body b = 0 then (if f_body a = 0 then f_nan else f_inf s)
      else f_pack s (f_mag a * f_unit) (f_mag b))"

text \<open>The order: bit patterns below the sign bit are ordered like the magnitudes they encode.\<close>

definition f_key :: "f32 \<Rightarrow> int" where
  "f_key x = (if f_sign x then - f_body x else f_body x)"

definition f_lt :: "f32 \<Rightarrow> f32 \<Rightarrow> bool" where
  "f_lt a b \<longleftrightarrow> \<not> is_nan a \<and> \<not> is_nan b \<and> f_key a < f_key b"

definition f_le :: "f32 \<Rightarrow> f32 \<Rightarrow> bool" where
  "f_le a b \<longleftrightarrow> \<not> is_nan a \<and> \<not> is_nan b \<and> f_key a \<le> f_key b"

definition f_eq :: "f32 \<Rightarrow> f32 \<Rightarrow> bool" where
  "f_eq a b \<longleftrightarrow> \<not> is_nan a \<and> \<not> is_nan b \<and> f_key a = f_key b"

text \<open>\<open>f32::clamp\<close>, \<open>f32::round\<close> (half away from zero), \<open>as i32\<close> (saturating) and \<open>i32 as f32\<close>.\<close>

definition f_clamp :: "f32 \<Rightarrow> f32 \<Rightarrow> f32 \<Rightarrow> f32" where
  "f_clamp x lo hi = (let x = (if f_lt x lo then lo else x) in if f_lt hi x then hi else x)"

definition f_round :: "f32 \<Rightarrow> f32" where
  "f_round x =
     (if is_finite x then f_pack (f_sign x) ((2 * f_mag x + f_unit) div (2 * f_unit) * f_unit) 1
      else x)"

definition f_to_i32 :: "f32 \<Rightarrow> int" where
  "f_to_i32 x =
     (if is_nan x then 0
      else if is_inf x then (if f_sign x then - (2 ^ 31) else 2 ^ 31 - 1)
      else let n = f_mag x div f_unit in
           max (- (2 ^ 31)) (min (2 ^ 31 - 1) (if f_sign x then - n else n)))"

definition f_of_int :: "int \<Rightarrow> f32" where
  "f_of_int i = f_pack (i < 0) (\<bar>i\<bar> * f_unit) 1"

section \<open>Laws of rounding\<close>

lemma int_bits_upper: "n < 2 ^ int_bits n"
proof (induction n rule: int_bits.induct)
  case (1 n)
  show ?case
  proof (cases "n \<le> 0")
    case True
    then show ?thesis by (simp add: int_bits.simps [of n])
  next
    case False
    with 1 have "n div 2 < 2 ^ int_bits (n div 2)" by simp
    then have "n < 2 * 2 ^ int_bits (n div 2)" by presburger
    with False show ?thesis by (subst int_bits.simps) simp
  qed
qed

lemma int_bits_lower: "0 < n \<Longrightarrow> 2 ^ int_bits n \<le> 2 * n"
proof (induction n rule: int_bits.induct)
  case (1 n)
  show ?case
  proof (cases "n div 2 = 0")
    case True
    with "1.prems" have "n = 1" by presburger
    then show ?thesis by (simp add: int_bits.simps [of 1] int_bits.simps [of 0])
  next
    case False
    with 1 have "2 ^ int_bits (n div 2) \<le> 2 * (n div 2)" by simp
    then have "2 * 2 ^ int_bits (n div 2) \<le> 2 * n" by presburger
    with "1.prems" show ?thesis by (subst int_bits.simps) simp
  qed
qed

lemma int_bits_le: "n < 2 ^ j \<Longrightarrow> int_bits n \<le> j"
proof (cases "n \<le> 0")
  case True
  then show ?thesis by (simp add: int_bits.simps [of n])
next
  case False
  assume "n < 2 ^ j"
  with int_bits_lower [of n] False have "(2::int) ^ int_bits n < 2 ^ Suc j" by simp
  then have "int_bits n < Suc j" by (rule power_less_imp_less_exp [rotated]) simp
  then show ?thesis by simp
qed

lemma rne_error:
  assumes "0 < d"
  shows "2 * \<bar>d * rne n d - n\<bar> \<le> d"
proof -
  have n: "n = d * (n div d) + n mod d" by simp
  moreover have "0 \<le> n mod d" "n mod d < d" using assms by simp_all
  moreover have "d * (n div d + 1) = d * (n div d) + d" by (simp add: algebra_simps)
  ultimately show ?thesis
    unfolding rne_def Let_def by (smt (verit))
qed

lemma rne_exact: "0 < d \<Longrightarrow> d dvd n \<Longrightarrow> rne n d = n div d"
  by (simp add: rne_def)

lemma rne_cancel: "0 < c \<Longrightarrow> rne (n * c) (d * c) = rne n (d :: int)"
  by (simp add: rne_def Let_def mult.commute [of _ c] mult.left_commute [of _ c] flip: mult_mod_right)

lemma f_pack_cancel: "0 < c \<Longrightarrow> f_pack s (n * c) (d * c) = f_pack s n d"
proof -
  assume c: "0 < c"
  have swap: "d * c * 2 ^ k = d * 2 ^ k * c" for k :: nat by simp
  show ?thesis
    unfolding f_pack_def Let_def swap rne_cancel [OF c] using c by simp
qed

lemma f_make_fields:
  assumes "0 \<le> b" "b < 255 * 2 ^ 23"
  shows "f_body (f_make s b) = b" "f_sign (f_make s b) = s" "is_finite (f_make s b)"
proof -
  have u: "uint (f_make s b) = b + (if s then 2 ^ 31 else 0)"
    unfolding f_make_def uint_word_of_int using assms by (simp add: min_absorb1)
  show "f_body (f_make s b) = b" "f_sign (f_make s b) = s"
    using assms by (auto simp: f_body_def f_sign_def u)
  then show "is_finite (f_make s b)" using assms by (simp add: is_finite_def)
qed

lemma f_mag_make:
  assumes "0 \<le> m" "m \<le> 2 ^ 24" "0 < k \<longrightarrow> 2 ^ 23 \<le> m" "k \<le> 252"
  shows "f_mag (f_make s (int k * 2 ^ 23 + m)) = m * 2 ^ k" (is "f_mag ?x = _")
    and "f_sign (f_make s (int k * 2 ^ 23 + m)) = s" and "is_finite (f_make s (int k * 2 ^ 23 + m))"
proof -
  let ?b = "int k * 2 ^ 23 + m"
  have b: "0 \<le> ?b" "?b < 255 * 2 ^ 23" using assms by auto
  note fields = f_make_fields [OF b, of s]
  show "f_sign ?x = s" "is_finite ?x" using fields by auto
  consider "k = 0" "m < 2 ^ 23" | "2 ^ 23 \<le> m" "m < 2 ^ 24" | "m = 2 ^ 24"
    using assms by fastforce
  then show "f_mag ?x = m * 2 ^ k"
  proof cases
    case 1
    then have "f_exp ?x = 0" "f_frac ?x = m"
      unfolding f_exp_def f_frac_def fields(1) using assms by simp_all
    with 1 show ?thesis by (simp add: f_mag_def)
  next
    case 2
    then have low: "0 \<le> m - 2 ^ 23" "m - 2 ^ 23 < 2 ^ 23" by simp_all
    have "?b = (m - 2 ^ 23) + (int k + 1) * 2 ^ 23" by simp
    then have "?b div 2 ^ 23 = int k + 1" "?b mod 2 ^ 23 = m - 2 ^ 23"
      using low by (simp_all only: div_mult_self1 mod_mult_self1 div_pos_pos_trivial mod_pos_pos_trivial)
    then have "f_exp ?x = Suc k" "f_frac ?x = m - 2 ^ 23"
      unfolding f_exp_def f_frac_def fields(1) by simp_all
    then show ?thesis by (simp add: f_mag_def)
  next
    case 3
    then have "?b = (int k + 2) * 2 ^ 23" by (simp add: algebra_simps)
    then have "?b div 2 ^ 23 = int k + 2" "?b mod 2 ^ 23 = 0" by simp_all
    then have "f_exp ?x = Suc (Suc k)" "f_frac ?x = 0"
      unfolding f_exp_def f_frac_def fields(1) by simp_all
    then show ?thesis using 3 by (simp add: f_mag_def)
  qed
qed

lemma int_div_less: "0 < d \<Longrightarrow> n < q * d \<Longrightarrow> n div d < (q :: int)"
proof (rule ccontr)
  assume d: "0 < d" and n: "n < q * d" and "\<not> n div d < q"
  then have "q * d \<le> n div d * d" by (intro mult_right_mono) simp_all
  moreover have "n div d * d + n mod d = n" by simp
  moreover have "0 \<le> n mod d" using d by simp
  ultimately show False using n by linarith
qed

lemma int_le_div: "0 < d \<Longrightarrow> q * d \<le> n \<Longrightarrow> (q :: int) \<le> n div d"
  using zdiv_mono1 [of "q * d" n d] by simp

lemma int_bits_pos: "0 < int_bits n \<Longrightarrow> 0 < n"
  by (rule ccontr) (simp add: int_bits.simps [of n])

text \<open>The rounded mantissa is in the range its exponent gives it.\<close>

lemma f_pack_mantissa:
  assumes "0 \<le> n" "0 < d" and k: "k = int_bits (n div d) - 24"
  shows "0 \<le> rne n (d * 2 ^ k)" "rne n (d * 2 ^ k) \<le> 2 ^ 24" "0 < k \<longrightarrow> 2 ^ 23 \<le> rne n (d * 2 ^ k)"
proof -
  let ?q = "n div (d * 2 ^ k)"
  have q: "?q = n div d div 2 ^ k" using assms by (simp add: zdiv_zmult2_eq)
  have r: "?q \<le> rne n (d * 2 ^ k)" "rne n (d * 2 ^ k) \<le> ?q + 1" by (simp_all add: rne_def Let_def)
  have "n div d < 2 ^ int_bits (n div d)" by (rule int_bits_upper)
  also have "\<dots> \<le> 2 ^ (24 + k)" by (rule power_increasing) (simp_all add: k)
  finally have "n div d < 2 ^ 24 * 2 ^ k" by (simp add: power_add)
  then have "?q < 2 ^ 24" unfolding q by (rule int_div_less [rotated]) simp_all
  with r show "rne n (d * 2 ^ k) \<le> 2 ^ 24" by linarith
  have "0 \<le> ?q" using assms by (simp add: pos_imp_zdiv_nonneg_iff)
  with r show "0 \<le> rne n (d * 2 ^ k)" by linarith
  show "0 < k \<longrightarrow> 2 ^ 23 \<le> rne n (d * 2 ^ k)"
  proof
    assume "0 < k"
    then have b: "int_bits (n div d) = k + 24" using k by simp
    then have "0 < n div d" by (intro int_bits_pos) simp
    then have "2 ^ (k + 24) \<le> 2 * (n div d)" using int_bits_lower [of "n div d"] b by simp
    then have "2 ^ 23 * 2 ^ k \<le> n div d" by (simp add: power_add)
    then have "2 ^ 23 \<le> ?q" unfolding q by (rule int_le_div [rotated]) simp_all
    with r show "2 ^ 23 \<le> rne n (d * 2 ^ k)" by linarith
  qed
qed

lemma f_pack_result:
  assumes "0 \<le> n" "0 < d" "n div d < 2 ^ 276" and k: "k = int_bits (n div d) - 24"
  shows "f_mag (f_pack s n d) = rne n (d * 2 ^ k) * 2 ^ k" "f_sign (f_pack s n d) = s"
    and "is_finite (f_pack s n d)"
proof -
  have "k \<le> 252" using int_bits_le [OF assms(3)] k by simp
  note m = f_mag_make [OF f_pack_mantissa [OF assms(1,2) k] this]
  have p: "f_pack s n d = f_make s (int k * 2 ^ 23 + rne n (d * 2 ^ k))"
    by (simp add: f_pack_def k Let_def)
  show "f_mag (f_pack s n d) = rne n (d * 2 ^ k) * 2 ^ k" "f_sign (f_pack s n d) = s"
    "is_finite (f_pack s n d)"
    unfolding p by (rule m)+
qed

lemma f_pack_exact:
  assumes "0 \<le> m" "m < 2 ^ 24" "j \<le> 252"
  shows "f_mag (f_pack s (m * 2 ^ j) 1) = m * 2 ^ j" "f_sign (f_pack s (m * 2 ^ j) 1) = s"
    "is_finite (f_pack s (m * 2 ^ j) 1)"
proof -
  let ?k = "int_bits (m * 2 ^ j) - 24"
  have lt: "m * 2 ^ j < 2 ^ (24 + j)" using assms by (simp add: power_add)
  also have "\<dots> \<le> (2::int) ^ 276" using assms by (intro power_increasing) simp_all
  finally have n: "m * 2 ^ j div 1 < 2 ^ 276" by simp
  have nn: "0 \<le> m * 2 ^ j" using assms by simp
  note res = f_pack_result [OF nn zero_less_one n refl, of s]
  have "?k \<le> j" using int_bits_le [OF lt] by simp
  then have "(2::int) ^ ?k dvd m * 2 ^ j" by (simp add: le_imp_power_dvd)
  then have ex: "rne (m * 2 ^ j) (2 ^ ?k) * 2 ^ ?k = m * 2 ^ j" by (simp add: rne_exact)
  show "f_mag (f_pack s (m * 2 ^ j) 1) = m * 2 ^ j"
    unfolding res(1) div_by_1 mult_1 by (rule ex)
  show "f_sign (f_pack s (m * 2 ^ j) 1) = s" "is_finite (f_pack s (m * 2 ^ j) 1)"
    by (rule res)+
qed

text \<open>The error of one rounding: half a unit in the last place.\<close>

lemma f_pack_error:
  assumes "0 \<le> n" "0 < d" "n < d * 2 ^ (24 + k)" "k \<le> 252"
  shows "2 * \<bar>d * f_mag (f_pack s n d) - n\<bar> \<le> d * 2 ^ k"
proof -
  have q: "n div d < 2 ^ (24 + k)" using assms by (intro int_div_less) (simp_all add: mult.commute)
  also have "\<dots> \<le> (2::int) ^ 276" using assms by (intro power_increasing) simp_all
  finally have q': "n div d < 2 ^ 276" .
  define j where "j = int_bits (n div d) - 24"
  have "j \<le> k" using int_bits_le [OF q] by (simp add: j_def)
  then have jk: "(2::int) ^ j \<le> 2 ^ k" by (intro power_increasing) simp_all
  have m: "f_mag (f_pack s n d) = rne n (d * 2 ^ j) * 2 ^ j"
    by (rule f_pack_result(1) [OF assms(1,2) q' j_def])
  have "2 * \<bar>d * 2 ^ j * rne n (d * 2 ^ j) - n\<bar> \<le> d * 2 ^ j"
    using assms by (intro rne_error) simp
  also have "\<dots> \<le> d * 2 ^ k" using assms jk by simp
  finally show ?thesis by (simp add: m mult.assoc mult.commute [of "rne n (d * 2 ^ j)"])
qed

section \<open>Order\<close>

text \<open>The magnitude a bit pattern encodes is strictly increasing in the pattern.\<close>

definition mag_of :: "nat \<Rightarrow> int" where
  "mag_of b = (if b div 2 ^ 23 = 0 then int (b mod 2 ^ 23)
     else (2 ^ 23 + int (b mod 2 ^ 23)) * 2 ^ (b div 2 ^ 23 - 1))"

lemma f_mag_mag_of: "f_mag x = mag_of (nat (f_body x))"
proof -
  have "0 \<le> f_body x" by (simp add: f_body_def)
  then show ?thesis
    by (simp add: f_mag_def mag_of_def f_exp_def f_frac_def nat_div_distrib zmod_int)
qed

lemma mag_of_Suc: "mag_of b < mag_of (Suc b)"
proof (cases "Suc (b mod 2 ^ 23) = 2 ^ 23")
  case True
  then have "Suc b div 2 ^ 23 = Suc (b div 2 ^ 23)" "Suc b mod 2 ^ 23 = 0" "b mod 2 ^ 23 = 2 ^ 23 - 1"
    by (simp_all add: div_Suc mod_Suc)
  then show ?thesis by (cases "b div 2 ^ 23") (simp_all add: mag_of_def)
next
  case False
  then have "Suc b div 2 ^ 23 = b div 2 ^ 23" "Suc b mod 2 ^ 23 = Suc (b mod 2 ^ 23)"
    by (simp_all add: div_Suc mod_Suc)
  then show ?thesis by (simp add: mag_of_def)
qed

lemma mag_of_strict_mono: "strict_mono mag_of"
  by (simp add: strict_mono_Suc_iff mag_of_Suc)

lemma f_mag_less_iff: "f_mag x < f_mag y \<longleftrightarrow> f_body x < f_body y"
proof -
  have "0 \<le> f_body x" "0 \<le> f_body y" by (simp_all add: f_body_def)
  then show ?thesis
    by (simp add: f_mag_mag_of strict_mono_less [OF mag_of_strict_mono] nat_less_eq_zless) linarith
qed

lemma f_mag_nonneg [simp]: "0 \<le> f_mag x"
  by (simp add: f_mag_def f_frac_def)

lemma f_mag_0_iff: "f_mag x = 0 \<longleftrightarrow> f_body x = 0"
proof -
  have "0 \<le> f_body x" by (simp add: f_body_def)
  moreover have "f_mag x = mag_of 0 \<longleftrightarrow> nat (f_body x) = 0"
    unfolding f_mag_mag_of by (rule strict_mono_eq [OF mag_of_strict_mono])
  ultimately show ?thesis by (simp add: mag_of_def)
qed

lemma finite_not_nan_inf: "is_finite x \<Longrightarrow> \<not> is_nan x \<and> \<not> is_inf x"
  by (simp add: is_finite_def is_nan_def is_inf_def)

lemma f_lt_finite: "is_finite x \<Longrightarrow> is_finite y \<Longrightarrow> f_lt x y \<longleftrightarrow> f_val x < f_val y"
proof -
  have "0 \<le> f_body x" "0 \<le> f_body y" by (simp_all add: f_body_def)
  then show ?thesis if "is_finite x" "is_finite y"
    using that finite_not_nan_inf [of x] finite_not_nan_inf [of y] f_mag_less_iff [of x y]
      f_mag_less_iff [of y x] f_mag_0_iff [of x] f_mag_0_iff [of y] f_mag_nonneg [of x] f_mag_nonneg [of y]
    unfolding f_lt_def f_key_def f_val_def by (smt (verit))
qed

text \<open>Clamping puts every number except NaN into the interval and keeps those already there.\<close>

lemma f_clamp_id:
  "is_finite x \<Longrightarrow> is_finite lo \<Longrightarrow> is_finite hi \<Longrightarrow> f_val lo \<le> f_val x \<Longrightarrow> f_val x \<le> f_val hi \<Longrightarrow>
   f_clamp x lo hi = x"
  by (simp add: f_clamp_def f_lt_finite)

section \<open>Integers\<close>

lemma f_of_int_exact:
  assumes "\<bar>i\<bar> < 2 ^ 24"
  shows "f_mag (f_of_int i) = \<bar>i\<bar> * f_unit" "f_sign (f_of_int i) = (i < 0)" "is_finite (f_of_int i)"
  using f_pack_exact [of "\<bar>i\<bar>" 149 "i < 0"] assms by (simp_all add: f_of_int_def f_unit_def)

lemma f_val_of_int: "\<bar>i\<bar> < 2 ^ 24 \<Longrightarrow> f_val (f_of_int i) = i * f_unit"
  by (simp add: f_val_def f_of_int_exact)

end
