(* ===== verification/Pcm_Framing.thy ===== *)
theory Pcm_Framing
  imports Rtp_Codec Float32
begin

text \<open>
  The L16 and L24 PCM framing of \<open>net-rtp-aes67/src/codec.rs\<close>: planar \<open>f32\<close> samples against
  big-endian interleaved integers. The encoder and the decoder are the sources' nested loops over
  frames and channels; their lemmas give each output position its sample.
\<close>

section \<open>Operations\<close>

definition L16_FULL_SCALE :: f32 where
  "L16_FULL_SCALE = f_of_int 32767"

definition L16_DECODE_DIV :: f32 where
  "L16_DECODE_DIV = f_of_int 32768"

definition L24_FULL_SCALE :: f32 where
  "L24_FULL_SCALE = f_of_int 8388607"

definition L24_DECODE_DIV :: f32 where
  "L24_DECODE_DIV = f_of_int 8388608"

text \<open>The value written for one sample: clamp, scale, round half away from zero, convert.\<close>

definition quantize :: "f32 \<Rightarrow> f32 \<Rightarrow> int" where
  "quantize full_scale x =
     f_to_i32 (f_round (f_mul (f_clamp x (f_of_int (- 1)) (f_of_int 1)) full_scale))"

definition encode_pcm :: "f32 list \<Rightarrow> u16 \<Rightarrow> f32 \<Rightarrow> (int \<Rightarrow> bytes) \<Rightarrow> bytes" where
  "encode_pcm frames channels full_scale pack =
     (let ch = unat channels in
      if ch = 0 then []
      else
        let num_frames = length frames div ch in
        concat (map (\<lambda>i. concat (map (\<lambda>c. pack (quantize full_scale (frames ! (c * num_frames + i))))
          [0..<ch])) [0..<num_frames]))"

definition decode_pcm :: "bytes \<Rightarrow> u16 \<Rightarrow> f32 \<Rightarrow> nat \<Rightarrow> (bytes \<Rightarrow> int) \<Rightarrow> f32 list" where
  "decode_pcm buf channels decode_div width unpack =
     (let ch = unat channels in
      if ch = 0 then []
      else
        let num_samples = length buf div width;
            num_frames = num_samples div ch
        in fold (\<lambda>i. fold (\<lambda>c out.
             let idx = (i * ch + c) * width;
                 s = unpack (take width (drop idx buf))
             in out[c * num_frames + i := f_div (f_of_int s) decode_div]) [0..<ch])
           [0..<num_frames] (replicate (num_frames * ch) 0))"

definition pack_l16 :: "int \<Rightarrow> bytes" where
  "pack_l16 s = to_be16 (word_of_int s)"

definition unpack_l16 :: "bytes \<Rightarrow> int" where
  "unpack_l16 chunk = sint (from_be16 (chunk ! 0) (chunk ! 1))"

definition pack_l24 :: "int \<Rightarrow> bytes" where
  "pack_l24 s =
     [word_of_int (drop_bit 16 s AND 0xFF), word_of_int (drop_bit 8 s AND 0xFF), word_of_int (s AND 0xFF)]"

definition unpack_l24 :: "bytes \<Rightarrow> int" where
  "unpack_l24 chunk =
     (let raw = push_bit 16 (ucast (chunk ! 0)) OR push_bit 8 (ucast (chunk ! 1)) OR ucast (chunk ! 2) :: u32
      in if raw AND 0x00800000 \<noteq> 0 then sint (raw OR 0xFF000000) else sint raw)"

definition encode_l16 :: "f32 list \<Rightarrow> u16 \<Rightarrow> bytes" where
  "encode_l16 frames channels = encode_pcm frames channels L16_FULL_SCALE pack_l16"

definition decode_l16 :: "bytes \<Rightarrow> u16 \<Rightarrow> f32 list" where
  "decode_l16 buf channels = decode_pcm buf channels L16_DECODE_DIV 2 unpack_l16"

definition encode_l24 :: "f32 list \<Rightarrow> u16 \<Rightarrow> bytes" where
  "encode_l24 frames channels = encode_pcm frames channels L24_FULL_SCALE pack_l24"

definition decode_l24 :: "bytes \<Rightarrow> u16 \<Rightarrow> f32 list" where
  "decode_l24 buf channels = decode_pcm buf channels L24_DECODE_DIV 3 unpack_l24"

section \<open>Layout\<close>

lemma fold_list_update_length: "length (fold (\<lambda>p out. out[f p := g p]) ps out) = length out"
  by (induction ps arbitrary: out) auto

lemma fold_list_update_other:
  "j \<notin> f ` set ps \<Longrightarrow> fold (\<lambda>p out. out[f p := g p]) ps out ! j = out ! j"
  by (induction ps arbitrary: out) auto

lemma fold_list_update_nth:
  assumes "inj_on f (set ps)" "distinct ps" "p \<in> set ps" "f p < length out"
  shows "fold (\<lambda>p out. out[f p := g p]) ps out ! f p = g p"
  using assms
proof (induction ps arbitrary: out)
  case Nil
  then show ?case by simp
next
  case (Cons q ps)
  show ?case
  proof (cases "p = q")
    case True
    then have "f p \<notin> f ` set ps" using Cons.prems by (auto simp: inj_on_def)
    then show ?thesis using Cons.prems True by (simp add: fold_list_update_other)
  next
    case False
    then show ?thesis using Cons by simp
  qed
qed

lemma fold_fold_product:
  "fold (\<lambda>i. fold (\<lambda>c. h i c) cs) is out = fold (\<lambda>(i, c). h i c) (List.product is cs) out"
proof (induction "is" arbitrary: out)
  case (Cons i "is")
  have "fold (\<lambda>(i, c). h i c) (map (Pair i) cs) out = fold (h i) cs out" for out
    by (simp add: fold_map comp_def)
  with Cons show ?case by simp
qed simp

text \<open>Frame \<open>i\<close> of channel \<open>c\<close> is one position of the planar layout and one of the interleaved one.\<close>

lemma planar_index_less: "c < ch \<Longrightarrow> i < n \<Longrightarrow> c * n + i < n * (ch :: nat)"
proof -
  assume "c < ch" "i < n"
  then have "Suc c * n \<le> ch * n" by (intro mult_le_mono1) simp
  with \<open>i < n\<close> show ?thesis by (simp add: mult.commute)
qed

lemma planar_index_inj:
  assumes "c * n + i = c' * n + i'" "i < n" "i' < (n :: nat)"
  shows "c = c'" "i = i'"
proof -
  have "(a * n + b) div n = a" if "b < n" for a b using that by simp
  from this [of i c] this [of i' c'] show "c = c'" using assms by simp
  then show "i = i'" using assms(1) by simp
qed

lemma decode_pcm_length:
  "length (decode_pcm buf channels dv width unpack) =
     length buf div width div unat channels * unat channels"
proof -
  have len: "length (fold (\<lambda>i. fold (\<lambda>c out. out[f i c := g i c]) cs) is out) = length out"
    for f g cs "is" and out :: "f32 list"
    by (simp add: fold_fold_product case_prod_unfold fold_list_update_length)
  show ?thesis by (simp add: decode_pcm_def Let_def len)
qed

lemma decode_pcm_nth:
  assumes n: "n = length buf div width div unat channels" and c: "c < unat channels" and i: "i < n"
  shows "decode_pcm buf channels dv width unpack ! (c * n + i) =
    f_div (f_of_int (unpack (take width (drop ((i * unat channels + c) * width) buf)))) dv"
proof -
  let ?ch = "unat channels"
  let ?g = "\<lambda>p. f_div (f_of_int (unpack (take width (drop ((fst p * ?ch + snd p) * width) buf)))) dv"
  let ?f = "\<lambda>p. snd p * n + fst p"
  let ?ps = "List.product [0..<n] [0..<?ch]"
  have inj: "inj_on ?f (set ?ps)"
    by (auto simp: inj_on_def dest: planar_index_inj)
  have "fold (\<lambda>p out. out[?f p := ?g p]) ?ps (replicate (n * ?ch) 0) ! ?f (i, c) = ?g (i, c)"
    using c i by (intro fold_list_update_nth [OF inj])
      (simp_all add: distinct_product planar_index_less)
  moreover have "decode_pcm buf channels dv width unpack =
      fold (\<lambda>p out. out[?f p := ?g p]) ?ps (replicate (n * ?ch) 0)"
    using c by (simp add: decode_pcm_def Let_def n fold_fold_product case_prod_unfold)
  ultimately show ?thesis by simp
qed

lemma concat_concat_product:
  "concat (map (\<lambda>i. concat (map (g i) cs)) is) = concat (map (\<lambda>p. g (fst p) (snd p)) (List.product is cs))"
  by (induction "is") (simp_all add: comp_def)

lemma encode_pcm_product:
  assumes "unat channels \<noteq> 0" and n: "n = length frames div unat channels"
  shows "encode_pcm frames channels fs pack =
    concat (map (\<lambda>p. pack (quantize fs (frames ! (snd p * n + fst p)))) (List.product [0..<n] [0..<unat channels]))"
  using assms by (simp add: encode_pcm_def Let_def concat_concat_product)

lemma encode_pcm_length:
  assumes "\<And>s. length (pack s) = width"
  shows "length (encode_pcm frames channels fs pack) =
    width * (length frames div unat channels * unat channels)"
proof (cases "unat channels = 0")
  case False
  then show ?thesis
    by (simp add: encode_pcm_product [OF _ refl] length_concat_const [where k = width] assms)
qed (simp add: encode_pcm_def)

lemma encode_pcm_block:
  assumes n: "n = length frames div unat channels" and c: "c < unat channels" and i: "i < n"
    and w: "\<And>s. length (pack s) = width"
  shows "take width (drop ((i * unat channels + c) * width) (encode_pcm frames channels fs pack)) =
    pack (quantize fs (frames ! (c * n + i)))"
proof -
  let ?ps = "List.product [0..<n] [0..<unat channels]"
  have j: "i * unat channels + c < length ?ps"
    using planar_index_less [OF i c] by (simp add: mult.commute)
  have "?ps ! (i * unat channels + c) = (i, c)"
    using c i j by (simp add: product_nth)
  with concat_block [of ?ps "\<lambda>p. pack (quantize fs (frames ! (snd p * n + fst p)))" width, OF _ j]
  show ?thesis using c by (simp add: encode_pcm_product [OF _ n] w)
qed

section \<open>Quantization\<close>

lemma div_mult_bounds: "0 < d \<Longrightarrow> n div d * d \<le> n \<and> n < n div d * d + (d :: int)"
proof -
  assume d: "0 < d"
  have "n div d * d + n mod d = n" by simp
  moreover have "0 \<le> n mod d" "n mod d < d" using d by simp_all
  ultimately show ?thesis by linarith
qed

lemma f_of_int_1:
  "f_val (f_of_int 1) = f_unit" "f_val (f_of_int (- 1)) = - f_unit"
  "is_finite (f_of_int 1)" "is_finite (f_of_int (- 1))"
  using f_val_of_int [of 1] f_val_of_int [of "- 1"] f_of_int_exact(3) [of 1] f_of_int_exact(3) [of "- 1"]
  by simp_all

definition in_range :: "f32 \<Rightarrow> bool" where
  "in_range x \<longleftrightarrow> is_finite x \<and> f_mag x \<le> f_unit"

lemma f_clamp_in_range: "in_range x \<Longrightarrow> f_clamp x (f_of_int (- 1)) (f_of_int 1) = x"
proof (rule f_clamp_id)
  assume "in_range x"
  then have x: "is_finite x" "f_mag x \<le> f_unit" by (simp_all add: in_range_def)
  moreover have "0 \<le> f_mag x" by simp
  ultimately have "- f_unit \<le> f_mag x" "- f_mag x \<le> f_unit" by linarith+
  with x show "is_finite x" "f_val (f_of_int (- 1)) \<le> f_val x" "f_val x \<le> f_val (f_of_int 1)"
    by (simp_all add: f_of_int_1 f_val_def [of x])
qed (simp_all add: f_of_int_1)

lemma f_mul_of_int:
  assumes "is_finite x" "0 \<le> F" "F < 2 ^ 24"
  shows "f_mul x (f_of_int F) = f_pack (f_sign x) (f_mag x * F) 1"
proof -
  have F: "\<bar>F\<bar> < 2 ^ 24" using assms by simp
  have "f_mul x (f_of_int F) = f_pack (f_sign x) (f_mag x * F * f_unit) (1 * f_unit)"
    using assms finite_not_nan_inf [of x] finite_not_nan_inf [OF f_of_int_exact(3) [OF F]]
    by (simp add: f_mul_def Let_def f_of_int_exact(1,2) [OF F] mult.assoc)
  also have "\<dots> = f_pack (f_sign x) (f_mag x * F) 1"
    by (rule f_pack_cancel) (simp add: f_unit_def)
  finally show ?thesis .
qed

lemma f_to_i32_round:
  assumes x: "is_finite x" and R: "R = (2 * f_mag x + f_unit) div (2 * f_unit)" "R < 2 ^ 24"
  shows "f_to_i32 (f_round x) = (if f_sign x then - R else R)"
proof -
  have U: "0 < f_unit" "f_unit = 2 ^ 149" by (simp_all add: f_unit_def)
  have R0: "0 \<le> R" using U R f_mag_nonneg [of x] by (simp add: pos_imp_zdiv_nonneg_iff)
  note ex = f_pack_exact [OF R0 R(2), of 149 "f_sign x", folded U(2)]
  have "f_round x = f_pack (f_sign x) (R * f_unit) 1" using x R by (simp add: f_round_def)
  moreover have "R * f_unit div f_unit = R" using U by simp
  ultimately show ?thesis
    using ex finite_not_nan_inf R R0 by (simp add: f_to_i32_def)
qed

lemma rounding_errors_add:
  "2 * a \<le> 2 * m + u \<Longrightarrow> 2 * m + u < 2 * a + 2 * u \<Longrightarrow> 2 * \<bar>m - n\<bar> \<le> e \<Longrightarrow> 2 * \<bar>a - n\<bar> \<le> u + (e :: int)"
  by arith

lemma rounding_upper:
  "2 * \<bar>a - n\<bar> \<le> u + e \<Longrightarrow> 2 * e \<le> u \<Longrightarrow> n \<le> b \<Longrightarrow> 0 < u \<Longrightarrow> a < b + (u :: int)"
  by arith

text \<open>One conversion is within half a step, plus the rounding error of the product, of exact scaling.\<close>

lemma quantize_spec:
  assumes x: "in_range x" and F: "0 \<le> F" "F < 2 ^ p" "p \<le> 23"
  shows "2 * \<bar>quantize (f_of_int F) x * f_unit - F * f_val x\<bar> \<le> f_unit + 2 ^ (125 + p)"
    and "\<bar>quantize (f_of_int F) x\<bar> \<le> F"
proof -
  let ?U = f_unit
  have U: "0 < ?U" by (simp add: f_unit_def)
  have pp: "(2::int) ^ p \<le> 2 ^ 23" using F by (intro power_increasing) simp_all
  then have F24: "F < 2 ^ 24" using F by simp
  let ?n = "f_mag x * F"
  define y where "y = f_pack (f_sign x) ?n 1"
  define R where "R = (2 * f_mag y + ?U) div (2 * ?U)"
  have nU: "?n \<le> ?U * F" using x F by (intro mult_right_mono) (simp_all add: in_range_def)
  also have "\<dots> < ?U * 2 ^ p" using F U by simp
  finally have n: "?n < 1 * 2 ^ (24 + (125 + p))" by (simp add: f_unit_def power_add)
  have n0: "0 \<le> ?n" using F by simp
  have err: "2 * \<bar>f_mag y - ?n\<bar> \<le> 2 ^ (125 + p)"
    using f_pack_error [OF n0 zero_less_one n, of "f_sign x"] F by (simp add: y_def)
  have small: "2 * (2::int) ^ (125 + p) \<le> ?U"
    using power_increasing [of "126 + p" 149 "2::int"] F by (simp add: f_unit_def power_add)
  have R: "2 * (R * ?U) \<le> 2 * f_mag y + ?U" "2 * f_mag y + ?U < 2 * (R * ?U) + 2 * ?U"
    using div_mult_bounds [of "2 * ?U" "2 * f_mag y + ?U"] U by (simp_all add: R_def mult.left_commute)
  have bound: "2 * \<bar>R * ?U - ?n\<bar> \<le> ?U + 2 ^ (125 + p)" using R err by (rule rounding_errors_add)
  have "R * ?U < ?U * F + ?U" using bound small nU U by (rule rounding_upper)
  then have "R * ?U < (F + 1) * ?U" by (simp add: algebra_simps)
  then have RF: "R \<le> F" using U by simp
  have R0: "0 \<le> R" using U f_mag_nonneg [of y] by (simp add: R_def pos_imp_zdiv_nonneg_iff)
  have "(2::int) ^ (24 + (125 + p)) \<le> 2 ^ 276" using F by (intro power_increasing) simp_all
  then have lt: "?n div 1 < 2 ^ 276" using n by (simp only: div_by_1 mult_1)
  note fp = f_pack_result(2,3) [OF n0 zero_less_one lt refl, of "f_sign x", folded y_def]
  have q: "quantize (f_of_int F) x = (if f_sign x then - R else R)"
    using f_to_i32_round [OF fp(2) R_def] RF F24 F x fp(1)
    by (simp add: quantize_def f_clamp_in_range f_mul_of_int in_range_def y_def)
  show "2 * \<bar>quantize (f_of_int F) x * f_unit - F * f_val x\<bar> \<le> f_unit + 2 ^ (125 + p)"
    using bound unfolding q f_val_def by (simp add: mult.commute abs_minus_commute)
  show "\<bar>quantize (f_of_int F) x\<bar> \<le> F" using RF R0 unfolding q by simp
qed

lemma unpack_pack_l16:
  assumes "\<bar>q\<bar> \<le> 32767"
  shows "unpack_l16 (pack_l16 q) = q"
proof -
  obtain a b where "to_be16 (word_of_int q) = [a, b]" "from_be16 a b = word_of_int q" by (rule to_be16_ex)
  then show ?thesis using assms
    by (simp add: unpack_l16_def pack_l16_def sint_word_of_int_self)
qed

lemma l24_raw:
  "push_bit 16 (ucast (word_of_int (drop_bit 16 q AND 255) :: u8)) OR
   push_bit 8 (ucast (word_of_int (drop_bit 8 q AND 255) :: u8)) OR
   ucast (word_of_int (q AND 255) :: u8) = (take_bit 24 (word_of_int q) :: u32)" (is "?l = ?r")
proof (rule bit_word_eqI)
  have m: "(255 :: int) = mask 8" by (simp add: mask_eq_exp_minus_1)
  fix n assume "n < LENGTH(32)"
  then consider "n < 8" | "8 \<le> n" "n < 16" | "16 \<le> n" "n < 24" | "24 \<le> n" "n < 32" by fastforce
  then show "bit ?l n = bit ?r n" unfolding m by cases (auto simp: bit_simps)
qed

lemma unpack_pack_l24:
  assumes q: "\<bar>q\<bar> \<le> 8388607"
  shows "unpack_l24 (pack_l24 q) = q"
proof -
  let ?raw = "take_bit 24 (word_of_int q) :: u32"
  have self: "signed_take_bit 23 q = q" using q by (intro signed_take_bit_int_eq_self) simp_all
  have high: "bit q n = bit q 23" if "23 \<le> n" for n
    using bit_signed_take_bit_iff [of 23 q n] that by (simp add: self min_def)
  have f: "(0xFF000000 :: u32) = push_bit 24 (mask 8)" by (simp add: mask_eq_exp_minus_1)
  have "?raw AND 0x00800000 \<noteq> 0 \<longleftrightarrow> bit q 23"
    using and_exp_eq_0_iff_not_bit [of ?raw 23] by (simp add: bit_simps)
  moreover have "?raw OR 0xFF000000 = word_of_int q" if "bit q 23"
  proof (unfold f, rule bit_word_eqI)
    fix n
    show "bit (?raw OR push_bit 24 (mask 8)) n = bit (word_of_int q :: u32) n" if "n < LENGTH(32)"
      using high [of n] \<open>bit q 23\<close> that by (cases "n < 24") (auto simp: bit_simps)
  qed
  moreover have "?raw = word_of_int q" if "\<not> bit q 23"
  proof (rule bit_word_eqI)
    fix n
    show "bit ?raw n = bit (word_of_int q :: u32) n" if "n < LENGTH(32)"
      using high [of n] \<open>\<not> bit q 23\<close> that by (cases "n < 24") (auto simp: bit_simps)
  qed
  moreover have "sint (word_of_int q :: u32) = q" using q by (simp add: sint_word_of_int_self)
  ultimately show ?thesis unfolding unpack_l24_def pack_l24_def by (simp add: l24_raw Let_def)
qed

section \<open>Round trips\<close>

lemma f_div_pow2:
  assumes "\<bar>s\<bar> < 2 ^ 24" "p \<le> 23"
  shows "f_val (f_div (f_of_int s) (f_of_int (2 ^ p))) = s * 2 ^ (149 - p)"
    and "is_finite (f_div (f_of_int s) (f_of_int (2 ^ p)))"
proof -
  have U: "f_unit = 2 ^ (149 - p) * 2 ^ p" using assms by (simp add: f_unit_def flip: power_add)
  have "(2::int) ^ p \<le> 2 ^ 23" using assms by (intro power_increasing) simp_all
  then have P: "\<bar>(2::int) ^ p\<bar> < 2 ^ 24" by simp
  note a = f_of_int_exact [OF assms(1)] and b = f_of_int_exact [OF P]
  have "f_mag (f_of_int (2 ^ p)) \<noteq> 0" by (simp add: b f_unit_def)
  then have nz: "f_body (f_of_int (2 ^ p)) \<noteq> 0" by (simp add: f_mag_0_iff)
  have "f_div (f_of_int s) (f_of_int (2 ^ p)) = f_pack (s < 0) (\<bar>s\<bar> * f_unit * f_unit) (2 ^ p * f_unit)"
    using finite_not_nan_inf [OF a(3)] finite_not_nan_inf [OF b(3)] nz
    by (simp add: f_div_def Let_def a b)
  also have "\<dots> = f_pack (s < 0) (\<bar>s\<bar> * f_unit) (2 ^ p)"
    by (rule f_pack_cancel) (simp add: f_unit_def)
  also have "\<dots> = f_pack (s < 0) (\<bar>s\<bar> * 2 ^ (149 - p) * 2 ^ p) (1 * 2 ^ p)"
    by (simp only: U mult.assoc mult_1)
  also have "\<dots> = f_pack (s < 0) (\<bar>s\<bar> * 2 ^ (149 - p)) 1"
    by (rule f_pack_cancel) simp
  finally have d: "f_div (f_of_int s) (f_of_int (2 ^ p)) = f_pack (s < 0) (\<bar>s\<bar> * 2 ^ (149 - p)) 1" .
  have "149 - p \<le> 252" by simp
  note ex = f_pack_exact [OF abs_ge_zero assms(1) this, of "s < 0"]
  show "f_val (f_div (f_of_int s) (f_of_int (2 ^ p))) = s * 2 ^ (149 - p)"
    unfolding d f_val_def ex by simp
  show "is_finite (f_div (f_of_int s) (f_of_int (2 ^ p)))" unfolding d by (rule ex)
qed

text \<open>
  The step of the sixteen-bit format is \<open>2 ^ 134\<close> units: a sample that is encoded and decoded comes
  back within one and a half steps (plus the rounding of one product), and an integer sample that is
  decoded and encoded again comes back within one.
\<close>

definition l16_requantize :: "int \<Rightarrow> int" where
  "l16_requantize s = quantize L16_FULL_SCALE (f_div (f_of_int s) L16_DECODE_DIV)"

lemma l16_dequantize:
  assumes "\<bar>s\<bar> \<le> 32768"
  shows "f_val (f_div (f_of_int s) L16_DECODE_DIV) = s * 2 ^ 134"
    and "in_range (f_div (f_of_int s) L16_DECODE_DIV)"
proof -
  have s: "\<bar>s\<bar> < 2 ^ 24" using assms by simp
  have v: "f_val (f_div (f_of_int s) L16_DECODE_DIV) = s * 2 ^ 134"
    "is_finite (f_div (f_of_int s) L16_DECODE_DIV)"
    using f_div_pow2 [OF s, of 15] by (simp_all add: L16_DECODE_DIV_def)
  then show "f_val (f_div (f_of_int s) L16_DECODE_DIV) = s * 2 ^ 134" by simp
  have "\<bar>s * 2 ^ 134\<bar> \<le> f_unit" using assms by (simp add: abs_mult f_unit_def)
  moreover have "f_mag x = \<bar>f_val x\<bar>" for x by (simp add: f_val_def)
  ultimately show "in_range (f_div (f_of_int s) L16_DECODE_DIV)" using v by (simp add: in_range_def)
qed

lemma l16_requantize_error:
  assumes "\<bar>s\<bar> \<le> 32768"
  shows "\<bar>l16_requantize s - s\<bar> \<le> 1"
proof -
  let ?q = "l16_requantize s"
  have "2 * \<bar>?q * f_unit - 32767 * (s * 2 ^ 134)\<bar> \<le> f_unit + 2 ^ (125 + 15)"
    using quantize_spec(1) [OF l16_dequantize(2) [OF assms], of 32767 15] l16_dequantize(1) [OF assms]
    by (simp add: l16_requantize_def L16_FULL_SCALE_def)
  then show ?thesis using assms unfolding f_unit_def by simp
qed

lemma l16_sample_error:
  assumes "in_range x"
  shows "1024 * \<bar>f_val (f_div (f_of_int (quantize L16_FULL_SCALE x)) L16_DECODE_DIV) - f_val x\<bar> \<le> 1537 * 2 ^ 134"
proof -
  let ?q = "quantize L16_FULL_SCALE x"
  have q: "2 * \<bar>?q * f_unit - 32767 * f_val x\<bar> \<le> f_unit + 2 ^ (125 + 15)" "\<bar>?q\<bar> \<le> 32767"
    using quantize_spec [OF assms, of 32767 15] by (simp_all add: L16_FULL_SCALE_def)
  then have "f_val (f_div (f_of_int ?q) L16_DECODE_DIV) = ?q * 2 ^ 134"
    by (intro l16_dequantize(1)) simp
  moreover have "\<bar>f_val x\<bar> \<le> f_unit" using assms by (simp add: in_range_def f_val_def)
  ultimately show ?thesis using q(1) unfolding f_unit_def by simp
qed

lemma length_pack [simp]: "length (pack_l16 s) = 2" "length (pack_l24 s) = 3"
  by (simp_all add: pack_l16_def pack_l24_def)

lemma unpack_l16_range: "\<bar>unpack_l16 b\<bar> \<le> 32768"
  using sint_greater_eq [of "from_be16 (b ! 0) (b ! 1)"] sint_less [of "from_be16 (b ! 0) (b ! 1)"]
  by (simp add: unpack_l16_def)

text \<open>
  C31: A planar buffer of \<open>f32\<close> samples in [-1, 1] that is encoded as L16 and decoded again has the
  same layout, cut to whole frames, and every sample comes back within 1537/1024 of the sixteen-bit
  step \<open>2 ^ 134\<close> (a step is 1/32768, in units of \<open>2 ^ -149\<close>).
\<close>

theorem l16_encode_decode:
  assumes "n = length frames div unat channels" "c < unat channels" "i < n"
    and "\<And>x. x \<in> set frames \<Longrightarrow> in_range x"
  shows "length (decode_l16 (encode_l16 frames channels) channels) = n * unat channels \<and>
    1024 * \<bar>f_val (decode_l16 (encode_l16 frames channels) channels ! (c * n + i)) - f_val (frames ! (c * n + i))\<bar>
      \<le> 1537 * 2 ^ 134"
proof -
  let ?ch = "unat channels" and ?e = "encode_l16 frames channels"
  have len: "length ?e = 2 * (n * ?ch)"
    by (simp add: encode_l16_def encode_pcm_length assms(1))
  have n: "n = length ?e div 2 div ?ch" using assms(2) by (simp add: len)
  have "n * ?ch \<le> length frames" unfolding assms(1) by (rule div_times_less_eq_dividend)
  with planar_index_less [OF assms(2,3)] have "c * n + i < length frames" by linarith
  then have x: "in_range (frames ! (c * n + i))" using assms(4) by simp
  have q: "\<bar>quantize L16_FULL_SCALE (frames ! (c * n + i))\<bar> \<le> 32767"
    using quantize_spec(2) [OF x, of 32767 15] by (simp add: L16_FULL_SCALE_def)
  have "decode_l16 ?e channels ! (c * n + i) =
      f_div (f_of_int (quantize L16_FULL_SCALE (frames ! (c * n + i)))) L16_DECODE_DIV"
    unfolding decode_l16_def decode_pcm_nth [OF n assms(2,3)] unfolding encode_l16_def
    by (simp only: encode_pcm_block [OF assms(1-3) length_pack(1)] unpack_pack_l16 [OF q])
  then show ?thesis
    using l16_sample_error [OF x] assms(2) by (simp add: decode_l16_def decode_pcm_length len)
qed

text \<open>
  An L16 payload that is decoded and encoded again is a payload of the same whole frames in
  which every sample differs from the received one by at most one.
\<close>

theorem l16_decode_encode:
  assumes "n = length buf div 2 div unat channels" "c < unat channels" "i < n"
  shows "length (encode_l16 (decode_l16 buf channels) channels) = 2 * (n * unat channels) \<and>
    \<bar>unpack_l16 (take 2 (drop ((i * unat channels + c) * 2) (encode_l16 (decode_l16 buf channels) channels)))
     - unpack_l16 (take 2 (drop ((i * unat channels + c) * 2) buf))\<bar> \<le> 1"
proof -
  let ?ch = "unat channels" and ?d = "decode_l16 buf channels"
  let ?s = "unpack_l16 (take 2 (drop ((i * ?ch + c) * 2) buf))"
  have len: "length ?d = n * ?ch" by (simp add: decode_l16_def decode_pcm_length assms(1))
  have n: "n = length ?d div ?ch" using assms(2) by (simp add: len)
  have s: "\<bar>?s\<bar> \<le> 32768" by (rule unpack_l16_range)
  have d: "?d ! (c * n + i) = f_div (f_of_int ?s) L16_DECODE_DIV"
    unfolding decode_l16_def by (rule decode_pcm_nth [OF assms])
  have q: "\<bar>quantize L16_FULL_SCALE (?d ! (c * n + i))\<bar> \<le> 32767"
    using quantize_spec(2) [OF l16_dequantize(2) [OF s], of 32767 15] by (simp add: d L16_FULL_SCALE_def)
  have "unpack_l16 (take 2 (drop ((i * ?ch + c) * 2) (encode_l16 ?d channels))) = l16_requantize ?s"
    unfolding encode_l16_def encode_pcm_block [OF n assms(2,3) length_pack(1)] unpack_pack_l16 [OF q]
    by (simp add: d l16_requantize_def)
  then show ?thesis
    using l16_requantize_error [OF s] assms(2) by (simp add: encode_l16_def encode_pcm_length len)
qed

theorem l16_encode_decode_witness:
  "1024 * \<bar>f_val (decode_l16 (encode_l16 [f_of_int 1, f_of_int 0, f_of_int (- 1), f_of_int 1] 2) 2 ! (1 * 2 + 0))
     - f_val ([f_of_int 1, f_of_int 0, f_of_int (- 1), f_of_int 1] ! (1 * 2 + 0))\<bar> \<le> 1537 * 2 ^ 134"
proof -
  have "in_range (f_of_int 1)" "in_range (f_of_int 0)" "in_range (f_of_int (- 1))" by code_simp+
  then show ?thesis
    using l16_encode_decode [of 2 "[f_of_int 1, f_of_int 0, f_of_int (- 1), f_of_int 1]" 2 1 0] by auto
qed

theorem l16_decode_encode_witness:
  "\<bar>unpack_l16 (take 2 (drop ((1 * unat (2 :: u16) + 1) * 2)
      (encode_l16 (decode_l16 [0, 1, 2, 3, 4, 5, 0x80, 0, 9] 2) 2)))
    - unpack_l16 (take 2 (drop ((1 * unat (2 :: u16) + 1) * 2) [0, 1, 2, 3, 4, 5, 0x80, 0, 9]))\<bar> \<le> 1"
  by (rule conjunct2 [OF l16_decode_encode [of 2]]) simp_all

end
