(* ===== verification/Jitter.thy ===== *)
theory Jitter
  imports Prelude "HOL-Library.Multiset"
begin

text \<open>
  The receive-side reorder buffer of \<open>net-rtp-aes67/src/jitter.rs\<close>. The hash map of buffered packets
  is an association list with distinct keys, in some iteration order; \<open>skip_gap_perm\<close> shows that the
  order does not matter to the one operation that iterates.
\<close>

section \<open>Operations\<close>

text \<open>The wrapping difference of two sequence numbers read as an \<open>i16\<close>.\<close>

definition forward_distance :: "u16 \<Rightarrow> u16 \<Rightarrow> int" where
  "forward_distance from to = sint (to - from)"

datatype 'a PushOutcome = Accepted | Duplicate | Rejected 'a

record 'a JitterBuffer =
  next_seq :: "u16 option"
  buf :: "(u16 \<times> 'a) list"
  capacity :: nat

definition jb_new :: "nat \<Rightarrow> 'a JitterBuffer" where
  "jb_new cap = \<lparr>next_seq = None, buf = [], capacity = cap\<rparr>"

definition jb_len :: "'a JitterBuffer \<Rightarrow> nat" where
  "jb_len jb = length (buf jb)"

definition jb_is_empty :: "'a JitterBuffer \<Rightarrow> bool" where
  "jb_is_empty jb \<longleftrightarrow> buf jb = []"

definition jb_push :: "'a JitterBuffer \<Rightarrow> u16 \<Rightarrow> 'a \<Rightarrow> 'a PushOutcome \<times> 'a JitterBuffer" where
  "jb_push jb seq payload =
     (let insert_rest = (\<lambda>jb.
        if map_of (buf jb) seq \<noteq> None then (Duplicate, jb)
        else if capacity jb \<le> length (buf jb) then (Rejected payload, jb)
        else (Accepted, jb\<lparr>buf := (seq, payload) # buf jb\<rparr>))
      in case next_seq jb of
           None \<Rightarrow> insert_rest (jb\<lparr>next_seq := Some seq\<rparr>)
         | Some base \<Rightarrow>
             if forward_distance base seq < 0 then (Duplicate, jb) else insert_rest jb)"

definition jb_pop :: "'a JitterBuffer \<Rightarrow> (u16 \<times> 'a) option \<times> 'a JitterBuffer" where
  "jb_pop jb =
     (case next_seq jb of
        None \<Rightarrow> (None, jb)
      | Some nxt \<Rightarrow>
          (case map_of (buf jb) nxt of
             None \<Rightarrow> (None, jb)
           | Some v \<Rightarrow>
               (Some (nxt, v),
                jb\<lparr>buf := filter (\<lambda>p. fst p \<noteq> nxt) (buf jb), next_seq := Some (nxt + 1)\<rparr>)))"

text \<open>The scan of \<open>skip_gap\<close>: the buffered number with the smallest positive distance.\<close>

definition nearer :: "u16 \<Rightarrow> u16 \<Rightarrow> (u16 \<times> int) option \<Rightarrow> (u16 \<times> int) option" where
  "nearer base seq best =
     (let d = forward_distance base seq in
      if d > 0 \<and> (case best of None \<Rightarrow> True | Some (_, bd) \<Rightarrow> d < bd) then Some (seq, d) else best)"

definition jb_skip_gap :: "'a JitterBuffer \<Rightarrow> nat \<times> 'a JitterBuffer" where
  "jb_skip_gap jb =
     (case next_seq jb of
        None \<Rightarrow> (0, jb)
      | Some base \<Rightarrow>
          if map_of (buf jb) base \<noteq> None then (0, jb)
          else
            (case fold (\<lambda>p. nearer base (fst p)) (buf jb) None of
               Some (seq, d) \<Rightarrow> (nat d, jb\<lparr>next_seq := Some seq\<rparr>)
             | None \<Rightarrow> (0, jb)))"

section \<open>Sequence arithmetic\<close>

lemma forward_distance_range: "- 32768 \<le> forward_distance a b" "forward_distance a b < 32768"
  using sint_greater_eq [of "b - a"] sint_less [of "b - a"] by (simp_all add: forward_distance_def)

lemma forward_distance_self [simp]: "forward_distance a a = 0"
  by (simp add: forward_distance_def)

lemma forward_distance_inj: "forward_distance a b = forward_distance a c \<Longrightarrow> b = c"
  unfolding forward_distance_def using signed_word_eqI [of "b - a" "c - a"] by simp

lemma forward_distance_eq_0_iff [simp]: "forward_distance a b = 0 \<longleftrightarrow> b = a"
  using forward_distance_inj [of a b a] by auto

text \<open>Distances from a later base that is still within the half-window shift by the move.\<close>

lemma forward_distance_rebase:
  assumes "0 \<le> forward_distance a b" "forward_distance a b \<le> forward_distance a c"
  shows "forward_distance b c = forward_distance a c - forward_distance a b"
proof -
  let ?d = "forward_distance a c - forward_distance a b"
  have "word_of_int ?d = (c - a) - (b - a)"
    by (simp add: forward_distance_def)
  then have "c - b = word_of_int ?d" by simp
  moreover have "0 \<le> ?d" "?d < 32768" using assms forward_distance_range [of a c] by linarith+
  moreover have "sint (word_of_int ?d :: u16) = ?d"
    using calculation by (intro sint_word_of_int_self) simp_all
  ultimately show ?thesis
    by (simp only: forward_distance_def [of b])
qed

lemma forward_distance_Suc: "forward_distance a (a + 1) = 1"
  by (simp add: forward_distance_def)

section \<open>Invariant\<close>

definition jb_inv :: "'a JitterBuffer \<Rightarrow> bool" where
  "jb_inv jb \<longleftrightarrow>
     distinct (map fst (buf jb)) \<and> length (buf jb) \<le> capacity jb \<and>
     (case next_seq jb of
        None \<Rightarrow> buf jb = []
      | Some base \<Rightarrow> \<forall>s \<in> fst ` set (buf jb). 0 \<le> forward_distance base s)"

lemma jb_inv_new: "jb_inv (jb_new cap)"
  by (simp add: jb_inv_def jb_new_def)

lemma jb_inv_push: "jb_inv jb \<Longrightarrow> jb_inv (snd (jb_push jb s v))"
  by (auto simp: jb_inv_def jb_push_def Let_def map_of_eq_None_iff split: option.splits)

text \<open>What the scan of \<open>skip_gap\<close> finds.\<close>

definition nearest :: "u16 \<Rightarrow> u16 set \<Rightarrow> (u16 \<times> int) option \<Rightarrow> bool" where
  "nearest base S r =
     (case r of
        None \<Rightarrow> \<forall>s \<in> S. forward_distance base s \<le> 0
      | Some (s, d) \<Rightarrow> s \<in> S \<and> d = forward_distance base s \<and> 0 < d \<and>
          (\<forall>t \<in> S. 0 < forward_distance base t \<longrightarrow> d \<le> forward_distance base t))"

lemma nearest_step: "nearest base S r \<Longrightarrow> nearest base (insert s S) (nearer base s r)"
  by (cases r) (force simp: nearest_def nearer_def Let_def split: if_splits)+

lemma nearest_scan: "nearest base S r \<Longrightarrow>
    nearest base (S \<union> fst ` set xs) (fold (\<lambda>p. nearer base (fst p)) xs r)"
proof (induction xs arbitrary: S r)
  case (Cons x xs)
  from Cons.IH [OF nearest_step [OF Cons.prems, of "fst x"]] show ?case by simp
qed simp

lemma nearest_scan_None: "nearest base (fst ` set xs) (fold (\<lambda>p. nearer base (fst p)) xs None)"
  using nearest_scan [of base "{}" None xs] by (simp add: nearest_def)

lemma nearest_unique: "nearest base S r \<Longrightarrow> nearest base S r' \<Longrightarrow> r = r'"
  by (cases r; cases r')
    (force simp: nearest_def intro: forward_distance_inj dest: antisym)+

text \<open>The iteration order of the hash map does not matter.\<close>

lemma skip_gap_perm:
  assumes "mset xs = mset (buf jb)"
  shows "fst (jb_skip_gap (jb\<lparr>buf := xs\<rparr>)) = fst (jb_skip_gap jb)"
    and "next_seq (snd (jb_skip_gap (jb\<lparr>buf := xs\<rparr>))) = next_seq (snd (jb_skip_gap jb))"
proof -
  have set: "set xs = set (buf jb)" using assms by (metis set_mset_mset)
  have m: "map_of xs b = None \<longleftrightarrow> map_of (buf jb) b = None" for b
    by (simp add: map_of_eq_None_iff set)
  have "fold (\<lambda>p. nearer b (fst p)) xs None = fold (\<lambda>p. nearer b (fst p)) (buf jb) None" for b
    using nearest_unique nearest_scan_None [of b xs] nearest_scan_None [of b "buf jb"] by (metis set)
  then show "fst (jb_skip_gap (jb\<lparr>buf := xs\<rparr>)) = fst (jb_skip_gap jb)"
    "next_seq (snd (jb_skip_gap (jb\<lparr>buf := xs\<rparr>))) = next_seq (snd (jb_skip_gap jb))"
    using m by (auto simp: jb_skip_gap_def split: option.splits)
qed

section \<open>Order of emission\<close>

text \<open>The reference: the buffered packets by their distance from the emission baseline.\<close>

definition pending :: "'a JitterBuffer \<Rightarrow> (u16 \<times> 'a) list" where
  "pending jb =
     (case next_seq jb of
        None \<Rightarrow> []
      | Some base \<Rightarrow> sort_key (\<lambda>p. forward_distance base (fst p)) (buf jb))"

lemma mset_remove_key:
  "distinct (map fst xs) \<Longrightarrow> map_of xs k = Some v \<Longrightarrow>
   mset xs = add_mset (k, v) (mset (filter (\<lambda>p. fst p \<noteq> k) xs))"
proof (induction xs)
  case (Cons x xs)
  show ?case
  proof (cases "fst x = k")
    case True
    then have "k \<notin> fst ` set xs" using Cons.prems by auto
    then have "filter (\<lambda>p. fst p \<noteq> k) xs = xs" by (auto simp: filter_id_conv)
    then show ?thesis using True Cons.prems by (cases x) auto
  next
    case False
    then show ?thesis using Cons by (cases x) auto
  qed
qed simp

lemma sorted_map_shift:
  assumes "\<And>q. q \<in> set xs \<Longrightarrow> f q = g q + (c :: int)" "sorted (map g xs)"
  shows "sorted (map f xs)"
  using assms(2) unfolding sorted_map by (rule sorted_wrt_mono_rel [rotated]) (simp add: assms(1))

lemma jb_inv_inj: "distinct (map fst xs) \<Longrightarrow> inj_on (\<lambda>p. forward_distance base (fst p)) (set xs)"
  by (auto simp: inj_on_def distinct_map dest!: forward_distance_inj)

lemma jb_pop_cases:
  assumes "jb_inv jb"
  obtains (none) "jb_pop jb = (None, jb)" "\<forall>b. next_seq jb = Some b \<longrightarrow> map_of (buf jb) b = None"
  | (some) b v where "next_seq jb = Some b" "map_of (buf jb) b = Some v"
      "jb_pop jb = (Some (b, v), jb\<lparr>buf := filter (\<lambda>p. fst p \<noteq> b) (buf jb), next_seq := Some (b + 1)\<rparr>)"
  by (cases "next_seq jb"; cases "map_of (buf jb) (the (next_seq jb))") (auto simp: jb_pop_def)

lemma rebase_Suc:
  "0 \<le> forward_distance b s \<Longrightarrow> s \<noteq> b \<Longrightarrow> forward_distance b s = forward_distance (b + 1) s + 1"
proof -
  assume "0 \<le> forward_distance b s" "s \<noteq> b"
  then have "1 \<le> forward_distance b s" using forward_distance_eq_0_iff [of b s] by linarith
  then show ?thesis using forward_distance_rebase [of b "b + 1" s] by (simp add: forward_distance_Suc)
qed

lemma jb_inv_pop:
  assumes inv: "jb_inv jb"
  shows "jb_inv (snd (jb_pop jb))"
  using inv
proof (cases rule: jb_pop_cases)
  case none
  then show ?thesis using inv by simp
next
  case (some b v)
  have "0 \<le> forward_distance (b + 1) (fst p)" if "p \<in> set (buf jb)" "fst p \<noteq> b" for p
  proof -
    have p: "0 \<le> forward_distance b (fst p)" using that inv some by (auto simp: jb_inv_def)
    moreover have "forward_distance b (fst p) \<noteq> 0" using that by simp
    ultimately show ?thesis using rebase_Suc [OF p that(2)] by linarith
  qed
  moreover have "length (filter (\<lambda>p. fst p \<noteq> b) (buf jb)) \<le> capacity jb"
    using inv length_filter_le le_trans unfolding jb_inv_def by blast
  ultimately show ?thesis
    using inv by (auto simp: jb_inv_def some distinct_map_filter)
qed

lemma pending_pop:
  assumes inv: "jb_inv jb" and pop: "jb_pop jb = (Some x, jb')"
  shows "pending jb = x # pending jb'"
  using inv
proof (cases rule: jb_pop_cases)
  case none
  then show ?thesis using pop by simp
next
  case (some b v)
  let ?ys = "filter (\<lambda>p. fst p \<noteq> b) (buf jb)" and ?f = "\<lambda>c p. forward_distance c (fst p)"
  have x: "x = (b, v)" and jb': "jb' = jb\<lparr>buf := ?ys, next_seq := Some (b + 1)\<rparr>" using pop some by auto
  have dist: "distinct (map fst (buf jb))" using inv by (simp add: jb_inv_def)
  have p: "pending jb' = sort_key (?f (b + 1)) ?ys" by (simp add: pending_def jb')
  have shift: "?f b q = ?f (b + 1) q + 1" if "q \<in> set ?ys" for q
    using that inv some by (intro rebase_Suc) (auto simp: jb_inv_def)
  have "sorted (map (?f b) (pending jb'))"
    by (rule sorted_map_shift [where g = "?f (b + 1)" and c = 1]) (simp_all add: p shift)
  moreover have "0 \<le> ?f b q" if "q \<in> set ?ys" for q using that inv some by (auto simp: jb_inv_def)
  ultimately have "sorted (map (?f b) (x # pending jb'))" by (auto simp: x p)
  moreover have "mset (buf jb) = mset (x # pending jb')"
    using mset_remove_key [OF dist some(2)] by (simp add: x p)
  ultimately have "sort_key (?f b) (buf jb) = x # pending jb'"
    using jb_inv_inj [OF dist] by (intro sort_key_inj_key_eq) auto
  then show ?thesis by (simp add: pending_def some)
qed

lemma jb_skip_gap_cases:
  assumes "jb_inv jb"
  obtains (stay) "jb_skip_gap jb = (0, jb)"
      "buf jb \<noteq> [] \<longrightarrow> (\<exists>b. next_seq jb = Some b \<and> map_of (buf jb) b \<noteq> None)"
  | (skip) b s where "next_seq jb = Some b" "map_of (buf jb) b = None" "s \<in> fst ` set (buf jb)"
      "0 < forward_distance b s" "\<forall>t \<in> fst ` set (buf jb). forward_distance b s \<le> forward_distance b t"
      "jb_skip_gap jb = (nat (forward_distance b s), jb\<lparr>next_seq := Some s\<rparr>)"
proof (cases "next_seq jb")
  case None
  then show thesis using assms stay by (simp add: jb_skip_gap_def jb_inv_def)
next
  case (Some b)
  show thesis
  proof (cases "map_of (buf jb) b")
    case None
    then have pos: "0 < forward_distance b t" if "t \<in> fst ` set (buf jb)" for t
      using that assms Some forward_distance_eq_0_iff [of b t]
      by (force simp: jb_inv_def map_of_eq_None_iff less_le)
    note near = nearest_scan_None [of b "buf jb"]
    show thesis
    proof (cases "fold (\<lambda>p. nearer b (fst p)) (buf jb) None")
      case None': None
      then have "buf jb = []" using near pos by (cases "buf jb") (force simp: nearest_def)+
      then show thesis using stay Some by (simp add: jb_skip_gap_def)
    next
      case Some': (Some sd)
      then show thesis
        using near pos skip [of b "fst sd"] Some None
        by (cases sd) (auto simp: nearest_def jb_skip_gap_def)
    qed
  next
    case Some': (Some v)
    then show thesis using stay Some by (simp add: jb_skip_gap_def)
  qed
qed

lemma jb_inv_skip_gap:
  assumes inv: "jb_inv jb"
  shows "jb_inv (snd (jb_skip_gap jb))"
  using inv
proof (cases rule: jb_skip_gap_cases)
  case (skip b s)
  then have "0 \<le> forward_distance s t" if "t \<in> fst ` set (buf jb)" for t
    using that forward_distance_rebase [of b s t] by fastforce
  then show ?thesis using inv skip by (auto simp: jb_inv_def)
qed (use inv in simp)

lemma pending_skip_gap:
  assumes inv: "jb_inv jb"
  shows "pending (snd (jb_skip_gap jb)) = pending jb"
  using inv
proof (cases rule: jb_skip_gap_cases)
  case (skip b s)
  let ?f = "\<lambda>c p. forward_distance c (fst p)"
  have shift: "?f s q = ?f b q + - forward_distance b s" if "q \<in> set (buf jb)" for q
    using that skip forward_distance_rebase [of b s "fst q"] by fastforce
  have "sort_key (?f s) (buf jb) = sort_key (?f b) (buf jb)"
  proof (rule sort_key_inj_key_eq)
    show "inj_on (?f s) (set (buf jb))" using inv by (intro jb_inv_inj) (simp add: jb_inv_def)
    show "sorted (map (?f s) (sort_key (?f b) (buf jb)))"
      by (rule sorted_map_shift [where g = "?f b"]) (use shift in auto)
  qed simp
  then show ?thesis by (simp add: pending_def skip)
qed simp

lemma jb_pop_shrinks: "jb_pop jb = (Some x, jb') \<Longrightarrow> length (buf jb') < length (buf jb)"
  by (auto simp: jb_pop_def split: option.splits intro!: length_filter_less dest: map_of_SomeD)

lemma jb_skip_gap_buf: "buf (snd (jb_skip_gap jb)) = buf jb"
  by (auto simp: jb_skip_gap_def split: option.splits)

lemma jb_skip_gap_capacity: "capacity (snd (jb_skip_gap jb)) = capacity jb"
  by (auto simp: jb_skip_gap_def split: option.splits)

text \<open>A skip that moves lands on a buffered number, so the next pop succeeds.\<close>

lemma jb_skip_gap_lands:
  assumes "jb_skip_gap jb = (n, jb')" "n \<noteq> 0"
  obtains s v where "next_seq jb' = Some s" "map_of (buf jb') s = Some v"
proof -
  obtain b where b: "next_seq jb = Some b" using assms by (auto simp: jb_skip_gap_def split: option.splits)
  with assms obtain s d where f: "fold (\<lambda>p. nearer b (fst p)) (buf jb) None = Some (s, d)"
    and jb': "jb' = jb\<lparr>next_seq := Some s\<rparr>"
    by (auto simp: jb_skip_gap_def split: option.splits if_splits)
  have "s \<in> fst ` set (buf jb)" using nearest_scan_None [of b "buf jb"] by (simp add: f nearest_def)
  then have "map_of (buf jb') s \<noteq> None" by (simp add: jb' map_of_eq_None_iff)
  then show thesis using that [of s] by (auto simp: jb')
qed

section \<open>Runs\<close>

text \<open>The buffers a sequence of calls can produce.\<close>

inductive jb_reachable :: "nat \<Rightarrow> 'a JitterBuffer \<Rightarrow> bool" for cap where
  start: "jb_reachable cap (jb_new cap)"
| push: "jb_reachable cap jb \<Longrightarrow> jb_reachable cap (snd (jb_push jb s v))"
| pop: "jb_reachable cap jb \<Longrightarrow> jb_reachable cap (snd (jb_pop jb))"
| skip: "jb_reachable cap jb \<Longrightarrow> jb_reachable cap (snd (jb_skip_gap jb))"

lemma jb_capacity_const:
  "capacity (snd (jb_push jb s v)) = capacity jb" "capacity (snd (jb_pop jb)) = capacity jb"
  by (auto simp: jb_push_def jb_pop_def Let_def split: option.splits)

lemma jb_reachable_inv: "jb_reachable cap jb \<Longrightarrow> jb_inv jb \<and> capacity jb = cap"
proof (induction rule: jb_reachable.induct)
  case start
  show ?case by (simp add: jb_inv_new) (simp add: jb_new_def)
next
  case (push jb s v)
  then show ?case by (simp add: jb_inv_push jb_capacity_const)
next
  case (pop jb)
  then show ?case by (simp add: jb_inv_pop jb_capacity_const)
next
  case (skip jb)
  then show ?case by (simp add: jb_inv_skip_gap jb_skip_gap_capacity)
qed

text \<open>
  C10: In every state a sequence of pushes, pops and skips can reach, the buffer holds at most
  \<open>capacity\<close> packets with distinct sequence numbers, none of them behind the next number to emit in
  the signed half-window order, and nothing at all before the first push.
\<close>

theorem jb_reachable_safe:
  assumes "jb_reachable cap jb"
  shows "length (buf jb) \<le> cap \<and> distinct (map fst (buf jb)) \<and> (next_seq jb = None \<longrightarrow> buf jb = []) \<and>
    (\<forall>b s v. next_seq jb = Some b \<and> (s, v) \<in> set (buf jb) \<longrightarrow> 0 \<le> forward_distance b s)"
  using jb_reachable_inv [OF assms] by (force simp: jb_inv_def split: option.splits)

definition jb_demo :: "nat JitterBuffer" where
  "jb_demo = snd (jb_push (snd (jb_push (snd (jb_push (jb_new 2) 65535 10)) 1 20)) 0 30)"

theorem jb_reachable_safe_witness:
  "length (buf jb_demo) \<le> 2 \<and> distinct (map fst (buf jb_demo)) \<and> 0 \<le> forward_distance 65535 1"
proof -
  have "jb_reachable 2 jb_demo" by (simp add: jb_demo_def jb_reachable.intros)
  from jb_reachable_safe [OF this] show ?thesis
    by (auto simp: jb_demo_def jb_push_def jb_new_def forward_distance_def)
qed

end
