(* ===== verification/Rtp_Transport.thy ===== *)
theory Rtp_Transport
  imports Rtp_Codec
begin

text \<open>
  The RTP transports of \<open>net-rtp-aes67\<close>: the send clock that every implementation of the trait
  \<open>NetworkAudioTransport\<close> keeps (a locale, the interface), the stub of \<open>lib.rs\<close> and the UDP
  transport of \<open>transport.rs\<close>. The socket is a parameter: a type \<open>'k\<close> of socket states with the
  functions for \<open>send\<close> and \<open>recv\<close>, whose errors are the text of the I/O error.
\<close>

section \<open>The send clock\<close>

text \<open>Sending a list of payloads one after the other, as a send worker does, errors ignored.\<close>

primrec send_all ::
  "('t \<Rightarrow> bytes \<Rightarrow> Codec \<Rightarrow> (TransportError + unit) \<times> 't) \<Rightarrow> Codec \<Rightarrow> bytes list \<Rightarrow> 't \<Rightarrow> 't" where
  "send_all send codec [] t = t"
| "send_all send codec (p # ps) t = send_all send codec ps (snd (send t p codec))"

locale rtp_sender =
  fixes send :: "'t \<Rightarrow> bytes \<Rightarrow> Codec \<Rightarrow> (TransportError + unit) \<times> 't"
    and seq_of :: "'t \<Rightarrow> u16"
    and ts_of :: "'t \<Rightarrow> u32"
    and channels_of :: "'t \<Rightarrow> u16"
  assumes send_seq: "seq_of (snd (send t p c)) = seq_of t + 1"
    and send_ts: "ts_of (snd (send t p c)) = ts_of t + timestamp_advance (length p) c (channels_of t)"
    and send_channels: "channels_of (snd (send t p c)) = channels_of t"
begin

lemma send_all_channels: "channels_of (send_all send c ps t) = channels_of t"
  by (induction ps arbitrary: t) (simp_all add: send_channels)

lemma send_all_seq: "seq_of (send_all send c ps t) = seq_of t + of_nat (length ps)"
  by (induction ps arbitrary: t) (simp_all add: send_seq)

lemma send_all_ts:
  "ts_of (send_all send c ps t) =
     ts_of t + (\<Sum>p\<leftarrow>ps. timestamp_advance (length p) c (channels_of t))"
  by (induction ps arbitrary: t) (simp_all add: send_ts send_channels)

text \<open>The sequence number returns after exactly 65536 packets.\<close>

lemma send_all_wraps: "length ps = 65536 \<Longrightarrow> seq_of (send_all send c ps t) = seq_of t"
  by (simp add: send_all_seq)

end

section \<open>Stub\<close>

definition stub_send_rtp :: "unit \<Rightarrow> bytes \<Rightarrow> Codec \<Rightarrow> (TransportError + unit) \<times> unit" where
  "stub_send_rtp t data codec = (Err (Unimplemented ''P1 module''), t)"

definition stub_recv_rtp :: "unit \<Rightarrow> (TransportError + bytes) \<times> unit" where
  "stub_recv_rtp t = (Err (Unimplemented ''P1 module''), t)"

section \<open>UDP\<close>

record 'k UdpTransport =
  udp_sock :: 'k
  udp_seq :: u16
  udp_timestamp :: u32
  udp_ssrc :: u32
  udp_channels :: u16

text \<open>\<open>bound\<close> is the result of binding the socket, \<open>timeout_set\<close> that of setting its read timeout.\<close>

definition udp_bind :: "string + 'k \<Rightarrow> string + unit \<Rightarrow> u32 \<Rightarrow> TransportError + 'k UdpTransport" where
  "udp_bind bound timeout_set system_ssrc =
     rbind (map_err Network bound) (\<lambda>sock.
       rbind (map_err Network timeout_set) (\<lambda>_.
         Ok \<lparr>udp_sock = sock, udp_seq = 0, udp_timestamp = 0, udp_ssrc = system_ssrc, udp_channels = 2\<rparr>))"

definition udp_with_channels :: "'k UdpTransport \<Rightarrow> u16 \<Rightarrow> 'k UdpTransport" where
  "udp_with_channels t channels = t\<lparr>udp_channels := channels\<rparr>"

text \<open>The packet the transport would send for a payload, and its clock afterwards.\<close>

definition udp_packet :: "'k UdpTransport \<Rightarrow> bytes \<Rightarrow> Codec \<Rightarrow> RtpPacket" where
  "udp_packet t data codec =
     \<lparr>header = RtpHeader_new (codec_to_payload_type codec (udp_channels t)) (udp_seq t) (udp_timestamp t)
        (udp_ssrc t),
      payload = data\<rparr>"

definition udp_send_rtp ::
  "('k \<Rightarrow> bytes \<Rightarrow> (string + nat) \<times> 'k) \<Rightarrow> 'k UdpTransport \<Rightarrow> bytes \<Rightarrow> Codec
   \<Rightarrow> (TransportError + unit) \<times> 'k UdpTransport" where
  "udp_send_rtp sock_send t data codec =
     (let packet = udp_packet t data codec;
          t = t\<lparr>udp_seq := udp_seq t + 1,
                udp_timestamp := udp_timestamp t + timestamp_advance (length data) codec (udp_channels t)\<rparr>;
          (r, sock) = sock_send (udp_sock t) (RtpPacket_encode packet)
      in (rbind (map_err Network r) (\<lambda>_. Ok ()), t\<lparr>udp_sock := sock\<rparr>))"

definition udp_recv_rtp_with_seq ::
  "('k \<Rightarrow> (string + bytes) \<times> 'k) \<Rightarrow> 'k UdpTransport \<Rightarrow> (TransportError + u16 \<times> bytes) \<times> 'k UdpTransport" where
  "udp_recv_rtp_with_seq sock_recv t =
     (let (r, sock) = sock_recv (udp_sock t) in
      (rbind (map_err Network r) (\<lambda>datagram.
         rbind (RtpPacket_parse datagram) (\<lambda>packet.
           Ok (seq (header packet), payload packet))),
       t\<lparr>udp_sock := sock\<rparr>))"

definition udp_recv_rtp ::
  "('k \<Rightarrow> (string + bytes) \<times> 'k) \<Rightarrow> 'k UdpTransport \<Rightarrow> (TransportError + bytes) \<times> 'k UdpTransport" where
  "udp_recv_rtp sock_recv t =
     (let (r, sock) = sock_recv (udp_sock t) in
      (rbind (map_err Network r) (\<lambda>datagram.
         rbind (RtpPacket_parse datagram) (\<lambda>packet. Ok (payload packet))),
       t\<lparr>udp_sock := sock\<rparr>))"

interpretation udp: rtp_sender "udp_send_rtp sock_send" udp_seq udp_timestamp udp_channels
  for sock_send :: "'k \<Rightarrow> bytes \<Rightarrow> (string + nat) \<times> 'k"
  by unfold_locales (simp_all add: udp_send_rtp_def Let_def case_prod_unfold)

text \<open>
  Over any sequence of sends, successful or not, the UDP transport's sequence number goes up by
  one per packet modulo 65536 and its timestamp by the frames of each payload modulo \<open>2 ^ 32\<close>.
\<close>

theorem udp_clock:
  "udp_seq (send_all (udp_send_rtp sock_send) codec ps t) = udp_seq t + of_nat (length ps) \<and>
   udp_timestamp (send_all (udp_send_rtp sock_send) codec ps t) =
     udp_timestamp t + (\<Sum>p\<leftarrow>ps. timestamp_advance (length p) codec (udp_channels t))"
  by (simp add: udp.send_all_seq udp.send_all_ts)

lemma RtpHeader_new_wf: "header_wf (RtpHeader_new pt sq ts sc)" "csrc_count (RtpHeader_new pt sq ts sc) = 0"
  by (simp_all add: RtpHeader_new_def header_wf_def word_less_nat_alt unat_and_mask)

lemma parse_encode_new:
  "RtpPacket_parse (RtpPacket_encode \<lparr>header = RtpHeader_new pt sq ts sc, payload = data\<rparr>) =
   Ok \<lparr>header = RtpHeader_new pt sq ts sc, payload = data\<rparr>"
  using RtpHeader_new_wf [of pt sq ts sc]
  by (simp add: RtpPacket_parse_def RtpPacket_encode_def RtpHeader_parse_encode header_wf_def and_mask_less
      encoded_len_def RTP_HEADER_LEN_def)

text \<open>
  What one UDP transport sends, another receives: when the receiving socket returns the datagram
  the sending socket was given, the receiver returns the sender's sequence number and payload.
\<close>

theorem udp_loopback:
  assumes "\<And>k d. fst (sock_send k d) = Ok (length d) \<and> sock_recv (snd (sock_send k d)) = (Ok d, k')"
  shows "udp_recv_rtp_with_seq sock_recv (rx\<lparr>udp_sock := udp_sock (snd (udp_send_rtp sock_send t data codec))\<rparr>) =
    (Ok (udp_seq t, data), rx\<lparr>udp_sock := k'\<rparr>)"
proof -
  have d: "sock_recv (snd (sock_send k d)) = (Ok d, k')" for k d using assms by blast
  show ?thesis
    by (simp add: udp_recv_rtp_with_seq_def udp_send_rtp_def udp_packet_def Let_def case_prod_unfold d
        parse_encode_new) (simp add: RtpHeader_new_def)
qed

text \<open>The witness's socket is a queue of datagrams.\<close>

definition queue_send :: "bytes list \<Rightarrow> bytes \<Rightarrow> (string + nat) \<times> bytes list" where
  "queue_send k d = (Ok (length d), [d])"

definition queue_recv :: "bytes list \<Rightarrow> (string + bytes) \<times> bytes list" where
  "queue_recv k = (case k of [] \<Rightarrow> (Err ''timed out'', []) | d # ds \<Rightarrow> (Ok d, ds))"

definition demo_udp :: "bytes list UdpTransport" where
  "demo_udp = \<lparr>udp_sock = [], udp_seq = 65535, udp_timestamp = 9, udp_ssrc = 3, udp_channels = 2\<rparr>"

theorem udp_loopback_witness:
  "udp_recv_rtp_with_seq queue_recv
     (demo_udp\<lparr>udp_sock := udp_sock (snd (udp_send_rtp queue_send demo_udp [1, 2, 3, 4] PcmL16))\<rparr>) =
   (Ok (udp_seq demo_udp, [1, 2, 3, 4]), demo_udp\<lparr>udp_sock := []\<rparr>)"
  by (rule udp_loopback) (simp add: queue_send_def queue_recv_def)

end
