(* ===== verification/Rtp_Worker.thy ===== *)
theory Rtp_Worker
  imports Pcm_Framing Jitter Rtp_Transport
begin

text \<open>
  The socket loops of \<open>net-rtp-aes67/src/worker.rs\<close>: draining the reorder buffer into audio frames,
  and one cycle of the receive and of the send loop. The audio frame and the ring buffers are other
  crates' types: the frame constructor \<open>from_planar\<close>, the ring's \<open>push\<close> (None when the ring is full),
  \<open>pop\<close> and \<open>is_abandoned\<close> are parameters.
\<close>

section \<open>Draining\<close>

text \<open>The inner loop: pop until the next number is missing.\<close>

function drain_run :: "('a \<Rightarrow> 'f) \<Rightarrow> 'a JitterBuffer \<Rightarrow> 'f list \<times> 'a JitterBuffer" where
  "drain_run f jb =
     (case jb_pop jb of
        (None, jb') \<Rightarrow> ([], jb')
      | (Some (_, v), jb') \<Rightarrow> (let (fs, jb'') = drain_run f jb' in (f v # fs, jb'')))"
  by auto
termination
  by (relation "measure (\<lambda>(f, jb). length (buf jb))") (auto dest: jb_pop_shrinks [OF sym])

declare drain_run.simps [simp del]

lemma jb_pop_None_id: "jb_pop jb = (None, jb') \<Longrightarrow> jb' = jb"
  by (auto simp: jb_pop_def split: option.splits)

lemma drain_run_None: "fst (jb_pop jb) = None \<Longrightarrow> drain_run f jb = ([], jb)"
  by (cases "jb_pop jb") (subst drain_run.simps, auto dest: jb_pop_None_id)

lemma drain_run_Some:
  "jb_pop jb = (Some x, jb') \<Longrightarrow> drain_run f jb = (f (snd x) # fst (drain_run f jb'), snd (drain_run f jb'))"
  by (subst drain_run.simps) (cases x, simp add: case_prod_unfold Let_def)

text \<open>Induction over the pops of a run.\<close>

lemma pop_induct [case_names stop pop]:
  assumes "\<And>jb. fst (jb_pop jb) = None \<Longrightarrow> P jb"
    and "\<And>jb x jb'. jb_pop jb = (Some x, jb') \<Longrightarrow> length (buf jb') < length (buf jb) \<Longrightarrow> P jb' \<Longrightarrow> P jb"
  shows "P jb"
proof (induction "length (buf jb)" arbitrary: jb rule: less_induct)
  case less
  show ?case
  proof (cases "jb_pop jb")
    case (Pair r jb')
    then show ?thesis using assms less jb_pop_shrinks by (cases r) fastforce+
  qed
qed

lemma drain_run_shrinks: "length (buf (snd (drain_run f jb))) \<le> length (buf jb)"
  by (induction jb rule: pop_induct) (auto simp: drain_run_None drain_run_Some)

lemma drain_run_pops:
  assumes "next_seq jb = Some s" "map_of (buf jb) s = Some v"
  shows "length (buf (snd (drain_run f jb))) < length (buf jb)"
proof -
  obtain x jb' where pop: "jb_pop jb = (Some x, jb')" using assms by (auto simp: jb_pop_def)
  then have "length (buf jb') < length (buf jb)" by (rule jb_pop_shrinks)
  then show ?thesis using drain_run_shrinks [of f jb'] by (simp add: drain_run_Some [OF pop])
qed

text \<open>
  The outer loop: after each run, stop when the buffer is empty or when \<open>skip_gap\<close> did not move.
  It terminates because a skip that moves makes the following run pop.
\<close>

definition at_gap :: "'a JitterBuffer \<Rightarrow> nat" where
  "at_gap jb = (case next_seq jb of None \<Rightarrow> 1 | Some s \<Rightarrow> if map_of (buf jb) s = None then 1 else 0)"

function drain_loop :: "('a \<Rightarrow> 'f) \<Rightarrow> 'a JitterBuffer \<Rightarrow> 'f list \<times> 'a JitterBuffer" where
  "drain_loop f jb =
     (let (fs, jb1) = drain_run f jb in
      if jb_is_empty jb1 then (fs, jb1)
      else
        let (n, jb2) = jb_skip_gap jb1 in
        if n = 0 then (fs, jb2)
        else let (gs, jb3) = drain_loop f jb2 in (fs @ gs, jb3))"
  by auto
termination
proof (relation "measures [\<lambda>(f, jb). length (buf jb), \<lambda>(f, jb). at_gap jb]", goal_cases)
  case (2 f jb p fs jb1 q n jb2)
  then have "drain_run f jb = (fs, jb1)" and skip: "jb_skip_gap jb1 = (n, jb2)" "n \<noteq> 0" by simp_all
  then have run: "jb1 = snd (drain_run f jb)" by simp
  obtain s v where lands: "next_seq jb2 = Some s" "map_of (buf jb2) s = Some v"
    using skip by (rule jb_skip_gap_lands)
  have buf: "buf jb2 = buf jb1" using jb_skip_gap_buf [of jb1] skip by simp
  show ?case
  proof (cases "at_gap jb = 0")
    case True
    then obtain s v where "next_seq jb = Some s" "map_of (buf jb) s = Some v"
      by (auto simp: at_gap_def split: option.splits if_splits)
    then have "length (buf jb1) < length (buf jb)" unfolding run by (rule drain_run_pops)
    then show ?thesis using buf by simp
  next
    case False
    moreover have "at_gap jb2 = 0" using lands by (simp add: at_gap_def)
    moreover have "length (buf jb2) \<le> length (buf jb)" using drain_run_shrinks [of f jb] buf run by simp
    ultimately show ?thesis by auto
  qed
qed simp

declare drain_loop.simps [simp del]

definition drain_jitter ::
  "(u16 \<Rightarrow> u32 \<Rightarrow> f32 list \<Rightarrow> 'f) \<Rightarrow> bytes JitterBuffer \<Rightarrow> u16 \<Rightarrow> u32 \<Rightarrow> 'f list \<times> bytes JitterBuffer" where
  "drain_jitter from_planar jitter channels sample_rate =
     drain_loop (\<lambda>data. from_planar channels sample_rate (decode_l16 data channels)) jitter"

text \<open>What the two loops do to a buffer that keeps the invariant.\<close>

lemma drain_run_spec:
  assumes "jb_inv jb"
  shows "jb_inv (snd (drain_run f jb)) \<and>
    map (f \<circ> snd) (pending jb) = fst (drain_run f jb) @ map (f \<circ> snd) (pending (snd (drain_run f jb))) \<and>
    fst (jb_pop (snd (drain_run f jb))) = None"
  using assms
proof (induction jb rule: pop_induct)
  case (stop jb)
  then show ?case by (simp add: drain_run_None)
next
  case (pop jb x jb')
  have "jb_inv jb'" using jb_inv_pop [OF pop.prems] pop.hyps by simp
  moreover have "pending jb = x # pending jb'" by (rule pending_pop) (use pop in auto)
  ultimately show ?case using pop.IH by (simp add: drain_run_Some [OF pop.hyps(1)])
qed

lemma length_pending: "jb_inv jb \<Longrightarrow> length (pending jb) = length (buf jb)"
  by (auto simp: pending_def jb_inv_def split: option.splits)

lemma pending_Nil_iff: "jb_inv jb \<Longrightarrow> pending jb = [] \<longleftrightarrow> buf jb = []"
  using length_pending [of jb] by (metis length_0_conv)

lemma skip_gap_moves:
  assumes "jb_inv jb" "fst (jb_pop jb) = None" "buf jb \<noteq> []"
  shows "fst (jb_skip_gap jb) \<noteq> 0"
  using assms(1)
proof (cases rule: jb_skip_gap_cases)
  case stay
  then show ?thesis using assms by (auto simp: jb_pop_def)
qed simp

lemma drain_loop_spec:
  assumes "jb_inv jb"
  shows "fst (drain_loop f jb) = map (f \<circ> snd) (pending jb) \<and> buf (snd (drain_loop f jb)) = [] \<and>
    jb_inv (snd (drain_loop f jb))"
  using assms
proof (induction f jb rule: drain_loop.induct)
  case (1 f jb)
  obtain fs jb1 where run: "drain_run f jb = (fs, jb1)" by fastforce
  obtain n jb2 where skip: "jb_skip_gap jb1 = (n, jb2)" by fastforce
  note spec = drain_run_spec [OF "1.prems", of f, unfolded run, simplified]
  show ?case
  proof (cases "buf jb1 = []")
    case True
    then show ?thesis using spec pending_Nil_iff [of jb1]
      by (subst (1 2 3) drain_loop.simps) (simp add: run jb_is_empty_def)
  next
    case False
    then have n: "n \<noteq> 0" using skip_gap_moves [of jb1] spec skip by simp
    have jb2: "jb_inv jb2" "pending jb2 = pending jb1"
      using jb_inv_skip_gap [of jb1] pending_skip_gap [of jb1] spec skip by simp_all
    have "drain_loop f jb = (fs @ fst (drain_loop f jb2), snd (drain_loop f jb2))"
      using False n by (subst drain_loop.simps) (simp add: run skip jb_is_empty_def case_prod_unfold Let_def)
    then show ?thesis
      using 1(1) [OF run [symmetric] refl _ skip [symmetric] refl n] False jb2 spec
      by (simp add: jb_is_empty_def comp_def)
  qed
qed

text \<open>
  C1: Draining a buffer that keeps its invariant terminates with an empty buffer and yields exactly
  one frame per buffered packet, in ascending wrap-aware sequence order from the next number to emit
  (the reference is a sort by forward distance).
\<close>

theorem drain_jitter_sorts:
  assumes "jb_inv jitter" "next_seq jitter = Some base"
  shows "fst (drain_jitter from_planar jitter channels sample_rate) =
      map (\<lambda>p. from_planar channels sample_rate (decode_l16 (snd p) channels))
        (sort_key (\<lambda>p. forward_distance base (fst p)) (buf jitter)) \<and>
    buf (snd (drain_jitter from_planar jitter channels sample_rate)) = []"
  using drain_loop_spec [OF assms(1), of "\<lambda>data. from_planar channels sample_rate (decode_l16 data channels)"]
    assms(2)
  by (simp add: drain_jitter_def pending_def comp_def)

definition demo_jitter :: "bytes JitterBuffer" where
  "demo_jitter =
     \<lparr>next_seq = Some 65535, buf = [(1, [0, 1]), (65535, [0, 2]), (7, [0, 3])], capacity = 64\<rparr>"

theorem drain_jitter_sorts_witness:
  "fst (drain_jitter (\<lambda>c r xs. (c, r, xs)) demo_jitter 1 48000) =
      map (\<lambda>p. (1, 48000, decode_l16 (snd p) 1))
        (sort_key (\<lambda>p. forward_distance 65535 (fst p)) (buf demo_jitter)) \<and>
    buf (snd (drain_jitter (\<lambda>c r xs. (c, r, xs)) demo_jitter 1 48000)) = []"
  by (rule drain_jitter_sorts) (simp_all add: demo_jitter_def jb_inv_def forward_distance_def)

section \<open>The receive loop\<close>

record ('k, 'r) recv_loop =
  rx_transport :: "'k UdpTransport"
  rx_inbound :: 'r
  rx_jitter :: "bytes JitterBuffer"

text \<open>Pushing the drained frames: the first one the ring refuses ends the loop.\<close>

primrec push_frames :: "('r \<Rightarrow> 'f \<Rightarrow> 'r option) \<Rightarrow> 'f list \<Rightarrow> 'r \<Rightarrow> 'r" where
  "push_frames push [] ring = ring"
| "push_frames push (f # fs) ring =
     (case push ring f of Some ring' \<Rightarrow> push_frames push fs ring' | None \<Rightarrow> ring)"

text \<open>One cycle of the receive loop; \<open>None\<close> when the loop exits.\<close>

definition recv_cycle ::
  "('k \<Rightarrow> (string + bytes) \<times> 'k) \<Rightarrow> ('r \<Rightarrow> bool) \<Rightarrow> ('r \<Rightarrow> 'f \<Rightarrow> 'r option)
   \<Rightarrow> (u16 \<Rightarrow> u32 \<Rightarrow> f32 list \<Rightarrow> 'f) \<Rightarrow> u16 \<Rightarrow> u32 \<Rightarrow> ('k, 'r) recv_loop \<Rightarrow> ('k, 'r) recv_loop option" where
  "recv_cycle sock_recv is_abandoned push from_planar channels sample_rate st =
     (if is_abandoned (rx_inbound st) then None
      else
        let (r, transport) = udp_recv_rtp_with_seq sock_recv (rx_transport st);
            st = st\<lparr>rx_transport := transport\<rparr>
        in case r of
             Inr (sq, data) \<Rightarrow>
               let jitter = snd (jb_push (rx_jitter st) sq data);
                   (frames, jitter) = drain_jitter from_planar jitter channels sample_rate
               in Some (st\<lparr>rx_jitter := jitter, rx_inbound := push_frames push frames (rx_inbound st)\<rparr>)
           | Inl _ \<Rightarrow> Some st)"

definition recv_start :: "'k UdpTransport \<Rightarrow> 'r \<Rightarrow> ('k, 'r) recv_loop" where
  "recv_start transport inbound =
     \<lparr>rx_transport = transport, rx_inbound = inbound, rx_jitter = jb_new 64\<rparr>"

text \<open>The states of the loop: from its start, by its cycles.\<close>

inductive recv_reachable for sock_recv is_abandoned push from_planar channels sample_rate where
  start: "recv_reachable sock_recv is_abandoned push from_planar channels sample_rate (recv_start t r)"
| cycle: "recv_reachable sock_recv is_abandoned push from_planar channels sample_rate st \<Longrightarrow>
    recv_cycle sock_recv is_abandoned push from_planar channels sample_rate st = Some st' \<Longrightarrow>
    recv_reachable sock_recv is_abandoned push from_planar channels sample_rate st'"

definition recv_inv :: "('k, 'r) recv_loop \<Rightarrow> bool" where
  "recv_inv st \<longleftrightarrow> jb_inv (rx_jitter st) \<and> buf (rx_jitter st) = [] \<and> capacity (rx_jitter st) = 64"

lemma drain_loop_capacity: "capacity (snd (drain_loop f jb)) = capacity jb"
proof (induction f jb rule: drain_loop.induct)
  case (1 f jb)
  have run: "capacity (snd (drain_run f jb)) = capacity jb" for jb
    by (induction jb rule: pop_induct)
      (auto simp: drain_run_None drain_run_Some dest!: arg_cong [where f = "\<lambda>p. capacity (snd p)"] simp: jb_capacity_const)
  obtain fs jb1 where r: "drain_run f jb = (fs, jb1)" by fastforce
  obtain n jb2 where s: "jb_skip_gap jb1 = (n, jb2)" by fastforce
  have "capacity jb1 = capacity jb" "capacity jb2 = capacity jb1"
    using run [of jb] r jb_skip_gap_capacity [of jb1] s by simp_all
  then show ?case using 1 [OF r [symmetric] refl _ s [symmetric] refl]
    by (subst drain_loop.simps) (auto simp: r s case_prod_unfold Let_def)
qed

lemma recv_inv_start: "recv_inv (recv_start t r)"
  using jb_inv_new [of 64] by (simp add: recv_inv_def recv_start_def) (simp add: jb_new_def)

lemma recv_inv_cycle:
  assumes "recv_inv st" "recv_cycle sock_recv is_abandoned push from_planar channels sample_rate st = Some st'"
  shows "recv_inv st'"
proof -
  have jb: "jb_inv (snd (jb_push (rx_jitter st) s d))" for s d
    using assms by (simp add: recv_inv_def jb_inv_push)
  show ?thesis
    using assms
    by (auto simp: recv_cycle_def recv_inv_def drain_jitter_def case_prod_unfold Let_def jb_capacity_const
        drain_loop_spec [OF jb] drain_loop_capacity split: if_splits sum.splits)
qed

text \<open>
  C11: Between two cycles of the receive loop the reorder buffer is always empty: each received packet
  is drained at once, so no packet ever waits for an earlier one, and frames that a full ring refuses
  are gone.
\<close>

theorem recv_loop_buffer_empty:
  assumes "recv_reachable sock_recv is_abandoned push from_planar channels sample_rate st"
  shows "buf (rx_jitter st) = [] \<and> jb_inv (rx_jitter st)"
proof -
  have "recv_inv st" using assms by induction (auto intro: recv_inv_start recv_inv_cycle)
  then show ?thesis by (simp add: recv_inv_def)
qed

definition demo_recv :: "nat \<Rightarrow> (string + bytes) \<times> nat" where
  "demo_recv k =
     (Ok (RtpPacket_encode \<lparr>header = RtpHeader_new 11 (of_nat k) 0 7, payload = [0, 1]\<rparr>), k + 2)"

definition demo_rx :: "(nat, f32 list list) recv_loop" where
  "demo_rx =
     the (recv_cycle demo_recv (\<lambda>_. False) (\<lambda>r f. Some (r @ [f])) (\<lambda>_ _ xs. xs) 1 48000
       (recv_start \<lparr>udp_sock = 5, udp_seq = 0, udp_timestamp = 0, udp_ssrc = 1, udp_channels = 1\<rparr> []))"

lemma recv_cycle_continues:
  "\<not> is_abandoned (rx_inbound st) \<Longrightarrow>
   recv_cycle sock_recv is_abandoned push from_planar channels sample_rate st \<noteq> None"
  by (simp add: recv_cycle_def case_prod_unfold Let_def split: sum.splits)

theorem recv_loop_buffer_empty_witness: "buf (rx_jitter demo_rx) = [] \<and> jb_inv (rx_jitter demo_rx)"
  by (rule recv_loop_buffer_empty, rule recv_reachable.cycle [OF recv_reachable.start])
    (simp add: demo_rx_def recv_cycle_continues option.collapse [symmetric])

lemma drain_loop_empty: "buf jb = [] \<Longrightarrow> drain_loop f jb = ([], jb)"
  by (subst drain_loop.simps) (simp add: drain_run_None jb_pop_def jb_is_empty_def split: option.splits)

lemma drain_loop_head:
  "drain_loop f \<lparr>next_seq = Some q, buf = [(q, d)], capacity = c\<rparr> =
   ([f d], \<lparr>next_seq = Some (q + 1), buf = [], capacity = c\<rparr>)"
proof -
  have "jb_pop \<lparr>next_seq = Some q, buf = [(q, d)], capacity = c\<rparr> =
      (Some (q, d), \<lparr>next_seq = Some (q + 1), buf = [], capacity = c\<rparr>)"
    by (simp add: jb_pop_def)
  note run = drain_run_Some [OF this, of f]
  show ?thesis
    by (subst drain_loop.simps) (simp add: run drain_run_None jb_pop_def jb_is_empty_def)
qed

lemma drain_loop_single:
  assumes "0 \<le> forward_distance b q"
  shows "drain_loop f \<lparr>next_seq = Some b, buf = [(q, d)], capacity = c\<rparr> =
   ([f d], \<lparr>next_seq = Some (q + 1), buf = [], capacity = c\<rparr>)"
proof (cases "q = b")
  case True
  then show ?thesis by (simp add: drain_loop_head)
next
  case False
  then have "0 < forward_distance b q" using assms forward_distance_eq_0_iff [of b q] by linarith
  then show ?thesis using False
    by (subst drain_loop.simps)
      (simp add: drain_run_None jb_pop_def jb_is_empty_def jb_skip_gap_def nearer_def drain_loop_head)
qed

lemma recv_packet_ahead:
  assumes "recv_inv st" "\<not> is_abandoned (rx_inbound st)"
    and "udp_recv_rtp_with_seq sock_recv (rx_transport st) = (Ok (sq, data), transport)"
  shows "recv_cycle sock_recv is_abandoned push from_planar channels sample_rate st = Some
    (if next_seq (rx_jitter st) = None \<or> 0 \<le> forward_distance (the (next_seq (rx_jitter st))) sq then
       st\<lparr>rx_transport := transport,
          rx_jitter := \<lparr>next_seq = Some (sq + 1), buf = [], capacity = 64\<rparr>,
          rx_inbound := push_frames push [from_planar channels sample_rate (decode_l16 data channels)] (rx_inbound st)\<rparr>
     else st\<lparr>rx_transport := transport\<rparr>)"
proof -
  let ?jb = "rx_jitter st"
  let ?ahead = "next_seq ?jb = None \<or> 0 \<le> forward_distance (the (next_seq ?jb)) sq"
  obtain nxt where jb: "?jb = \<lparr>next_seq = nxt, buf = [], capacity = 64\<rparr>"
    using assms by (cases ?jb) (simp add: recv_inv_def)
  have drain: "drain_loop f (snd (jb_push ?jb sq data)) =
      (if ?ahead then ([f data], \<lparr>next_seq = Some (sq + 1), buf = [], capacity = 64\<rparr>) else ([], ?jb))" for f
    by (cases nxt) (auto simp: jb jb_push_def drain_loop_empty drain_loop_single drain_loop_head)
  have "st\<lparr>rx_transport := transport, rx_jitter := rx_jitter st, rx_inbound := rx_inbound st\<rparr> =
      st\<lparr>rx_transport := transport\<rparr>" by simp
  then show ?thesis
    unfolding recv_cycle_def drain_jitter_def assms(3) using assms(2) by (simp add: drain)
qed

text \<open>
  A packet received by the loop is played when it is not behind the next number to emit, which
  then moves just past it; a packet behind it is dropped and changes nothing but the socket. With the
  buffer empty between cycles, a packet that arrives after a later one is therefore always lost.
\<close>

theorem recv_cycle_packet:
  assumes "recv_inv st" "\<not> is_abandoned (rx_inbound st)"
    and "udp_recv_rtp_with_seq sock_recv (rx_transport st) = (Ok (sq, data), transport)"
  shows "recv_cycle sock_recv is_abandoned push from_planar channels sample_rate st = Some
    (if next_seq (rx_jitter st) = None \<or> 0 \<le> forward_distance (the (next_seq (rx_jitter st))) sq then
       st\<lparr>rx_transport := transport,
          rx_jitter := \<lparr>next_seq = Some (sq + 1), buf = [], capacity = 64\<rparr>,
          rx_inbound := push_frames push [from_planar channels sample_rate (decode_l16 data channels)] (rx_inbound st)\<rparr>
     else st\<lparr>rx_transport := transport\<rparr>)"
  using assms by (rule recv_packet_ahead)

definition demo_rx_start :: "(bytes list, f32 list list) recv_loop" where
  "demo_rx_start =
     recv_start (demo_udp\<lparr>udp_sock := [RtpPacket_encode (udp_packet demo_udp [0, 1] PcmL16)]\<rparr>) []"

lemma demo_rx_start_recv:
  "udp_recv_rtp_with_seq queue_recv (rx_transport demo_rx_start) = (Ok (65535, [0, 1]), demo_udp)"
  by (simp add: demo_rx_start_def recv_start_def udp_recv_rtp_with_seq_def queue_recv_def udp_packet_def
      parse_encode_new) (simp add: RtpHeader_new_def demo_udp_def)

theorem recv_cycle_packet_witness:
  "recv_cycle queue_recv (\<lambda>_. False) (\<lambda>r f. Some (f # r)) (\<lambda>_ _ xs. xs) 1 48000 demo_rx_start = Some
    (if next_seq (rx_jitter demo_rx_start) = None \<or>
        0 \<le> forward_distance (the (next_seq (rx_jitter demo_rx_start))) 65535
     then demo_rx_start\<lparr>rx_transport := demo_udp,
       rx_jitter := \<lparr>next_seq = Some (65535 + 1), buf = [], capacity = 64\<rparr>,
       rx_inbound := push_frames (\<lambda>r f. Some (f # r)) [decode_l16 [0, 1] 1] (rx_inbound demo_rx_start)\<rparr>
     else demo_rx_start\<lparr>rx_transport := demo_udp\<rparr>)"
  by (rule recv_cycle_packet [OF _ _ demo_rx_start_recv]) (simp_all add: demo_rx_start_def recv_inv_start)

section \<open>The send loop\<close>

record ('k, 'r) send_loop =
  tx_transport :: "'k UdpTransport"
  tx_outbound :: 'r

text \<open>One cycle of the send loop; \<open>None\<close> when the loop exits.\<close>

definition send_cycle ::
  "('k \<Rightarrow> bytes \<Rightarrow> (string + nat) \<times> 'k) \<Rightarrow> ('r \<Rightarrow> bool) \<Rightarrow> ('r \<Rightarrow> ('f \<times> 'r) option)
   \<Rightarrow> ('f \<Rightarrow> f32 list) \<Rightarrow> u16 \<Rightarrow> ('k, 'r) send_loop \<Rightarrow> ('k, 'r) send_loop option" where
  "send_cycle sock_send is_abandoned pop samples channels st =
     (if is_abandoned (tx_outbound st) then None
      else
        case pop (tx_outbound st) of
          Some (frame, ring) \<Rightarrow>
            let data = encode_l16 (samples frame) channels;
                (r, transport) = udp_send_rtp sock_send (tx_transport st) data PcmL16
            in Some (st\<lparr>tx_transport := transport, tx_outbound := ring\<rparr>)
        | None \<Rightarrow> Some st)"


definition demo_tx :: "(bytes list, f32 list list) send_loop" where
  "demo_tx = \<lparr>tx_transport = demo_udp, tx_outbound = [[f_of_int 1]]\<rparr>"

definition demo_pop :: "'a list \<Rightarrow> ('a \<times> 'a list) option" where
  "demo_pop r = (case r of [] \<Rightarrow> None | f # fs \<Rightarrow> Some (f, fs))"

definition demo_rx_idle :: "(bytes list, f32 list list) recv_loop" where
  "demo_rx_idle =
     \<lparr>rx_transport = demo_udp, rx_inbound = [],
      rx_jitter = \<lparr>next_seq = Some 65530, buf = [], capacity = 64\<rparr>\<rparr>"


end
