(* ===== verification/Netmap.thy ===== *)
theory Netmap
  imports Rtp_Transport
begin

text \<open>
  The netmap ring backend of \<open>net-rtp-aes67/src/transport/netmap_backend.rs\<close> over the ABI
  declarations of \<open>netmap_layout.rs\<close>. The kernel-shared region is the record of a ring: its header
  fields, its slot descriptors and the contents of its buffers. The kernel is a parameter: the
  results of opening the device, of the ioctls (which may rewrite the rings) and of the mappings, with
  errors as the text of the I/O error. \<open>dbg\<close> is the \<open>Debug\<close> formatting of a string.
\<close>

section \<open>ABI\<close>

text \<open>
  \<open>repr(C)\<close>: each field at the next multiple of its alignment, the size rounded up to the largest
  alignment. A field is a size and an alignment.
\<close>

definition align_up :: "nat \<Rightarrow> nat \<Rightarrow> nat" where
  "align_up n a = (n + a - 1) div a * a"

fun c_layout :: "(nat \<times> nat) list \<Rightarrow> nat \<Rightarrow> nat list \<times> nat" where
  "c_layout [] n = ([], n)"
| "c_layout ((sz, al) # fs) n =
     (let ofs = align_up n al; (os, e) = c_layout fs (ofs + sz) in (ofs # os, e))"

definition c_size_of :: "(nat \<times> nat) list \<Rightarrow> nat" where
  "c_size_of fs = align_up (snd (c_layout fs 0)) (fold max (map snd fs) 1)"

abbreviation c_u16 :: "nat \<times> nat" where "c_u16 \<equiv> (2, 2)"
abbreviation c_u32 :: "nat \<times> nat" where "c_u32 \<equiv> (4, 4)"
abbreviation c_u64 :: "nat \<times> nat" where "c_u64 \<equiv> (8, 8)"

definition IFNAMSIZ :: nat where
  "IFNAMSIZ = 16"

definition NETMAP_API :: u32 where
  "NETMAP_API = 14"

text \<open>\<open>buf_idx\<close>, \<open>len\<close>, \<open>flags\<close>, \<open>ptr\<close>.\<close>

definition netmap_slot_layout :: "(nat \<times> nat) list" where
  "netmap_slot_layout = [c_u32, c_u16, c_u16, c_u64]"

text \<open>The name, five words, six half-words, two words and a spare word.\<close>

definition nmreq_layout :: "(nat \<times> nat) list" where
  "nmreq_layout =
     [(IFNAMSIZ, 1), c_u32, c_u32, c_u32, c_u32, c_u32, c_u16, c_u16, c_u16, c_u16, c_u16, c_u16, c_u32, c_u32,
      (4, 4)]"

definition netmap_if_layout :: "(nat \<times> nat) list" where
  "netmap_if_layout = [(IFNAMSIZ, 1), c_u32, c_u32, c_u32, c_u32, c_u32, c_u32, c_u32, (12, 4)]"

text \<open>
  \<open>buf_ofs\<close>, \<open>num_slots\<close>, \<open>nr_buf_size\<close>, \<open>ringid\<close>, \<open>dir\<close>, \<open>head\<close>, \<open>cur\<close>, \<open>tail\<close>, \<open>flags\<close>, \<open>ts\<close>,
  \<open>offset_mask\<close>, \<open>buf_align\<close>, the padding and \<open>sem\<close>.
\<close>

definition netmap_ring_layout :: "(nat \<times> nat) list" where
  "netmap_ring_layout =
     [c_u64, c_u32, c_u32, c_u16, c_u16, c_u32, c_u32, c_u32, c_u32, (16, 8), c_u64, c_u64, (56, 1), (128, 1)]"

definition NETMAP_IF_RING_OFS_OFFSET :: nat where
  "NETMAP_IF_RING_OFS_OFFSET = 56"

definition NETMAP_RING_HEADER_SIZE :: nat where
  "NETMAP_RING_HEADER_SIZE = c_size_of netmap_ring_layout"

definition rx_ring0_index :: "u32 \<Rightarrow> u32 \<Rightarrow> nat" where
  "rx_ring0_index ni_tx_rings ni_host_tx_rings = unat (ni_tx_rings + ni_host_tx_rings)"

definition iowr :: "u8 \<Rightarrow> u8 \<Rightarrow> nat \<Rightarrow> u64" where
  "iowr grp num len =
     0xC0000000 OR push_bit 16 (of_nat len AND 0x1FFF) OR push_bit 8 (ucast grp) OR ucast num"

definition ioc_void :: "u8 \<Rightarrow> u8 \<Rightarrow> u64" where
  "ioc_void grp num = 0x20000000 OR push_bit 8 (ucast grp) OR ucast num"

definition NIOCGINFO :: u64 where
  "NIOCGINFO = iowr (of_char CHR ''i'') 145 (c_size_of nmreq_layout)"

definition NIOCREGIF :: u64 where
  "NIOCREGIF = iowr (of_char CHR ''i'') 146 (c_size_of nmreq_layout)"

definition NIOCTXSYNC :: u64 where
  "NIOCTXSYNC = ioc_void (of_char CHR ''i'') 148"

definition NIOCRXSYNC :: u64 where
  "NIOCRXSYNC = ioc_void (of_char CHR ''i'') 149"

section \<open>Rings\<close>

record NetmapSlot =
  slot_buf_idx :: u32
  slot_len :: u16
  slot_flags :: u16
  slot_ptr :: u64

record Ring =
  ring_num_slots :: u32
  ring_buf_size :: u32
  ring_buf_ofs :: int
  ring_head :: u32
  ring_cur :: u32
  ring_tail :: u32
  ring_slots :: "u32 \<Rightarrow> NetmapSlot"
  ring_buffers :: "u32 \<Rightarrow> bytes"

definition ring_from_hdr :: "Ring \<Rightarrow> TransportError + Ring" where
  "ring_from_hdr hdr =
     (if ring_num_slots hdr = 0 \<or> ring_buf_size hdr = 0 \<or> ring_buf_ofs hdr < 0 then
        Err (Network (''invalid netmap ring geometry (num_slots='' @ show_word (ring_num_slots hdr)
          @ '', buf_size='' @ show_word (ring_buf_size hdr)
          @ '', buf_ofs='' @ show_int (ring_buf_ofs hdr) @ '')''))
      else Ok hdr)"

definition slots_free :: "Ring \<Rightarrow> nat" where
  "slots_free r =
     (let n = ring_num_slots r in
      if n = 0 then 0
      else let inflight = (ring_head r - ring_tail r) mod n in unat (n - inflight))"

text \<open>The addresses of slot \<open>i\<close> and of buffer \<open>idx\<close>, from the start of the ring.\<close>

definition slot_offset :: "u32 \<Rightarrow> nat" where
  "slot_offset i = NETMAP_RING_HEADER_SIZE + unat i * c_size_of netmap_slot_layout"

definition buffer_offset :: "Ring \<Rightarrow> u32 \<Rightarrow> int" where
  "buffer_offset r idx = ring_buf_ofs r + uint idx * uint (ring_buf_size r)"

record 'd Inner =
  nm_dev :: 'd
  nm_map_len :: nat
  nm_tx :: Ring
  nm_rx :: Ring

record 'd NetmapTransport =
  nm_ifname :: string
  nm_inner :: "'d Inner option"
  nm_memid :: u16
  nm_seq :: u16
  nm_timestamp :: u32
  nm_ssrc :: u32
  nm_channels :: u16

definition not_open :: TransportError where
  "not_open = Network ''netmap port not open (bind one via NetmapTransport::open)''"

definition corrupt_ring :: "string \<Rightarrow> u32 \<Rightarrow> u32 \<Rightarrow> TransportError" where
  "corrupt_ring field v num_slots =
     Network (''kernel reported '' @ field @ ''='' @ show_word v @ '' outside the ring (num_slots=''
       @ show_word num_slots @ '')'')"

definition netmap_new :: "u32 \<Rightarrow> 'd NetmapTransport" where
  "netmap_new system_ssrc =
     \<lparr>nm_ifname = [], nm_inner = None, nm_memid = 0, nm_seq = 0, nm_timestamp = 0, nm_ssrc = system_ssrc,
      nm_channels = 2\<rparr>"

text \<open>Staging a packet in a ring that has passed the guards.\<close>

definition stage_packet :: "Ring \<Rightarrow> bytes \<Rightarrow> Ring" where
  "stage_packet r packet =
     (let h = ring_head r;
          slot = ring_slots r h;
          idx = slot_buf_idx slot;
          nxt = (h + 1) mod ring_num_slots r
      in r\<lparr>ring_buffers := (ring_buffers r)(idx := packet @ drop (length packet) (ring_buffers r idx)),
           ring_slots := (ring_slots r)(h := slot\<lparr>slot_len := of_nat (length packet)\<rparr>),
           ring_head := nxt, ring_cur := nxt\<rparr>)"

definition send_raw :: "'d NetmapTransport \<Rightarrow> bytes \<Rightarrow> (TransportError + nat) \<times> 'd NetmapTransport" where
  "send_raw t packet =
     (case nm_inner t of
        None \<Rightarrow> (Err not_open, t)
      | Some inner \<Rightarrow>
          let tx = nm_tx inner in
          if length packet > 65535 then
            (Err (Network (''packet of '' @ show_nat (length packet) @ '' B cannot fit a 16-bit slot length'')), t)
          else if length packet > unat (ring_buf_size tx) then
            (Err (Network (''packet of '' @ show_nat (length packet) @ '' B exceeds the netmap buffer size of ''
              @ show_word (ring_buf_size tx) @ '' B'')), t)
          else if slots_free tx = 0 then
            (Err (Network ''netmap TX ring full (head == tail); txsync() before sending more''), t)
          else if ring_head tx \<ge> ring_num_slots tx then
            (Err (corrupt_ring ''tx.head'' (ring_head tx) (ring_num_slots tx)), t)
          else (Ok (length packet), t\<lparr>nm_inner := Some (inner\<lparr>nm_tx := stage_packet tx packet\<rparr>)\<rparr>))"

definition sync_ioctl ::
  "(u64 \<Rightarrow> 'd Inner \<Rightarrow> (string + unit) \<times> 'd Inner) \<Rightarrow> 'd NetmapTransport \<Rightarrow> u64 \<Rightarrow> string
   \<Rightarrow> (TransportError + unit) \<times> 'd NetmapTransport" where
  "sync_ioctl ioctl t cmd name =
     (case nm_inner t of
        None \<Rightarrow> (Err not_open, t)
      | Some inner \<Rightarrow>
          let (r, inner) = ioctl cmd inner in
          (map_err (\<lambda>e. Network (name @ '': '' @ e)) r, t\<lparr>nm_inner := Some inner\<rparr>))"

definition txsync where
  "txsync ioctl t = sync_ioctl ioctl t NIOCTXSYNC ''NIOCTXSYNC''"

definition rxsync where
  "rxsync ioctl t = sync_ioctl ioctl t NIOCRXSYNC ''NIOCRXSYNC''"

definition prime_rx ::
  "(u64 \<Rightarrow> 'd Inner \<Rightarrow> (string + unit) \<times> 'd Inner) \<Rightarrow> 'd NetmapTransport
   \<Rightarrow> (TransportError + unit) \<times> 'd NetmapTransport" where
  "prime_rx ioctl t =
     (case nm_inner t of
        None \<Rightarrow> (Err not_open, t)
      | Some inner \<Rightarrow>
          let rx = nm_rx inner;
              rx = rx\<lparr>ring_head := ring_tail rx, ring_cur := ring_tail rx\<rparr>
          in rxsync ioctl (t\<lparr>nm_inner := Some (inner\<lparr>nm_rx := rx\<rparr>)\<rparr>))"

text \<open>The received bytes stand for the prefix the call writes into the caller's buffer.\<close>

definition recv_raw :: "'d NetmapTransport \<Rightarrow> nat \<Rightarrow> (TransportError + bytes) \<times> 'd NetmapTransport" where
  "recv_raw t buf_len =
     (case nm_inner t of
        None \<Rightarrow> (Err not_open, t)
      | Some inner \<Rightarrow>
          let rx = nm_rx inner; c = ring_cur rx in
          if c \<ge> ring_num_slots rx then (Err (corrupt_ring ''rx.cur'' c (ring_num_slots rx)), t)
          else if c = ring_tail rx then (Ok [], t)
          else
            let slot = ring_slots rx c;
                n = min (min (unat (slot_len slot)) buf_len) (unat (ring_buf_size rx));
                nxt = (c + 1) mod ring_num_slots rx
            in (Ok (take n (ring_buffers rx (slot_buf_idx slot))),
                t\<lparr>nm_inner := Some (inner\<lparr>nm_rx := rx\<lparr>ring_cur := nxt, ring_head := nxt\<rparr>\<rparr>)\<rparr>))"

definition netmap_teardown :: "string + unit \<Rightarrow> 'd NetmapTransport \<Rightarrow> (TransportError + unit) \<times> 'd NetmapTransport" where
  "netmap_teardown munmap t =
     (case nm_inner t of
        None \<Rightarrow> (Ok (), t)
      | Some _ \<Rightarrow> (map_err (\<lambda>e. Network (''munmap: '' @ e)) munmap, t\<lparr>nm_inner := None\<rparr>))"

section \<open>Registration\<close>

text \<open>The fields of the request that \<open>open_with_memid\<close> fills; the others are zero.\<close>

record Nmreq =
  nr_name :: bytes
  nr_version :: u32
  nr_arg2 :: u16

definition nmreq_for :: "string \<Rightarrow> u16 option \<Rightarrow> Nmreq" where
  "nmreq_for ifname memid =
     \<lparr>nr_name = str_bytes ifname @ replicate (IFNAMSIZ - length ifname) 0, nr_version = NETMAP_API,
      nr_arg2 = (case memid of Some i \<Rightarrow> i | None \<Rightarrow> 0)\<rparr>"

text \<open>
  What the kernel provides: the reply to \<open>NIOCREGIF\<close> (offset of the port descriptor, region size,
  allocator id), and in the mapped region the descriptor's ring counts, its table of ring offsets and
  the ring at each offset.
\<close>

record reg_reply =
  reg_offset :: u32
  reg_memsize :: u32
  reg_arg2 :: u16

record region =
  ni_tx_rings :: u32
  ni_host_tx_rings :: u32
  ni_rx_rings :: u32
  ring_ofs :: "nat \<Rightarrow> int"
  ring_at :: "int \<Rightarrow> Ring"

definition read_ring_ofs :: "region \<Rightarrow> nat \<Rightarrow> TransportError + int" where
  "read_ring_ofs reg index =
     (let ofs = ring_ofs reg index in
      if ofs \<le> 0 then
        Err (Network (''netmap_if.ring_ofs['' @ show_nat index @ ''] is not a valid offset ('' @ show_int ofs @ '')''))
      else Ok ofs)"

text \<open>The rings of a mapped region: the first send ring and the first delivery ring.\<close>

definition open_rings :: "(string \<Rightarrow> string) \<Rightarrow> string \<Rightarrow> region \<Rightarrow> TransportError + Ring \<times> Ring" where
  "open_rings dbg ifname reg =
     (if ni_tx_rings reg = 0 \<or> ni_rx_rings reg = 0 then
        Err (Network (''port '' @ dbg ifname @ '' has no usable ring pair (tx='' @ show_word (ni_tx_rings reg)
          @ '', rx='' @ show_word (ni_rx_rings reg) @ '')''))
      else
        rbind (read_ring_ofs reg 0) (\<lambda>tx_ofs.
        rbind (read_ring_ofs reg (rx_ring0_index (ni_tx_rings reg) (ni_host_tx_rings reg))) (\<lambda>rx_ofs.
        if tx_ofs \<le> 0 \<or> rx_ofs \<le> 0 then
          Err (Network (''port '' @ dbg ifname @ '' reported non-positive ring offsets (tx='' @ show_int tx_ofs
            @ '', rx='' @ show_int rx_ofs @ '')''))
        else
          rbind (ring_from_hdr (ring_at reg tx_ofs)) (\<lambda>tx.
          rbind (ring_from_hdr (ring_at reg rx_ofs)) (\<lambda>rx. Ok (tx, rx))))))"

definition open_with_memid ::
  "(string \<Rightarrow> string) \<Rightarrow> string + 'd \<Rightarrow> ('d \<Rightarrow> u64 \<Rightarrow> Nmreq \<Rightarrow> string + reg_reply) \<Rightarrow> ('d \<Rightarrow> nat \<Rightarrow> string + region)
   \<Rightarrow> u32 \<Rightarrow> string \<Rightarrow> u16 option \<Rightarrow> TransportError + 'd NetmapTransport" where
  "open_with_memid dbg dev_open regif mmap system_ssrc ifname memid =
     (if length ifname \<ge> IFNAMSIZ then
        Err (Network (''interface name '' @ dbg ifname @ '' longer than IFNAMSIZ-1 (= ''
          @ show_nat (IFNAMSIZ - 1) @ '')''))
      else
        rbind (map_err (\<lambda>e. Network (''open /dev/netmap: '' @ e)) dev_open) (\<lambda>dev.
        rbind (map_err (\<lambda>e. Network (''NIOCREGIF '' @ dbg ifname @ '': '' @ e))
            (regif dev NIOCREGIF (nmreq_for ifname memid))) (\<lambda>req.
        let map_len = unat (reg_memsize req) in
        if map_len = 0 then Err (Network ''NIOCREGIF returned a zero region size'')
        else
          rbind (map_err (\<lambda>e. Network (''mmap netmap region ('' @ show_nat map_len @ '' B): '' @ e)) (mmap dev map_len))
            (\<lambda>reg.
          rbind (open_rings dbg ifname reg) (\<lambda>(tx, rx).
          Ok \<lparr>nm_ifname = ifname, nm_inner = Some \<lparr>nm_dev = dev, nm_map_len = map_len, nm_tx = tx, nm_rx = rx\<rparr>,
              nm_memid = reg_arg2 req, nm_seq = 0, nm_timestamp = 0, nm_ssrc = system_ssrc, nm_channels = 2\<rparr>)))))"

section \<open>RTP over the rings\<close>

definition netmap_send_rtp ::
  "(u64 \<Rightarrow> 'd Inner \<Rightarrow> (string + unit) \<times> 'd Inner) \<Rightarrow> 'd NetmapTransport \<Rightarrow> bytes \<Rightarrow> Codec
   \<Rightarrow> (TransportError + unit) \<times> 'd NetmapTransport" where
  "netmap_send_rtp ioctl t data codec =
     (let packet = \<lparr>header = RtpHeader_new (codec_to_payload_type codec (nm_channels t)) (nm_seq t)
                      (nm_timestamp t) (nm_ssrc t), payload = data\<rparr>;
          t = t\<lparr>nm_seq := nm_seq t + 1,
                nm_timestamp := nm_timestamp t + timestamp_advance (length data) codec (nm_channels t)\<rparr>;
          bs = RtpPacket_encode packet;
          (r, t) = send_raw t bs
      in case r of
           Inl e \<Rightarrow> (Err e, t)
         | Inr staged \<Rightarrow>
             if staged < length bs then
               (Err (Network (''TX ring slot too small for the RTP packet ('' @ show_nat staged @ '' of ''
                 @ show_nat (length bs) @ '' bytes staged)'')), t)
             else txsync ioctl t)"

definition netmap_recv_rtp ::
  "(u64 \<Rightarrow> 'd Inner \<Rightarrow> (string + unit) \<times> 'd Inner) \<Rightarrow> 'd NetmapTransport
   \<Rightarrow> (TransportError + bytes) \<times> 'd NetmapTransport" where
  "netmap_recv_rtp ioctl t =
     (let (s, t) = rxsync ioctl t in
      case s of
        Inl e \<Rightarrow> (Err e, t)
      | Inr _ \<Rightarrow>
          let (r, t) = recv_raw t 65535 in
          (rbind r (\<lambda>bs.
             if length bs = 0 then Err (Network ''no packet available'')
             else rbind (RtpPacket_parse bs) (\<lambda>packet. Ok (payload packet))), t))"

definition netmap_join_multicast :: "'d NetmapTransport \<Rightarrow> (TransportError + unit) \<times> 'd NetmapTransport" where
  "netmap_join_multicast t =
     (Err (Unimplemented ''netmap multicast join (not an IP socket; use UdpTransport)''), t)"

section \<open>Laws\<close>

lemma send_raw_clock:
  "nm_seq (snd (send_raw t p)) = nm_seq t" "nm_timestamp (snd (send_raw t p)) = nm_timestamp t"
  "nm_channels (snd (send_raw t p)) = nm_channels t"
  by (auto simp: send_raw_def Let_def split: option.splits)

lemma txsync_clock:
  "nm_seq (snd (txsync ioctl t)) = nm_seq t" "nm_timestamp (snd (txsync ioctl t)) = nm_timestamp t"
  "nm_channels (snd (txsync ioctl t)) = nm_channels t"
  by (auto simp: txsync_def sync_ioctl_def Let_def case_prod_unfold split: option.splits)

interpretation netmap: rtp_sender "netmap_send_rtp ioctl" nm_seq nm_timestamp nm_channels
  for ioctl :: "u64 \<Rightarrow> 'd Inner \<Rightarrow> (string + unit) \<times> 'd Inner"
  by unfold_locales
    (auto simp: netmap_send_rtp_def Let_def case_prod_unfold send_raw_clock txsync_clock split: sum.splits)

text \<open>
  The netmap transport keeps the same send clock as the UDP transport: over any sequence of sends,
  on an open or a detached port, the sequence number goes up by one per packet and the timestamp by the
  frames of each payload.
\<close>

theorem netmap_clock:
  "nm_seq (send_all (netmap_send_rtp ioctl) codec ps t) = nm_seq t + of_nat (length ps) \<and>
   nm_timestamp (send_all (netmap_send_rtp ioctl) codec ps t) =
     nm_timestamp t + (\<Sum>p\<leftarrow>ps. timestamp_advance (length p) codec (nm_channels t))"
  by (simp add: netmap.send_all_seq netmap.send_all_ts)


lemma slots_free_pos: "ring_num_slots r \<noteq> 0 \<Longrightarrow> 0 < slots_free r"
proof -
  assume n: "ring_num_slots r \<noteq> 0"
  let ?i = "(ring_head r - ring_tail r) mod ring_num_slots r"
  have "unat ?i < unat (ring_num_slots r)" using n by (simp add: unat_mod unat_gt_0)
  then have "ring_num_slots r - ?i \<noteq> 0" by auto
  then show ?thesis using n by (simp add: slots_free_def Let_def unat_gt_0)
qed

text \<open>
  On an open port whose ring passed the geometry check, every packet that fits the buffer is
  staged: the slot at \<open>head\<close> gets its length, that slot's buffer its bytes, and \<open>head\<close> and \<open>cur\<close> move to
  the next slot. The guard for a full ring never holds, whatever the kernel still has in flight.
\<close>

theorem send_raw_accepts:
  assumes "nm_inner t = Some inner" "ring_from_hdr hdr = Ok (nm_tx inner)"
    and "ring_head (nm_tx inner) < ring_num_slots (nm_tx inner)"
    and "length packet \<le> 65535" "length packet \<le> unat (ring_buf_size (nm_tx inner))"
  shows "send_raw t packet =
      (Ok (length packet), t\<lparr>nm_inner := Some (inner\<lparr>nm_tx := stage_packet (nm_tx inner) packet\<rparr>)\<rparr>) \<and>
    slots_free (nm_tx inner) \<noteq> 0 \<and>
    ring_head (stage_packet (nm_tx inner) packet) < ring_num_slots (nm_tx inner)"
proof -
  have n: "ring_num_slots (nm_tx inner) \<noteq> 0"
    using assms(2) by (auto simp: ring_from_hdr_def split: if_splits)
  then have "(ring_head (nm_tx inner) + 1) mod ring_num_slots (nm_tx inner) < ring_num_slots (nm_tx inner)"
    by (simp add: word_mod_less_divisor word_greater_zero_iff)
  then show ?thesis
    using assms slots_free_pos [OF n] by (simp add: send_raw_def Let_def stage_packet_def not_le)
qed

definition demo_ring :: Ring where
  "demo_ring =
     \<lparr>ring_num_slots = 4, ring_buf_size = 2048, ring_buf_ofs = 4096, ring_head = 3, ring_cur = 3, ring_tail = 0,
      ring_slots = (\<lambda>i. \<lparr>slot_buf_idx = i + 2, slot_len = 0, slot_flags = 0, slot_ptr = 0\<rparr>),
      ring_buffers = (\<lambda>_. [])\<rparr>"

definition demo_port :: "unit NetmapTransport" where
  "demo_port =
     \<lparr>nm_ifname = ''vale1:1'',
      nm_inner = Some \<lparr>nm_dev = (), nm_map_len = 65536, nm_tx = demo_ring, nm_rx = demo_ring\<rparr>,
      nm_memid = 2, nm_seq = 0, nm_timestamp = 0, nm_ssrc = 7, nm_channels = 2\<rparr>"

theorem send_raw_accepts_witness:
  "send_raw demo_port [1, 2, 3] =
      (Ok (length [1, 2, 3 :: u8]), demo_port\<lparr>nm_inner := Some ((the (nm_inner demo_port))
        \<lparr>nm_tx := stage_packet (nm_tx (the (nm_inner demo_port))) [1, 2, 3]\<rparr>)\<rparr>) \<and>
    slots_free (nm_tx (the (nm_inner demo_port))) \<noteq> 0 \<and>
    ring_head (stage_packet (nm_tx (the (nm_inner demo_port))) [1, 2, 3])
      < ring_num_slots (nm_tx (the (nm_inner demo_port)))"
  by (rule send_raw_accepts [where hdr = demo_ring])
    (simp_all add: demo_port_def demo_ring_def ring_from_hdr_def)

lemma next_slot:
  assumes "h < n" "1 < (n :: u32)"
  shows "(h + 1) mod n \<noteq> h" "(h + 1) mod n < n"
proof -
  have n: "0 < n" using assms by (simp add: word_less_nat_alt)
  then show "(h + 1) mod n < n" by (rule word_mod_less_divisor)
  have lt: "unat h < unat n" "1 < unat n" using assms by (simp_all add: word_less_nat_alt)
  moreover have "unat n < 2 ^ 32" using unsigned_less [of n] by simp
  ultimately have "unat (h + 1) = unat h + 1" by (simp add: unat_word_ariths)
  then have "unat ((h + 1) mod n) = (unat h + 1) mod unat n" by (simp add: unat_mod)
  moreover have "(unat h + 1) mod unat n \<noteq> unat h"
    using lt by (cases "unat h + 1 = unat n") auto
  ultimately show "(h + 1) mod n \<noteq> h" by metis
qed

text \<open>
  A packet staged in a slot is what the receiver of that slot reads: on a delivery ring that holds
  the staged slot at its cursor, the read returns exactly the packet and releases the slot.
\<close>

theorem staged_packet_received:
  assumes "nm_inner t = Some inner"
    and "nm_rx inner = (stage_packet r packet)\<lparr>ring_cur := ring_head r, ring_tail := ring_head (stage_packet r packet)\<rparr>"
    and "ring_head r < ring_num_slots r" "1 < ring_num_slots r"
    and "length packet \<le> 65535" "length packet \<le> unat (ring_buf_size r)"
  shows "recv_raw t 65535 =
    (Ok packet, t\<lparr>nm_inner := Some (inner\<lparr>nm_rx := (stage_packet r packet)
       \<lparr>ring_tail := ring_head (stage_packet r packet)\<rparr>\<rparr>)\<rparr>)"
proof -
  have "(ring_head r + 1) mod ring_num_slots r \<noteq> ring_head r" using assms(3,4) by (rule next_slot)
  moreover have "unat (of_nat (length packet) :: u16) = length packet"
    using assms(5) by (simp add: unat_of_nat)
  ultimately show ?thesis
    using assms by (auto simp: recv_raw_def stage_packet_def Let_def not_le min_absorb1)
qed

definition demo_delivery :: "unit Inner" where
  "demo_delivery =
     \<lparr>nm_dev = (), nm_map_len = 65536, nm_tx = demo_ring,
      nm_rx = (stage_packet demo_ring [7, 8])
        \<lparr>ring_cur := ring_head demo_ring, ring_tail := ring_head (stage_packet demo_ring [7, 8])\<rparr>\<rparr>"

theorem staged_packet_received_witness:
  "recv_raw (demo_port\<lparr>nm_inner := Some demo_delivery\<rparr>) 65535 =
   (Ok [7, 8], (demo_port\<lparr>nm_inner := Some demo_delivery\<rparr>)\<lparr>nm_inner := Some (demo_delivery
      \<lparr>nm_rx := (stage_packet demo_ring [7, 8])\<lparr>ring_tail := ring_head (stage_packet demo_ring [7, 8])\<rparr>\<rparr>)\<rparr>)"
  by (rule staged_packet_received) (simp_all add: demo_delivery_def, simp_all add: demo_ring_def)

end
