(* ===== verification/Pulse_Codec.thy ===== *)
theory Pulse_Codec
  imports Prelude
begin

text \<open>
  The fixed-format part of the PulseAudio wire codec, \<open>gw-pulse/src/codec.rs\<close>: the frame descriptor,
  the untagged sample specification and the length-prefixed string.
\<close>

definition HEADER_LEN :: nat where
  "HEADER_LEN = 20"

definition MAX_LEN :: u32 where
  "MAX_LEN = 4 * 1024 * 1024"

datatype PulseError = Truncated | InvalidTag u8 | InvalidSampleFormat u8 | Oversized | InvalidUtf8

definition command_ERROR :: u32 where "command_ERROR = 0"
definition command_TIMEOUT :: u32 where "command_TIMEOUT = 1"
definition command_REPLY :: u32 where "command_REPLY = 2"
definition command_CREATE_PLAYBACK_STREAM :: u32 where "command_CREATE_PLAYBACK_STREAM = 3"
definition command_DELETE_PLAYBACK_STREAM :: u32 where "command_DELETE_PLAYBACK_STREAM = 4"
definition command_AUTH :: u32 where "command_AUTH = 8"
definition command_SET_CLIENT_NAME :: u32 where "command_SET_CLIENT_NAME = 9"
definition command_SAMPLE_FLOAT32LE :: u8 where "command_SAMPLE_FLOAT32LE = 5"
definition command_VOLUME_NORM :: u32 where "command_VOLUME_NORM = 0x10000"
definition command_QUERY_INFO :: u32 where "command_QUERY_INFO = 20"
definition command_SERVER_INFO :: u32 where "command_SERVER_INFO = 2"

record PacketHeader =
  ph_length :: u32
  ph_channel :: u32
  ph_offset :: u64
  ph_flags :: u32
  ph_opcode :: u32

definition PacketHeader_parse :: "bytes \<Rightarrow> PulseError + PacketHeader" where
  "PacketHeader_parse buf =
     (if length buf < HEADER_LEN then Err Truncated
      else Ok
        \<lparr>ph_length = from_be32 (buf ! 0) (buf ! 1) (buf ! 2) (buf ! 3),
         ph_channel = from_be32 (buf ! 4) (buf ! 5) (buf ! 6) (buf ! 7),
         ph_offset = from_be64 (buf ! 8) (buf ! 9) (buf ! 10) (buf ! 11) (buf ! 12) (buf ! 13) (buf ! 14) (buf ! 15),
         ph_flags = from_be32 (buf ! 16) (buf ! 17) (buf ! 18) (buf ! 19),
         ph_opcode =
           (if length buf \<ge> HEADER_LEN + 4 then from_be32 (buf ! 20) (buf ! 21) (buf ! 22) (buf ! 23) else 0)\<rparr>)"

definition PacketHeader_is_valid :: "PacketHeader \<Rightarrow> bool" where
  "PacketHeader_is_valid h \<longleftrightarrow> ph_length h > 0 \<and> ph_length h \<le> MAX_LEN"

datatype SampleFormat = S16Le | Float32Le

definition from_pa_byte :: "u8 \<Rightarrow> SampleFormat option" where
  "from_pa_byte b = (if b = 0 then Some S16Le else if b = 5 then Some Float32Le else None)"

record SampleSpec =
  ss_sample_rate :: u32
  ss_channels :: u8
  ss_format :: SampleFormat

definition SampleSpec_parse :: "bytes \<Rightarrow> PulseError + SampleSpec" where
  "SampleSpec_parse buf =
     (if length buf < 6 then Err Truncated
      else
        rbind (ok_or (InvalidSampleFormat (buf ! 5)) (from_pa_byte (buf ! 5))) (\<lambda>fmt.
          Ok \<lparr>ss_sample_rate = from_be32 (buf ! 0) (buf ! 1) (buf ! 2) (buf ! 3), ss_channels = buf ! 4,
              ss_format = fmt\<rparr>))"

definition to_audio_frame_meta :: "SampleSpec \<Rightarrow> u16 \<times> u32" where
  "to_audio_frame_meta ss = (ucast (ss_channels ss), ss_sample_rate ss)"

text \<open>\<open>strip_suffix(b"\0").unwrap_or(..)\<close>.\<close>

definition strip_nul :: "bytes \<Rightarrow> bytes" where
  "strip_nul s = (if s \<noteq> [] \<and> last s = 0 then butlast s else s)"

definition parse_pa_string :: "bytes \<Rightarrow> PulseError + bytes \<times> bytes" where
  "parse_pa_string buf =
     (if length buf < 4 then Err Truncated
      else
        let len = from_be32 (buf ! 0) (buf ! 1) (buf ! 2) (buf ! 3) in
        if len > MAX_LEN then Err Oversized
        else
          let e = 4 + unat len in
          if length buf < e then Err Oversized
          else Ok (strip_nul (take (unat len) (drop 4 buf)), drop e buf))"

section \<open>Laws\<close>

text \<open>The descriptor a sender writes, without and with a body behind it.\<close>

definition descriptor :: "u32 \<Rightarrow> u32 \<Rightarrow> u64 \<Rightarrow> u32 \<Rightarrow> bytes" where
  "descriptor len channel offset flags = to_be32 len @ to_be32 channel @ to_be64 offset @ to_be32 flags"

lemma length_descriptor [simp]: "length (descriptor l c ofs f) = 20"
  by (simp add: descriptor_def)

lemma PacketHeader_parse_descriptor:
  "PacketHeader_parse (descriptor l c ofs f) =
     Ok \<lparr>ph_length = l, ph_channel = c, ph_offset = ofs, ph_flags = f, ph_opcode = 0\<rparr>"
proof -
  obtain l1 l2 l3 l4 where l: "to_be32 l = [l1, l2, l3, l4]" "from_be32 l1 l2 l3 l4 = l" by (rule to_be32_ex)
  obtain c1 c2 c3 c4 where c: "to_be32 c = [c1, c2, c3, c4]" "from_be32 c1 c2 c3 c4 = c" by (rule to_be32_ex)
  obtain f1 f2 f3 f4 where f: "to_be32 f = [f1, f2, f3, f4]" "from_be32 f1 f2 f3 f4 = f" by (rule to_be32_ex)
  obtain o1 o2 o3 o4 o5 o6 o7 o8 where
    o: "to_be64 ofs = [o1, o2, o3, o4, o5, o6, o7, o8]" "from_be64 o1 o2 o3 o4 o5 o6 o7 o8 = ofs"
    by (rule to_be64_ex)
  show ?thesis by (simp add: PacketHeader_parse_def HEADER_LEN_def descriptor_def l c f o)
qed

text \<open>
  A string written with a big-endian length prefix that counts its terminating NUL is read back
  with the NUL removed, and the bytes behind it are returned as the rest.
\<close>

theorem parse_pa_string_roundtrip:
  assumes "length s + 1 \<le> unat MAX_LEN"
  shows "parse_pa_string (to_be32 (of_nat (length s + 1)) @ s @ [0] @ rest) = Ok (s, rest)"
proof -
  let ?n = "of_nat (length s + 1) :: u32"
  obtain a b c d where n: "to_be32 ?n = [a, b, c, d]" "from_be32 a b c d = ?n" by (rule to_be32_ex)
  have "length s + 1 < 2 ^ 32" using assms by (simp add: MAX_LEN_def)
  then have u: "unat ?n = length s + 1" unfolding unat_of_nat by simp
  then have "\<not> MAX_LEN < ?n" using assms by (simp add: word_less_nat_alt)
  with n u show ?thesis unfolding parse_pa_string_def n(1) by (simp add: Let_def strip_nul_def butlast_append drop_Cons')
qed

theorem parse_pa_string_roundtrip_witness:
  "parse_pa_string (to_be32 (of_nat (length (str_bytes ''cookie'') + 1)) @ str_bytes ''cookie'' @ [0] @ [9, 9]) =
   Ok (str_bytes ''cookie'', [9, 9])"
  by (rule parse_pa_string_roundtrip) (simp add: str_bytes_def MAX_LEN_def)

end
