(* ===== verification/Pulse_Tags.thy ===== *)
theory Pulse_Tags
  imports Pulse_Codec
begin

text \<open>
  The tagstruct writer and reader of \<open>gw-pulse/src/tags.rs\<close>. A writer method is the bytes it appends,
  \<open>None\<close> when its length conversion panics. The reader's cursor is the unread suffix of the input; a
  failing read keeps what it had consumed. (The reader's check that \<open>pos + n\<close> does not overflow a
  \<open>usize\<close> cannot fail: a slice is shorter than \<open>2^63\<close> bytes and \<open>n\<close> is at most \<open>MAX_LEN\<close>.)

  The interface \<open>tag_field\<close> is what a writer and a reader of one field promise each other; every field
  of the format is an interpretation of it.
\<close>

section \<open>Tags\<close>

definition TAG_U32 :: u8 where "TAG_U32 = of_char CHR ''L''"
definition TAG_U8 :: u8 where "TAG_U8 = of_char CHR ''B''"
definition TAG_BOOLEAN_TRUE :: u8 where "TAG_BOOLEAN_TRUE = of_char CHR ''1''"
definition TAG_BOOLEAN_FALSE :: u8 where "TAG_BOOLEAN_FALSE = of_char CHR ''0''"
definition TAG_STRING :: u8 where "TAG_STRING = of_char CHR ''t''"
definition TAG_STRING_NULL :: u8 where "TAG_STRING_NULL = of_char CHR ''N''"
definition TAG_ARBITRARY :: u8 where "TAG_ARBITRARY = of_char CHR ''x''"
definition TAG_U64 :: u8 where "TAG_U64 = of_char CHR ''R''"
definition TAG_PROPLIST :: u8 where "TAG_PROPLIST = of_char CHR ''P''"
definition TAG_VOLUME :: u8 where "TAG_VOLUME = of_char CHR ''v''"
definition TAG_SAMPLE_SPEC :: u8 where "TAG_SAMPLE_SPEC = of_char CHR ''a''"
definition TAG_CHANNEL_MAP :: u8 where "TAG_CHANNEL_MAP = of_char CHR ''m''"
definition TAG_CVOLUME :: u8 where "TAG_CVOLUME = of_char CHR ''v''"

lemmas tag_defs = TAG_U32_def TAG_U8_def TAG_BOOLEAN_TRUE_def TAG_BOOLEAN_FALSE_def TAG_STRING_def
  TAG_STRING_NULL_def TAG_ARBITRARY_def TAG_U64_def TAG_PROPLIST_def TAG_VOLUME_def TAG_SAMPLE_SPEC_def
  TAG_CHANNEL_MAP_def TAG_CVOLUME_def

section \<open>Writer\<close>

definition put_u32 :: "u32 \<Rightarrow> bytes" where
  "put_u32 v = TAG_U32 # to_be32 v"

definition put_u8 :: "u8 \<Rightarrow> bytes" where
  "put_u8 v = [TAG_U8, v]"

definition put_boolean :: "bool \<Rightarrow> bytes" where
  "put_boolean v = [if v then TAG_BOOLEAN_TRUE else TAG_BOOLEAN_FALSE]"

definition put_string :: "bytes \<Rightarrow> bytes" where
  "put_string v = TAG_STRING # v @ [0]"

definition put_string_null :: bytes where
  "put_string_null = [TAG_STRING_NULL]"

definition put_arbitrary :: "bytes \<Rightarrow> bytes option" where
  "put_arbitrary d = (if length d < 2 ^ 32 then Some (TAG_ARBITRARY # to_be32 (of_nat (length d)) @ d) else None)"

definition put_u64 :: "u64 \<Rightarrow> bytes" where
  "put_u64 v = TAG_U64 # to_be64 v"

primrec put_pairs :: "(bytes \<times> bytes) list \<Rightarrow> bytes option" where
  "put_pairs [] = Some []"
| "put_pairs (kv # kvs) =
     (if length (snd kv) < 2 ^ 32 then
        (case (put_arbitrary (snd kv), put_pairs kvs) of
           (Some a, Some r) \<Rightarrow> Some (put_string (fst kv) @ put_u32 (of_nat (length (snd kv))) @ a @ r)
         | _ \<Rightarrow> None)
      else None)"

definition put_proplist :: "(bytes \<times> bytes) list \<Rightarrow> bytes option" where
  "put_proplist pairs = map_option (\<lambda>b. TAG_PROPLIST # b @ put_string_null) (put_pairs pairs)"

definition put_sample_spec :: "u32 \<Rightarrow> u8 \<Rightarrow> u8 \<Rightarrow> bytes" where
  "put_sample_spec sample_rate channels fmt = TAG_SAMPLE_SPEC # fmt # channels # to_be32 sample_rate"

definition put_channel_map :: "bytes \<Rightarrow> bytes option" where
  "put_channel_map positions =
     (if length positions < 256 then Some (TAG_CHANNEL_MAP # of_nat (length positions) # positions) else None)"

definition put_volume :: "u32 \<Rightarrow> bytes" where
  "put_volume v = TAG_VOLUME # to_be32 v"

definition put_cvolume :: "u32 list \<Rightarrow> bytes option" where
  "put_cvolume volumes =
     (if length volumes < 256 then
        Some (TAG_CVOLUME # of_nat (length volumes) # concat (map to_be32 volumes))
      else None)"

section \<open>Reader\<close>

type_synonym 'a reader = "(bytes, PulseError, 'a) io"

definition take_n :: "nat \<Rightarrow> bytes reader" where
  "take_n n s = (if length s < n then (Err Truncated, s) else (Ok (take n s), drop n s))"

definition peek_byte :: "u8 reader" where
  "peek_byte s = (case s of [] \<Rightarrow> (Err Truncated, s) | b # _ \<Rightarrow> (Ok b, s))"

definition expect_tag :: "u8 \<Rightarrow> unit reader" where
  "expect_tag expected = sbind (take_n 1) (\<lambda>b. if b ! 0 \<noteq> expected then sfail (InvalidTag (b ! 0)) else sreturn ())"

definition read_u32 :: "u32 reader" where
  "read_u32 = sbind (expect_tag TAG_U32) (\<lambda>_. sbind (take_n 4) (\<lambda>b.
     sreturn (from_be32 (b ! 0) (b ! 1) (b ! 2) (b ! 3))))"

definition read_u8 :: "u8 reader" where
  "read_u8 = sbind (expect_tag TAG_U8) (\<lambda>_. sbind (take_n 1) (\<lambda>b. sreturn (b ! 0)))"

definition read_boolean :: "bool reader" where
  "read_boolean = sbind (take_n 1) (\<lambda>b.
     if b ! 0 = TAG_BOOLEAN_TRUE then sreturn True
     else if b ! 0 = TAG_BOOLEAN_FALSE then sreturn False
     else sfail (InvalidTag (b ! 0)))"

text \<open>The scan for the terminating NUL.\<close>

definition read_cstring :: "bytes reader" where
  "read_cstring s =
     (let str = takeWhile (\<lambda>b. b \<noteq> 0) s in
      if length str = length s then (Err Truncated, s)
      else if length str > unat MAX_LEN then (Err Oversized, s)
      else if \<not> utf8_valid str then (Err InvalidUtf8, s)
      else (Ok str, drop (length str + 1) s))"

definition read_string :: "bytes option reader" where
  "read_string = sbind (take_n 1) (\<lambda>b.
     if b ! 0 = TAG_STRING_NULL then sreturn None
     else if b ! 0 = TAG_STRING then sbind read_cstring (\<lambda>str. sreturn (Some str))
     else sfail (InvalidTag (b ! 0)))"

definition read_arbitrary :: "bytes reader" where
  "read_arbitrary = sbind (expect_tag TAG_ARBITRARY) (\<lambda>_. sbind (take_n 4) (\<lambda>b.
     let len = from_be32 (b ! 0) (b ! 1) (b ! 2) (b ! 3) in
     if len > MAX_LEN then sfail Oversized else take_n (unat len)))"

definition read_u64 :: "u64 reader" where
  "read_u64 = sbind (expect_tag TAG_U64) (\<lambda>_. sbind (take_n 8) (\<lambda>b.
     sreturn (from_be64 (b ! 0) (b ! 1) (b ! 2) (b ! 3) (b ! 4) (b ! 5) (b ! 6) (b ! 7))))"

text \<open>The body of one turn of the proplist loop, for an entry.\<close>

definition read_pair :: "(bytes \<times> bytes) reader" where
  "read_pair = sbind read_string (\<lambda>key. sbind read_u32 (\<lambda>len.
     if unat len > unat MAX_LEN then sfail Oversized
     else sbind read_arbitrary (\<lambda>blob.
       if length blob \<noteq> unat len then sfail Truncated
       else if \<not> utf8_valid blob then sfail InvalidUtf8
       else sreturn (case key of Some k \<Rightarrow> k | None \<Rightarrow> [], blob))))"

definition read_sample_spec :: "(u32 \<times> u8 \<times> u8) reader" where
  "read_sample_spec = sbind (expect_tag TAG_SAMPLE_SPEC) (\<lambda>_. sbind (take_n 6) (\<lambda>b.
     sreturn (from_be32 (b ! 2) (b ! 3) (b ! 4) (b ! 5), b ! 1, b ! 0)))"

definition read_volume :: "u32 reader" where
  "read_volume = sbind (expect_tag TAG_VOLUME) (\<lambda>_. sbind (take_n 4) (\<lambda>b.
     sreturn (from_be32 (b ! 0) (b ! 1) (b ! 2) (b ! 3))))"

definition read_cvolume :: "u32 list reader" where
  "read_cvolume = sbind (expect_tag TAG_CVOLUME) (\<lambda>_. sbind (take_n 1) (\<lambda>c.
     let count = unat (c ! 0) in
     if count > unat MAX_LEN then sfail Oversized
     else sbind (take_n (count * 4)) (\<lambda>b.
       sreturn (map (\<lambda>i. from_be32 (b ! (i * 4)) (b ! (i * 4 + 1)) (b ! (i * 4 + 2)) (b ! (i * 4 + 3)))
         [0..<count]))))"

definition read_u8_raw :: "u8 reader" where
  "read_u8_raw = sbind (take_n 1) (\<lambda>b. sreturn (b ! 0))"

definition read_channel_map :: "bytes reader" where
  "read_channel_map = sbind (expect_tag TAG_CHANNEL_MAP) (\<lambda>_. sbind read_u8_raw (\<lambda>count. take_n (unat count)))"

definition skip_channel_map :: "unit reader" where
  "skip_channel_map = sbind read_channel_map (\<lambda>_. sreturn ())"

text \<open>A read never gives back input; one that starts with a tag consumes it.\<close>

definition consuming :: "'a reader \<Rightarrow> bool" where
  "consuming m \<longleftrightarrow> (\<forall>s. length (snd (m s)) \<le> length s)"

lemma consuming_basic [simp]: "consuming (take_n n)" "consuming (sreturn x)" "consuming (sfail e)"
  "consuming read_cstring"
  by (auto simp: consuming_def take_n_def read_cstring_def Let_def)

lemma consuming_sbind [simp]: "consuming m \<Longrightarrow> (\<And>x. consuming (f x)) \<Longrightarrow> consuming (sbind m f)"
proof (unfold consuming_def, intro allI)
  fix s assume m: "\<forall>s. length (snd (m s)) \<le> length s" and f: "\<And>x. \<forall>s. length (snd (f x s)) \<le> length s"
  obtain r s' where r: "m s = (r, s')" by fastforce
  then have "length s' \<le> length s" using m by (metis snd_conv)
  moreover have "length (snd (f x s')) \<le> length s'" for x using f by blast
  ultimately show "length (snd (sbind m f s)) \<le> length s"
    by (cases r) (simp_all add: sbind_def r le_trans [of _ "length s'"])
qed

lemma consuming_if [simp]: "consuming m \<Longrightarrow> consuming n \<Longrightarrow> consuming (if b then m else n)"
  by simp

lemma consuming_readers [simp]:
  "consuming (expect_tag t)" "consuming read_u32" "consuming read_string" "consuming read_arbitrary"
  "consuming read_pair"
  by (simp_all add: expect_tag_def read_u32_def read_string_def read_arbitrary_def read_pair_def Let_def)

lemma read_string_shrinks: "read_string s = (Ok k, t) \<Longrightarrow> length t < length s"
proof -
  assume "read_string s = (Ok k, t)"
  then obtain b u where u: "take_n 1 s = (Ok b, u)" and rest:
    "(if b ! 0 = TAG_STRING_NULL then sreturn None
      else if b ! 0 = TAG_STRING then sbind read_cstring (\<lambda>str. sreturn (Some str))
      else sfail (InvalidTag (b ! 0))) u = (Ok k, t)"
    unfolding read_string_def sbind_eq_Ok_iff [where m = "take_n 1"] by blast
  have "length u < length s" using u by (auto simp: take_n_def split: if_splits)
  moreover have "consuming (if b ! 0 = TAG_STRING_NULL then sreturn None
      else if b ! 0 = TAG_STRING then sbind read_cstring (\<lambda>str. sreturn (Some str))
      else sfail (InvalidTag (b ! 0)))" by simp
  then have "length t \<le> length u" using rest unfolding consuming_def by (metis snd_conv)
  ultimately show ?thesis by simp
qed

lemma read_pair_shrinks:
  assumes "read_pair s = (Ok kv, s')"
  shows "length s' < length s"
proof -
  define g where "g = (\<lambda>key :: bytes option. sbind read_u32 (\<lambda>len.
     if unat len > unat MAX_LEN then sfail Oversized
     else sbind read_arbitrary (\<lambda>blob.
       if length blob \<noteq> unat len then sfail Truncated
       else if \<not> utf8_valid blob then sfail InvalidUtf8
       else sreturn (case key of Some k \<Rightarrow> k | None \<Rightarrow> [], blob))))"
  obtain k t where k: "read_string s = (Ok k, t)" and g: "g k t = (Ok kv, s')"
    using assms unfolding read_pair_def g_def [symmetric] sbind_eq_Ok_iff by blast
  have "consuming (g k)" by (simp add: g_def)
  then have "length s' \<le> length t" using g unfolding consuming_def by (metis snd_conv)
  then show ?thesis using read_string_shrinks [OF k] by simp
qed

text \<open>The proplist loop: each entry consumes input, so it ends.\<close>

function read_pairs :: "(bytes \<times> bytes) list reader" where
  "read_pairs s =
     (case peek_byte s of
        (Inl e, s') \<Rightarrow> (Err e, s')
      | (Inr b, s') \<Rightarrow>
          if b = TAG_STRING then
            (case read_pair s' of
               (Inl e, t) \<Rightarrow> (Err e, t)
             | (Inr kv, t) \<Rightarrow>
                 (case read_pairs t of
                    (Inl e, u) \<Rightarrow> (Err e, u)
                  | (Inr kvs, u) \<Rightarrow> (Ok (kv # kvs), u)))
          else if b = TAG_STRING_NULL then sbind (take_n 1) (\<lambda>_. sreturn []) s'
          else (Err (InvalidTag b), s'))"
  by auto
termination
  by (relation "measure length")
    (auto dest: read_pair_shrinks [OF sym] simp: peek_byte_def split: list.splits)

declare read_pairs.simps [simp del]

definition read_proplist :: "(bytes \<times> bytes) list reader" where
  "read_proplist = sbind (expect_tag TAG_PROPLIST) (\<lambda>_. read_pairs)"

section \<open>Fields\<close>

text \<open>
  The contract of one field: what the writer accepts (\<open>ok\<close>) it writes, and the reader returns it and
  leaves exactly the bytes behind it.
\<close>

locale tag_field =
  fixes put :: "'a \<Rightarrow> bytes option"
    and get :: "'a reader"
    and ok :: "'a \<Rightarrow> bool"
  assumes put_total: "ok x \<Longrightarrow> \<exists>b. put x = Some b"
    and get_put: "ok x \<Longrightarrow> put x = Some b \<Longrightarrow> get (b @ rest) = (Ok x, rest)"
begin

text \<open>Encodings are prefix-free: a byte string starts with at most one field.\<close>

lemma put_prefix_free:
  assumes "ok x" "ok y" "put x = Some b" "put y = Some c" "b @ r = c @ s"
  shows "x = y \<and> b = c \<and> r = s"
proof -
  have "get (b @ r) = (Ok x, r)" "get (c @ s) = (Ok y, s)" using assms get_put by blast+
  then have "x = y" "r = s" using assms by auto
  then show ?thesis using assms by simp
qed

text \<open>Two fields in a row, read by one reader after the other.\<close>

lemma get_put_then:
  assumes "ok x" "put x = Some b" "k x rest = r"
  shows "sbind get k (b @ rest) = r"
  by (simp add: sbind_def get_put [OF assms(1,2)] assms(3))

end

lemma expect_tag_Cons [simp]: "expect_tag t (t # s) = (Ok (), s)"
  by (simp add: expect_tag_def sbind_def take_n_def)

lemma take_n_append [simp]: "length xs = n \<Longrightarrow> take_n n (xs @ s) = (Ok xs, s)"
  by (simp add: take_n_def)

lemma take_n_1 [simp]: "take_n 1 (b # s) = (Ok [b], s)" "take_n (Suc 0) (b # s) = (Ok [b], s)"
  by (simp_all add: take_n_def)

lemma be32_nth [simp]: "from_be32 (to_be32 v ! 0) (to_be32 v ! Suc 0) (to_be32 v ! 2) (to_be32 v ! 3) = v"
  by (rule to_be32_ex [of v]) simp

lemma read_u32_put: "read_u32 (put_u32 v @ s) = (Ok v, s)"
  by (simp add: read_u32_def put_u32_def sbind_def)

lemma read_volume_put: "read_volume (put_volume v @ s) = (Ok v, s)"
  by (simp add: read_volume_def put_volume_def sbind_def)

interpretation u32: tag_field "\<lambda>v. Some (put_u32 v)" read_u32 "\<lambda>_. True"
  by unfold_locales (auto simp: read_u32_put)

interpretation u8: tag_field "\<lambda>v. Some (put_u8 v)" read_u8 "\<lambda>_. True"
  by unfold_locales (auto simp: read_u8_def put_u8_def sbind_def)

interpretation boolean: tag_field "\<lambda>v. Some (put_boolean v)" read_boolean "\<lambda>_. True"
  by unfold_locales (auto simp: read_boolean_def put_boolean_def sbind_def tag_defs)

interpretation volume: tag_field "\<lambda>v. Some (put_volume v)" read_volume "\<lambda>_. True"
  by unfold_locales (auto simp: read_volume_put)

interpretation u64: tag_field "\<lambda>v. Some (put_u64 v)" read_u64 "\<lambda>_. True"
proof unfold_locales
  fix v b rest assume "Some (put_u64 v) = Some b"
  moreover obtain b1 b2 b3 b4 b5 b6 b7 b8 where
    "to_be64 v = [b1, b2, b3, b4, b5, b6, b7, b8]" "from_be64 b1 b2 b3 b4 b5 b6 b7 b8 = v"
    by (rule to_be64_ex)
  ultimately show "read_u64 (b @ rest) = (Ok v, rest)"
    by (auto simp: read_u64_def put_u64_def sbind_def take_n_def)
qed simp

text \<open>A string without NUL bytes and within the length limit.\<close>

definition cstring_ok :: "bytes \<Rightarrow> bool" where
  "cstring_ok s \<longleftrightarrow> utf8_valid s \<and> 0 \<notin> set s \<and> length s \<le> unat MAX_LEN"

definition put_opt_string :: "bytes option \<Rightarrow> bytes" where
  "put_opt_string v = (case v of Some s \<Rightarrow> put_string s | None \<Rightarrow> put_string_null)"

lemma read_cstring_put: "cstring_ok s \<Longrightarrow> read_cstring (s @ 0 # rest) = (Ok s, rest)"
proof -
  assume s: "cstring_ok s"
  then have "takeWhile (\<lambda>b. b \<noteq> 0) (s @ 0 # rest) = s"
    by (subst takeWhile_append2) (auto simp: cstring_ok_def)
  then show ?thesis using s by (simp add: read_cstring_def Let_def cstring_ok_def)
qed

lemma read_string_put: "cstring_ok s \<Longrightarrow> read_string (put_string s @ rest) = (Ok (Some s), rest)"
  by (simp add: read_string_def put_string_def sbind_def read_cstring_put) (simp add: tag_defs)

lemma read_string_null_put: "read_string (put_string_null @ rest) = (Ok None, rest)"
  by (simp add: put_string_null_def read_string_def sbind_def)

interpretation string: tag_field "\<lambda>v. Some (put_opt_string v)" read_string
  "\<lambda>v. case v of Some s \<Rightarrow> cstring_ok s | None \<Rightarrow> True"
  by unfold_locales
    (auto simp: put_opt_string_def read_string_put read_string_null_put split: option.splits)

lemma unat_of_nat_MAX_LEN: "n \<le> unat MAX_LEN \<Longrightarrow> unat (of_nat n :: u32) = n \<and> \<not> MAX_LEN < of_nat n"
  by (simp add: MAX_LEN_def unat_of_nat word_less_nat_alt)

lemma read_arbitrary_put:
  assumes "length d \<le> unat MAX_LEN" "put_arbitrary d = Some b"
  shows "read_arbitrary (b @ rest) = (Ok d, rest)"
  using assms unat_of_nat_MAX_LEN [OF assms(1)]
  by (auto simp: read_arbitrary_def put_arbitrary_def sbind_def split: if_splits)

lemma put_arbitrary_total: "length d \<le> unat MAX_LEN \<Longrightarrow> \<exists>b. put_arbitrary d = Some b"
  by (simp add: put_arbitrary_def MAX_LEN_def)

interpretation arbitrary: tag_field put_arbitrary read_arbitrary "\<lambda>d. length d \<le> unat MAX_LEN"
  by unfold_locales (simp_all add: read_arbitrary_put put_arbitrary_total)

interpretation sample_spec: tag_field "\<lambda>(r, c, f). Some (put_sample_spec r c f)" read_sample_spec "\<lambda>_. True"
proof unfold_locales
  fix x b rest assume "(case x of (r, c, f) \<Rightarrow> Some (put_sample_spec r c f)) = Some b"
  moreover obtain b1 b2 b3 b4 where "to_be32 (fst x) = [b1, b2, b3, b4]" "from_be32 b1 b2 b3 b4 = fst x"
    by (rule to_be32_ex)
  ultimately show "read_sample_spec (b @ rest) = (Ok x, rest)"
    by (cases x) (auto simp: read_sample_spec_def put_sample_spec_def sbind_def take_n_def)
qed (simp split: prod.splits)

interpretation channel_map: tag_field put_channel_map read_channel_map "\<lambda>p. length p < 256"
proof unfold_locales
  fix p b rest assume "length p < 256" "put_channel_map p = Some b"
  then show "read_channel_map (b @ rest) = (Ok p, rest)"
    by (auto simp: read_channel_map_def put_channel_map_def read_u8_raw_def sbind_def unat_of_nat)
qed (simp add: put_channel_map_def)

interpretation cvolume: tag_field put_cvolume read_cvolume "\<lambda>v. length v < 256"
proof unfold_locales
  fix v b rest assume v: "length v < 256" and b: "put_cvolume v = Some b"
  let ?bs = "concat (map to_be32 v)"
  have n: "unat (of_nat (length v) :: u8) = length v" using v by (simp add: unat_of_nat)
  have "length ?bs = length v * 4" by (simp add: length_concat_const [where k = 4])
  then have take: "take_n (length v * 4) (?bs @ rest) = (Ok ?bs, rest)" by simp
  have "?bs ! (i * 4 + j) = to_be32 (v ! i) ! j" if "i < length v" "j < 4" for i j
    using that by (intro concat_block_nth) simp_all
  note nth = this [where j = 0] this [where j = 1] this [where j = 2] this [where j = 3]
  have "from_be32 (?bs ! (i * 4)) (?bs ! (i * 4 + 1)) (?bs ! (i * 4 + 2)) (?bs ! (i * 4 + 3)) = v ! i"
    if "i < length v" for i using nth that by simp
  then have "map (\<lambda>i. from_be32 (?bs ! (i * 4)) (?bs ! (i * 4 + 1)) (?bs ! (i * 4 + 2)) (?bs ! (i * 4 + 3)))
      [0..<length v] = v" by (intro nth_equalityI) simp_all
  moreover have "length v \<le> unat MAX_LEN" using v by (simp add: MAX_LEN_def)
  ultimately show "read_cvolume (b @ rest) = (Ok v, rest)"
    using v b n take by (auto simp: read_cvolume_def put_cvolume_def sbind_def Let_def)
qed (simp add: put_cvolume_def)

definition pair_ok :: "bytes \<times> bytes \<Rightarrow> bool" where
  "pair_ok kv \<longleftrightarrow> cstring_ok (fst kv) \<and> utf8_valid (snd kv) \<and> length (snd kv) \<le> unat MAX_LEN"

lemma read_pair_put:
  assumes "pair_ok kv" "put_arbitrary (snd kv) = Some a"
  shows "read_pair (put_string (fst kv) @ put_u32 (of_nat (length (snd kv))) @ a @ rest) = (Ok kv, rest)"
proof -
  have n: "unat (of_nat (length (snd kv)) :: u32) = length (snd kv)"
    using assms unat_of_nat_MAX_LEN [of "length (snd kv)"] by (simp add: pair_ok_def)
  have "read_string (put_string (fst kv) @ s) = (Ok (Some (fst kv)), s)" for s
    using assms by (simp add: pair_ok_def read_string_put)
  moreover have "read_arbitrary (a @ rest) = (Ok (snd kv), rest)"
    using assms by (simp add: pair_ok_def read_arbitrary_put)
  ultimately show ?thesis
    using assms by (simp add: read_pair_def sbind_def read_u32_put n pair_ok_def)
qed

lemma put_pairs_total: "list_all pair_ok kvs \<Longrightarrow> \<exists>b. put_pairs kvs = Some b"
proof (induction kvs)
  case (Cons kv kvs)
  then obtain a r where "put_arbitrary (snd kv) = Some a" "put_pairs kvs = Some r"
    using put_arbitrary_total [of "snd kv"] by (auto simp: pair_ok_def)
  moreover have "length (snd kv) < 2 ^ 32" using Cons.prems by (simp add: pair_ok_def MAX_LEN_def)
  ultimately show ?case by simp
qed simp

lemma read_pairs_put:
  "list_all pair_ok kvs \<Longrightarrow> put_pairs kvs = Some b \<Longrightarrow>
   read_pairs (b @ put_string_null @ rest) = (Ok kvs, rest)"
proof (induction kvs arbitrary: b)
  case Nil
  have "TAG_STRING_NULL \<noteq> TAG_STRING" by (simp add: tag_defs)
  then show ?case using Nil
    by (subst read_pairs.simps) (simp add: put_string_null_def peek_byte_def sbind_def)
next
  case (Cons kv kvs)
  then obtain a r where a: "put_arbitrary (snd kv) = Some a" and r: "put_pairs kvs = Some r"
    and b: "b = put_string (fst kv) @ put_u32 (of_nat (length (snd kv))) @ a @ r"
    by (auto split: option.splits if_splits)
  have "read_pair (b @ put_string_null @ rest) = (Ok kv, r @ put_string_null @ rest)"
    using read_pair_put [OF _ a, of "r @ put_string_null @ rest"] Cons.prems by (simp add: b)
  moreover have "peek_byte (b @ put_string_null @ rest) = (Ok TAG_STRING, b @ put_string_null @ rest)"
    by (simp add: b put_string_def peek_byte_def)
  ultimately show ?case
    using Cons.IH [OF _ r] Cons.prems by (subst read_pairs.simps) simp
qed

interpretation proplist: tag_field put_proplist read_proplist "list_all pair_ok"
proof unfold_locales
  fix kvs assume ok: "list_all pair_ok kvs"
  show "\<exists>b. put_proplist kvs = Some b" using put_pairs_total [OF ok] by (auto simp: put_proplist_def)
  fix b rest assume "put_proplist kvs = Some b"
  then obtain p where p: "put_pairs kvs = Some p" and b: "b = TAG_PROPLIST # p @ put_string_null"
    by (auto simp: put_proplist_def)
  show "read_proplist (b @ rest) = (Ok kvs, rest)"
    using read_pairs_put [OF ok p, of rest] by (simp add: read_proplist_def sbind_def b)
qed

text \<open>
  C21: Every property list whose keys are NUL-free UTF-8 strings and whose values are UTF-8, none longer
  than the limit, is written and read back unchanged, with exactly its own bytes consumed.
\<close>

theorem proplist_roundtrip:
  assumes "list_all pair_ok kvs"
  shows "\<exists>b. put_proplist kvs = Some b \<and> read_proplist (b @ rest) = (Ok kvs, rest)"
  using proplist.put_total [OF assms] proplist.get_put [OF assms] by blast

theorem proplist_roundtrip_witness:
  "\<exists>b. put_proplist [(str_bytes ''media.name'', str_bytes ''x''), (str_bytes ''a'', [])] = Some b \<and>
     read_proplist (b @ [1, 2]) = (Ok [(str_bytes ''media.name'', str_bytes ''x''), (str_bytes ''a'', [])], [1, 2])"
  by (rule proplist_roundtrip) (simp add: pair_ok_def cstring_ok_def str_bytes_def MAX_LEN_def)

end
