(* ===== verification/Byte_Stream.thy ===== *)
theory Byte_Stream
  imports Prelude
begin

text \<open>
  Byte streams (\<open>io::Read\<close> and \<open>io::Write\<close> on a socket), which the PulseAudio client and the ALSA
  bridge talk over. A socket is a parameter of the code that uses it: a type \<open>'k\<close> of stream states
  with \<open>write_all\<close> and \<open>read_exact\<close>, whose errors are the text of the I/O error.
\<close>

record 'k stream_ops =
  write_all :: "bytes \<Rightarrow> ('k, string, unit) io"
  read_exact :: "nat \<Rightarrow> ('k, string, bytes) io"

text \<open>
  What a stream promises: \<open>inbox\<close> are the bytes it will deliver. \<open>read_exact\<close> returns the first
  \<open>n\<close> of them when there are that many; a write succeeds, appends to the bytes \<open>sent\<close> and delivers
  nothing.
\<close>

definition reads :: "'k stream_ops \<Rightarrow> ('k \<Rightarrow> bytes) \<Rightarrow> bool" where
  "reads ops inbox \<longleftrightarrow>
     (\<forall>k n. n \<le> length (inbox k) \<longrightarrow>
        (\<exists>k'. read_exact ops n k = (Ok (take n (inbox k)), k') \<and> inbox k' = drop n (inbox k)))"

definition writes :: "'k stream_ops \<Rightarrow> ('k \<Rightarrow> bytes) \<Rightarrow> ('k \<Rightarrow> bytes) \<Rightarrow> bool" where
  "writes ops inbox sent \<longleftrightarrow>
     (\<forall>k b. \<exists>k'. write_all ops b k = (Ok (), k') \<and> inbox k' = inbox k \<and> sent k' = sent k @ b)"

lemma read_exact_append:
  assumes "reads ops inbox" "inbox k = a @ b" "length a = n"
  obtains k' where "read_exact ops n k = (Ok a, k')" "inbox k' = b"
proof -
  have "n \<le> length (inbox k)" using assms by simp
  then show thesis using assms that unfolding reads_def by fastforce
qed

lemma write_all_sent:
  assumes "writes ops inbox sent"
  obtains k' where "write_all ops b k = (Ok (), k')" "inbox k' = inbox k" "sent k' = sent k @ b"
  using assms unfolding writes_def by blast

text \<open>A stream of two byte queues: the bytes to deliver and the bytes written.\<close>

definition list_stream :: "(bytes \<times> bytes) stream_ops" where
  "list_stream =
     \<lparr>write_all = (\<lambda>b k. (Ok (), (fst k, snd k @ b))),
      read_exact = (\<lambda>n k. if n \<le> length (fst k) then (Ok (take n (fst k)), (drop n (fst k), snd k))
        else (Err ''failed to fill whole buffer'', ([], snd k)))\<rparr>"

lemma list_stream_laws: "reads list_stream fst" "writes list_stream fst snd"
  by (simp_all add: reads_def writes_def list_stream_def)

end
