(* ===== verification/Pulse_Daemon.thy ===== *)
theory Pulse_Daemon
  imports Pulse_Tags Byte_Stream
begin

text \<open>
  The PulseAudio client of \<open>gw-pulse/src/daemon.rs\<close>: framing, requests, the handshake and the stream
  commands. The socket is a parameter: a type \<open>'k\<close> of stream states with \<open>write_all\<close> and \<open>read_exact\<close>,
  whose errors are the text of the I/O error. The five-second deadline of a request is the number of
  frames (\<open>fuel\<close>) that arrive before it passes. \<open>DaemonPanic\<close> stands for a panic of the calling
  thread (a length that does not fit its field).
\<close>

section \<open>Data\<close>

datatype PulseDaemonError =
    Io string
  | Protocol string
  | CodecError PulseError
  | NoServerSocket "string list"
  | Cookie string
  | Server u32 bytes
  | DaemonPanic

definition PROTOCOL_VERSION :: u32 where
  "PROTOCOL_VERSION = 35"

definition AUTH_COOKIE_LEN :: nat where
  "AUTH_COOKIE_LEN = 256"

record Frame =
  fr_command :: u32
  fr_tag :: u32
  fr_payload :: bytes

record 'k PulseDaemon =
  pd_stream :: 'k
  pd_socket_path :: string
  pd_next_tag :: u32
  pd_server_version :: u32

record RawSampleSpec =
  raw_sample_rate :: u32
  raw_channels :: u8
  raw_format :: u8

record PlaybackStream =
  pbs_index :: u32

record ServerInfo =
  user_name :: "bytes option"
  host_name :: "bytes option"
  server_version :: bytes
  server_name :: bytes
  default_sink_name :: "bytes option"
  default_source_name :: "bytes option"
  cookie :: u32
  sample_spec :: RawSampleSpec

text \<open>The derived \<open>Debug\<close> formatting of a codec error.\<close>

definition debug_PulseError :: "PulseError \<Rightarrow> string" where
  "debug_PulseError e =
     (case e of
        Truncated \<Rightarrow> ''Truncated''
      | InvalidTag b \<Rightarrow> ''InvalidTag('' @ show_word b @ '')''
      | InvalidSampleFormat b \<Rightarrow> ''InvalidSampleFormat('' @ show_word b @ '')''
      | Oversized \<Rightarrow> ''Oversized''
      | InvalidUtf8 \<Rightarrow> ''InvalidUtf8'')"

section \<open>Framing\<close>

definition write_frame ::
  "'k stream_ops \<Rightarrow> u32 \<Rightarrow> u32 \<Rightarrow> bytes \<Rightarrow> ('k, PulseDaemonError, unit) io" where
  "write_frame ops cmd tag tagstruct =
     (let body = [TAG_U32] @ to_be32 cmd @ [TAG_U32] @ to_be32 tag @ tagstruct in
      if length body \<ge> 2 ^ 32 then sfail DaemonPanic
      else smap_err Io
        (sbind (write_all ops (to_be32 (of_nat (length body)))) (\<lambda>_.
         sbind (write_all ops (to_be32 (- 1))) (\<lambda>_.
         sbind (write_all ops (to_be64 0)) (\<lambda>_.
         sbind (write_all ops (to_be32 0)) (\<lambda>_.
         write_all ops body))))))"

definition read_frame :: "'k stream_ops \<Rightarrow> ('k, PulseDaemonError, Frame) io" where
  "read_frame ops =
     sbind (smap_err Io (read_exact ops HEADER_LEN)) (\<lambda>desc.
     sbind (smap_err CodecError (slift (PacketHeader_parse desc))) (\<lambda>header.
     if \<not> PacketHeader_is_valid header then
       sfail (Protocol (''invalid frame length '' @ show_word (ph_length header)))
     else
       sbind (smap_err Io (read_exact ops (unat (ph_length header)))) (\<lambda>body.
       case read_u32 body of
         (Inl e, _) \<Rightarrow> sfail (Protocol (''reply command field: '' @ debug_PulseError e))
       | (Inr cmd, rest) \<Rightarrow>
           (case read_u32 rest of
              (Inl e, _) \<Rightarrow> sfail (Protocol (''reply tag field: '' @ debug_PulseError e))
            | (Inr tag, rest) \<Rightarrow>
                sreturn \<lparr>fr_command = cmd, fr_tag = tag, fr_payload = rest\<rparr>))))"

text \<open>One memblock: the descriptor with the stream's channel, then the samples little-endian.\<close>

definition write_memblock :: "'k stream_ops \<Rightarrow> u32 \<Rightarrow> u32 list \<Rightarrow> ('k, PulseDaemonError, unit) io" where
  "write_memblock ops channel samples =
     smap_err Io
       (sbind (write_all ops (to_be32 (of_nat (length samples * 4)))) (\<lambda>_.
        sbind (write_all ops (to_be32 channel)) (\<lambda>_.
        sbind (write_all ops (to_be64 0)) (\<lambda>_.
        sbind (write_all ops (to_be32 0)) (\<lambda>_.
        write_all ops (concat (map to_le32 samples)))))))"

text \<open>An error reply: a missing code is 0, a missing message a fixed text; a failed read keeps its place.\<close>

definition error_reply :: "Frame \<Rightarrow> PulseDaemonError" where
  "error_reply frame =
     (let (c, s) = read_u32 (fr_payload frame);
          code = (case c of Inl _ \<Rightarrow> 0 | Inr v \<Rightarrow> v);
          (m, _) = read_string s;
          message = (case m of Inr (Some t) \<Rightarrow> t | _ \<Rightarrow> str_bytes ''no message'')
      in Server code message)"

section \<open>Requests\<close>

primrec await_reply :: "'k stream_ops \<Rightarrow> u32 \<Rightarrow> nat \<Rightarrow> ('k, PulseDaemonError, Frame) io" where
  "await_reply ops tag 0 = sfail (Io ''timed out skipping unsolicited frames'')"
| "await_reply ops tag (Suc fuel) =
     sbind (read_frame ops) (\<lambda>frame.
       if fr_tag frame \<noteq> tag then await_reply ops tag fuel
       else if fr_command frame = command_ERROR \<or> fr_command frame = command_TIMEOUT
         then sfail (error_reply frame)
       else sreturn frame)"

definition request ::
  "'k stream_ops \<Rightarrow> nat \<Rightarrow> u32 \<Rightarrow> bytes \<Rightarrow> ('k PulseDaemon, PulseDaemonError, Frame) io" where
  "request ops fuel cmd tagstruct d =
     (let tag = pd_next_tag d;
          d = d\<lparr>pd_next_tag := tag + 1\<rparr>;
          (r, k) = sbind (write_frame ops cmd tag tagstruct) (\<lambda>_. await_reply ops tag fuel) (pd_stream d)
      in (r, d\<lparr>pd_stream := k\<rparr>))"

definition roundtrip ::
  "'k stream_ops \<Rightarrow> nat \<Rightarrow> u16 \<Rightarrow> bytes \<Rightarrow> ('k PulseDaemon, PulseDaemonError, u16 \<times> bytes) io" where
  "roundtrip ops fuel cmd body =
     sbind (request ops fuel (ucast cmd) body) (\<lambda>frame.
       if fr_command frame > 65535 then sfail (Protocol ''reply opcode exceeds u16'')
       else sreturn (ucast (fr_command frame), fr_payload frame))"

text \<open>Reading a reply's payload; its remaining bytes are ignored.\<close>

definition from_payload :: "'a reader \<Rightarrow> bytes \<Rightarrow> ('s, PulseDaemonError, 'a) io" where
  "from_payload m data = smap_err CodecError (slift (fst (m data)))"

definition expect_reply :: "string \<Rightarrow> Frame \<Rightarrow> ('s, PulseDaemonError, unit) io" where
  "expect_reply what frame =
     (if fr_command frame \<noteq> command_REPLY then
        sfail (Protocol (what @ show_word (fr_command frame)))
      else sreturn ())"

definition opt_panic :: "bytes option \<Rightarrow> ('s, PulseDaemonError, bytes) io" where
  "opt_panic b = (case b of None \<Rightarrow> sfail DaemonPanic | Some bs \<Rightarrow> sreturn bs)"

section \<open>Handshake\<close>

definition auth_body :: "bytes option \<Rightarrow> bytes option" where
  "auth_body ck =
     (case ck of
        None \<Rightarrow> Some (put_u32 PROTOCOL_VERSION)
      | Some c \<Rightarrow> map_option (\<lambda>a. put_u32 PROTOCOL_VERSION @ a) (put_arbitrary c))"

definition auth :: "'k stream_ops \<Rightarrow> nat \<Rightarrow> bytes option \<Rightarrow> ('k PulseDaemon, PulseDaemonError, unit) io" where
  "auth ops fuel ck =
     sbind (opt_panic (auth_body ck)) (\<lambda>body.
     sbind (request ops fuel command_AUTH body) (\<lambda>frame.
     sbind (expect_reply (''AUTH: expected REPLY ('' @ show_word command_REPLY @ ''), got '') frame) (\<lambda>_.
     sbind (from_payload read_u32 (fr_payload frame)) (\<lambda>v d.
       (Ok (), d\<lparr>pd_server_version := v\<rparr>)))))"

definition client_proplist :: "bytes \<Rightarrow> (bytes \<times> bytes) list" where
  "client_proplist pid =
     [(str_bytes ''application.name'', str_bytes ''sonicbrew gw-pulse''),
      (str_bytes ''application.process.id'', pid)]"

definition set_client_name :: "'k stream_ops \<Rightarrow> nat \<Rightarrow> bytes \<Rightarrow> ('k PulseDaemon, PulseDaemonError, unit) io" where
  "set_client_name ops fuel pid =
     sbind (opt_panic (put_proplist (client_proplist pid))) (\<lambda>body.
     sbind (request ops fuel command_SET_CLIENT_NAME body) (\<lambda>frame.
     sbind (expect_reply (''SET_CLIENT_NAME: expected REPLY ('' @ show_word command_REPLY @ ''), got '') frame) (\<lambda>_.
       if fr_payload frame \<noteq> [] then sbind (from_payload read_u32 (fr_payload frame)) (\<lambda>_. sreturn ())
       else sreturn ())))"

text \<open>\<open>connected\<close> is the result of connecting and setting the timeouts.\<close>

definition connect_with_cookie ::
  "'k stream_ops \<Rightarrow> nat \<Rightarrow> bytes \<Rightarrow> (string \<Rightarrow> string + 'k) \<Rightarrow> string \<Rightarrow> bytes option
   \<Rightarrow> PulseDaemonError + 'k PulseDaemon" where
  "connect_with_cookie ops fuel pid connected path ck =
     rbind
       (case ck of
          Some c \<Rightarrow>
            if length c \<noteq> AUTH_COOKIE_LEN then
              Err (Cookie (''explicit cookie must be '' @ show_nat AUTH_COOKIE_LEN @ '' bytes, got ''
                @ show_nat (length c)))
            else Ok ()
        | None \<Rightarrow> Ok ())
       (\<lambda>_.
     rbind (map_err Io (connected path)) (\<lambda>k.
       let d = \<lparr>pd_stream = k, pd_socket_path = path, pd_next_tag = 1, pd_server_version = 0\<rparr> in
       case sbind (auth ops fuel ck) (\<lambda>_. set_client_name ops fuel pid) d of
         (Inl e, _) \<Rightarrow> Err e
       | (Inr _, d) \<Rightarrow> Ok d))"

section \<open>Streams\<close>

text \<open>The body of \<open>CREATE_PLAYBACK_STREAM\<close>, field by field.\<close>

definition create_playback_body :: "bytes \<Rightarrow> bytes option \<Rightarrow> u32 \<Rightarrow> u8 \<Rightarrow> bytes option" where
  "create_playback_body name sink rate channels =
     (case (put_channel_map (map of_nat [0..<unat channels]),
            put_cvolume (replicate (unat channels) command_VOLUME_NORM),
            put_proplist [(str_bytes ''media.name'', name),
                          (str_bytes ''application.name'', str_bytes ''sonicbrew gw-pulse'')]) of
        (Some cm, Some cv, Some pl) \<Rightarrow> Some
          (put_sample_spec rate channels command_SAMPLE_FLOAT32LE @ cm @ put_u32 (- 1)
           @ (case sink of Some s \<Rightarrow> put_string s | None \<Rightarrow> put_string_null)
           @ put_u32 (- 1) @ put_boolean False @ put_u32 (- 1) @ put_u32 (- 1) @ put_u32 (- 1) @ put_u32 0
           @ cv
           @ concat (replicate 7 (put_boolean False))
           @ put_boolean False @ put_boolean False @ pl
           @ put_boolean True @ put_boolean False
           @ put_boolean False @ put_boolean False @ put_boolean False
           @ put_boolean False @ put_boolean False
           @ put_u8 0)
      | _ \<Rightarrow> None)"

definition create_playback_stream ::
  "'k stream_ops \<Rightarrow> nat \<Rightarrow> bytes \<Rightarrow> bytes option \<Rightarrow> u32 \<Rightarrow> u8
   \<Rightarrow> ('k PulseDaemon, PulseDaemonError, PlaybackStream) io" where
  "create_playback_stream ops fuel name sink rate channels d =
     (if pd_server_version d < 13 then (Err (Protocol ''playback streams need protocol >= 13''), d)
      else
        sbind (opt_panic (create_playback_body name sink rate channels)) (\<lambda>body.
        sbind (request ops fuel command_CREATE_PLAYBACK_STREAM body) (\<lambda>frame.
        sbind (expect_reply ''CREATE_PLAYBACK_STREAM: expected REPLY, got '' frame) (\<lambda>_.
        sbind (from_payload read_u32 (fr_payload frame)) (\<lambda>index.
        sreturn \<lparr>pbs_index = index\<rparr>)))) d)"

definition on_stream :: "('k, 'e, 'a) io \<Rightarrow> ('k PulseDaemon, 'e, 'a) io" where
  "on_stream m d = (let (r, k) = m (pd_stream d) in (r, d\<lparr>pd_stream := k\<rparr>))"

definition write_audio ::
  "'k stream_ops \<Rightarrow> PlaybackStream \<Rightarrow> u32 list \<Rightarrow> ('k PulseDaemon, PulseDaemonError, unit) io" where
  "write_audio ops stream samples = on_stream (write_memblock ops (pbs_index stream) samples)"

definition delete_playback_stream ::
  "'k stream_ops \<Rightarrow> nat \<Rightarrow> PlaybackStream \<Rightarrow> ('k PulseDaemon, PulseDaemonError, unit) io" where
  "delete_playback_stream ops fuel stream =
     sbind (request ops fuel command_DELETE_PLAYBACK_STREAM (put_u32 (pbs_index stream))) (\<lambda>frame.
     expect_reply ''DELETE_PLAYBACK_STREAM: expected REPLY, got '' frame)"

definition or_default :: "bytes option \<Rightarrow> bytes" where
  "or_default s = (case s of Some t \<Rightarrow> t | None \<Rightarrow> [])"

text \<open>The fields of a server-info reply; \<open>ver\<close> is the protocol version of the connection.\<close>

definition read_server_info :: "u32 \<Rightarrow> ServerInfo reader" where
  "read_server_info ver =
     sbind read_string (\<lambda>user. sbind read_string (\<lambda>host.
     sbind read_string (\<lambda>version. sbind read_string (\<lambda>name.
     sbind read_sample_spec (\<lambda>(rate, channels, fmt).
     sbind read_string (\<lambda>sink. sbind read_string (\<lambda>source.
     sbind read_u32 (\<lambda>ck.
     sbind (\<lambda>s. if ver \<ge> 15 \<and> s \<noteq> [] then skip_channel_map s else sreturn () s) (\<lambda>_.
     sreturn
       \<lparr>user_name = user, host_name = host, server_version = or_default version, server_name = or_default name,
        default_sink_name = sink, default_source_name = source, cookie = ck,
        sample_spec = \<lparr>raw_sample_rate = rate, raw_channels = channels, raw_format = fmt\<rparr>\<rparr>)))))))))"

definition server_info :: "'k stream_ops \<Rightarrow> nat \<Rightarrow> ('k PulseDaemon, PulseDaemonError, ServerInfo) io" where
  "server_info ops fuel =
     sbind (request ops fuel command_QUERY_INFO []) (\<lambda>frame.
       if fr_command frame \<noteq> command_SERVER_INFO then
         sfail (Protocol (''expected SERVER_INFO ('' @ show_word command_SERVER_INFO @ ''), got ''
           @ show_word (fr_command frame)))
       else (\<lambda>d. from_payload (read_server_info (pd_server_version d)) (fr_payload frame) d))"

section \<open>Discovery\<close>

text \<open>\<open>Path::join\<close>.\<close>

definition path_join :: "string \<Rightarrow> string \<Rightarrow> string" where
  "path_join dir p =
     (if p \<noteq> [] \<and> hd p = CHR ''/'' then p
      else if dir = [] \<or> last dir = CHR ''/'' then dir @ p
      else dir @ ''/'' @ p)"

definition strip_prefix :: "string \<Rightarrow> string \<Rightarrow> string option" where
  "strip_prefix pre s = (if take (length pre) s = pre then Some (drop (length pre) s) else None)"

definition nonempty :: "string option \<Rightarrow> string option" where
  "nonempty v = (case v of Some s \<Rightarrow> if s = [] then None else Some s | None \<Rightarrow> None)"

definition opt_list :: "'a option \<Rightarrow> 'a list" where
  "opt_list v = (case v of Some x \<Rightarrow> [x] | None \<Rightarrow> [])"

definition socket_candidates_from :: "string option \<Rightarrow> string option \<Rightarrow> string list" where
  "socket_candidates_from pulse_server xdg_runtime_dir =
     opt_list (nonempty (Option.bind pulse_server (strip_prefix ''unix:'')))
     @ opt_list (map_option (\<lambda>dir. path_join (path_join dir ''pulse'') ''native'') (nonempty xdg_runtime_dir))
     @ [''/var/run/pulse/native'', ''/usr/local/var/run/pulse/native'', ''/tmp/pulse-native'']"

text \<open>\<open>scanned\<close> are the sockets found under \<open>/tmp\<close>.\<close>

definition socket_candidates :: "(string \<Rightarrow> string option) \<Rightarrow> string list \<Rightarrow> string list" where
  "socket_candidates env scanned =
     socket_candidates_from (env ''PULSE_SERVER'') (env ''XDG_RUNTIME_DIR'') @ scanned"

definition cookie_candidates_from :: "string option \<Rightarrow> string option \<Rightarrow> string list" where
  "cookie_candidates_from pulse_cookie home =
     opt_list (nonempty pulse_cookie)
     @ opt_list (map_option (\<lambda>h. path_join (path_join (path_join h ''.config'') ''pulse'') ''cookie'') (nonempty home))
     @ [''/usr/local/etc/pulse/cookie'']"

definition cookie_candidates :: "(string \<Rightarrow> string option) \<Rightarrow> string list" where
  "cookie_candidates env = cookie_candidates_from (env ''PULSE_COOKIE'') (env ''HOME'')"

datatype file_read = Contents bytes | Missing | ReadError string

definition load_cookie_file :: "(string \<Rightarrow> file_read) \<Rightarrow> string \<Rightarrow> PulseDaemonError + bytes option" where
  "load_cookie_file fs_read path =
     (case fs_read path of
        Contents b \<Rightarrow>
          if length b = AUTH_COOKIE_LEN then Ok (Some b)
          else Err (Cookie (path @ '': expected '' @ show_nat AUTH_COOKIE_LEN @ '' bytes, got '' @ show_nat (length b)))
      | Missing \<Rightarrow> Ok None
      | ReadError e \<Rightarrow> Err (Io e))"

primrec load_first_cookie :: "(string \<Rightarrow> file_read) \<Rightarrow> string list \<Rightarrow> PulseDaemonError + bytes option" where
  "load_first_cookie fs_read [] = Ok None"
| "load_first_cookie fs_read (c # cs) =
     rbind (load_cookie_file fs_read c) (\<lambda>r. case r of Some b \<Rightarrow> Ok (Some b) | None \<Rightarrow> load_first_cookie fs_read cs)"

definition load_default_cookie :: "(string \<Rightarrow> file_read) \<Rightarrow> (string \<Rightarrow> string option) \<Rightarrow> PulseDaemonError + bytes option" where
  "load_default_cookie fs_read env = load_first_cookie fs_read (cookie_candidates env)"

definition connect_to ::
  "'k stream_ops \<Rightarrow> nat \<Rightarrow> bytes \<Rightarrow> (string \<Rightarrow> string + 'k) \<Rightarrow> (string \<Rightarrow> file_read) \<Rightarrow> (string \<Rightarrow> string option)
   \<Rightarrow> string \<Rightarrow> PulseDaemonError + 'k PulseDaemon" where
  "connect_to ops fuel pid connected fs_read env path =
     rbind (load_default_cookie fs_read env) (\<lambda>ck. connect_with_cookie ops fuel pid connected path ck)"

definition connect ::
  "'k stream_ops \<Rightarrow> nat \<Rightarrow> bytes \<Rightarrow> (string \<Rightarrow> string + 'k) \<Rightarrow> (string \<Rightarrow> file_read) \<Rightarrow> (string \<Rightarrow> string option)
   \<Rightarrow> string list \<Rightarrow> (string \<Rightarrow> bool) \<Rightarrow> PulseDaemonError + 'k PulseDaemon" where
  "connect ops fuel pid connected fs_read env scanned path_exists =
     rbind (load_default_cookie fs_read env) (\<lambda>ck.
       let candidates = socket_candidates env scanned in
       rbind (ok_or (NoServerSocket candidates) (find path_exists candidates)) (\<lambda>path.
         connect_with_cookie ops fuel pid connected path ck))"

section \<open>Laws\<close>

text \<open>The bytes of one control packet.\<close>

definition frame_bytes :: "Frame \<Rightarrow> bytes" where
  "frame_bytes f =
     descriptor (of_nat (10 + length (fr_payload f))) (- 1) 0 0
     @ put_u32 (fr_command f) @ put_u32 (fr_tag f) @ fr_payload f"

lemma read_frame_bytes:
  assumes ops: "reads ops inbox" and k: "inbox k = frame_bytes f @ rest"
    and len: "10 + length (fr_payload f) \<le> unat MAX_LEN"
  obtains k' where "read_frame ops k = (Ok f, k')" "inbox k' = rest"
proof -
  let ?n = "10 + length (fr_payload f)" and ?body = "put_u32 (fr_command f) @ put_u32 (fr_tag f) @ fr_payload f"
  let ?d = "descriptor (of_nat ?n) (- 1) 0 0"
  have n: "unat (of_nat ?n :: u32) = ?n" "\<not> MAX_LEN < of_nat ?n" using unat_of_nat_MAX_LEN [OF len] by blast+
  obtain k1 where k1: "read_exact ops HEADER_LEN k = (Ok ?d, k1)" "inbox k1 = ?body @ rest"
    by (rule read_exact_append [OF ops, of k ?d "?body @ rest" HEADER_LEN])
      (simp_all add: k frame_bytes_def HEADER_LEN_def)
  obtain k2 where k2: "read_exact ops ?n k1 = (Ok ?body, k2)" "inbox k2 = rest"
    by (rule read_exact_append [OF ops k1(2)]) (simp_all add: put_u32_def)
  have "0 < (of_nat ?n :: u32)" using n by (simp add: word_less_nat_alt)
  then have v: "PacketHeader_is_valid
      \<lparr>ph_length = of_nat ?n, ph_channel = - 1, ph_offset = 0, ph_flags = 0, ph_opcode = 0\<rparr>"
    using n by (simp add: PacketHeader_is_valid_def not_less)
  have "read_frame ops k = (Ok f, k2)"
    using k1 k2 v n(1)
    by (simp add: read_frame_def sbind_def smap_err_def PacketHeader_parse_descriptor read_u32_put del: of_nat_add)
  with k2 show thesis by (intro that)
qed

lemma write_frame_bytes:
  assumes ops: "writes ops inbox sent" and len: "10 + length body < 2 ^ 32"
  obtains k' where "write_frame ops cmd tag body k = (Ok (), k')" "inbox k' = inbox k"
    "sent k' = sent k @ frame_bytes \<lparr>fr_command = cmd, fr_tag = tag, fr_payload = body\<rparr>"
proof -
  let ?b = "[TAG_U32] @ to_be32 cmd @ [TAG_U32] @ to_be32 tag @ body"
  obtain k1 where k1: "write_all ops (to_be32 (of_nat (length ?b))) k = (Ok (), k1)" "inbox k1 = inbox k"
    "sent k1 = sent k @ to_be32 (of_nat (length ?b))" by (rule write_all_sent [OF ops])
  obtain k2 where k2: "write_all ops (to_be32 (- 1)) k1 = (Ok (), k2)" "inbox k2 = inbox k1"
    "sent k2 = sent k1 @ to_be32 (- 1)" by (rule write_all_sent [OF ops])
  obtain k3 where k3: "write_all ops (to_be64 0) k2 = (Ok (), k3)" "inbox k3 = inbox k2"
    "sent k3 = sent k2 @ to_be64 0" by (rule write_all_sent [OF ops])
  obtain k4 where k4: "write_all ops (to_be32 0) k3 = (Ok (), k4)" "inbox k4 = inbox k3"
    "sent k4 = sent k3 @ to_be32 0" by (rule write_all_sent [OF ops])
  obtain k5 where k5: "write_all ops ?b k4 = (Ok (), k5)" "inbox k5 = inbox k4"
    "sent k5 = sent k4 @ ?b" by (rule write_all_sent [OF ops])
  have n: "length ?b = 10 + length body" by simp
  have "write_frame ops cmd tag body k = (Ok (), k5)"
    using len k1(1) k2(1) k3(1) k4(1) k5(1) unfolding write_frame_def Let_def
    by (simp add: sbind_def smap_err_def)
  moreover have "sent k5 = sent k @ frame_bytes \<lparr>fr_command = cmd, fr_tag = tag, fr_payload = body\<rparr>"
    unfolding k5(3) k4(3) k3(3) k2(3) k1(3) n
    by (simp add: frame_bytes_def descriptor_def put_u32_def)
  ultimately show thesis using that k1 k2 k3 k4 k5 by simp
qed

definition frame_fits :: "Frame \<Rightarrow> bool" where
  "frame_fits f \<longleftrightarrow> 10 + length (fr_payload f) \<le> unat MAX_LEN"

text \<open>Waiting for a reply skips the frames with other tags that come before it.\<close>

lemma await_reply_skips:
  assumes ops: "reads ops inbox"
    and us: "\<forall>u \<in> set us. fr_tag u \<noteq> tag \<and> frame_fits u"
    and f: "fr_tag f = tag" "frame_fits f" "fr_command f \<noteq> command_ERROR" "fr_command f \<noteq> command_TIMEOUT"
    and k: "inbox k = concat (map frame_bytes us) @ frame_bytes f @ rest" and fuel: "length us < fuel"
  shows "\<exists>k'. await_reply ops tag fuel k = (Ok f, k') \<and> inbox k' = rest"
  using us k fuel
proof (induction us arbitrary: k fuel)
  case Nil
  obtain k' where "read_frame ops k = (Ok f, k')" "inbox k' = rest"
    using read_frame_bytes [OF ops, of k f rest] Nil.prems f by (auto simp: frame_fits_def)
  moreover obtain m where "fuel = Suc m" using Nil.prems by (cases fuel) auto
  ultimately show ?case using f by (simp add: sbind_def)
next
  case (Cons u us)
  obtain k1 where k1: "read_frame ops k = (Ok u, k1)"
    "inbox k1 = concat (map frame_bytes us) @ frame_bytes f @ rest"
    using read_frame_bytes [OF ops, of k u "concat (map frame_bytes us) @ frame_bytes f @ rest"] Cons.prems
    by (auto simp: frame_fits_def)
  obtain m where m: "fuel = Suc m" "length us < m" using Cons.prems by (cases fuel) auto
  obtain k' where "await_reply ops tag m k1 = (Ok f, k')" "inbox k' = rest"
    using Cons.IH Cons.prems(1) k1(2) m by fastforce
  then show ?case using Cons.prems k1 m by (simp add: sbind_def)
qed

lemma request_reply:
  assumes "reads ops inbox" "writes ops inbox sent"
    and "\<forall>u \<in> set us. fr_tag u \<noteq> pd_next_tag d \<and> frame_fits u"
    and "fr_tag f = pd_next_tag d" "frame_fits f" "fr_command f \<noteq> command_ERROR" "fr_command f \<noteq> command_TIMEOUT"
    and "inbox (pd_stream d) = concat (map frame_bytes us) @ frame_bytes f @ rest" "length us < fuel"
    and "10 + length body < 2 ^ 32"
  obtains k where "request ops fuel cmd body d = (Ok f, d\<lparr>pd_next_tag := pd_next_tag d + 1, pd_stream := k\<rparr>)"
    "inbox k = rest"
proof -
  obtain k1 where k1: "write_frame ops cmd (pd_next_tag d) body (pd_stream d) = (Ok (), k1)"
    "inbox k1 = inbox (pd_stream d)"
    using write_frame_bytes [OF assms(2,10)] by blast
  obtain k2 where k2: "await_reply ops (pd_next_tag d) fuel k1 = (Ok f, k2)" "inbox k2 = rest"
    using await_reply_skips [OF assms(1,3-7), of k1 rest fuel] k1(2) assms(8,9) by auto
  show thesis using that [OF _ k2(2)] k1(1) k2(1) by (simp add: request_def sbind_def)
qed

text \<open>
  C22: A control packet written by the client is read back by a reader of the same stream as the same
  command, tag and body, with exactly its own bytes consumed, up to the reader's length limit.
\<close>

theorem pulse_frame_roundtrip:
  assumes "reads ops inbox" "writes ops inbox sent" "frame_fits f"
  shows "\<exists>k'. write_frame ops (fr_command f) (fr_tag f) (fr_payload f) k = (Ok (), k') \<and>
    (\<forall>q rest. sent k @ inbox q = sent k' @ rest \<longrightarrow>
       (\<exists>q'. read_frame ops q = (Ok f, q') \<and> inbox q' = rest))"
proof -
  have len: "10 + length (fr_payload f) < 2 ^ 32" using assms(3) by (simp add: frame_fits_def MAX_LEN_def)
  have f: "\<lparr>fr_command = fr_command f, fr_tag = fr_tag f, fr_payload = fr_payload f\<rparr> = f" by simp
  obtain k' where k': "write_frame ops (fr_command f) (fr_tag f) (fr_payload f) k = (Ok (), k')"
    "sent k' = sent k @ frame_bytes f"
    by (rule write_frame_bytes [OF assms(2) len, of "fr_command f" "fr_tag f" k, unfolded f])
  have "\<exists>q'. read_frame ops q = (Ok f, q') \<and> inbox q' = rest" if q: "inbox q = frame_bytes f @ rest" for q rest
  proof -
    obtain q' where "read_frame ops q = (Ok f, q')" "inbox q' = rest"
      by (rule read_frame_bytes [OF assms(1) q assms(3) [unfolded frame_fits_def]])
    then show ?thesis by blast
  qed
  then show ?thesis using k' by (intro exI [of _ k']) simp
qed

definition demo_reply :: "u32 \<Rightarrow> bytes \<Rightarrow> Frame" where
  "demo_reply tag body = \<lparr>fr_command = command_REPLY, fr_tag = tag, fr_payload = body\<rparr>"

theorem pulse_frame_roundtrip_witness:
  "\<exists>q'. read_frame list_stream (frame_bytes (demo_reply 7 [1, 2]) @ [9], []) = (Ok (demo_reply 7 [1, 2]), q') \<and>
    fst q' = [9]"
proof -
  have "frame_fits (demo_reply 7 [1, 2])" by (simp add: frame_fits_def demo_reply_def MAX_LEN_def)
  from pulse_frame_roundtrip [OF list_stream_laws this, of "([], [])"] obtain k' where
    w: "write_frame list_stream command_REPLY 7 [1, 2] ([], []) = (Ok (), k')" and
    r: "\<And>q rest. [] @ fst q = snd k' @ rest \<Longrightarrow>
      \<exists>q'. read_frame list_stream q = (Ok (demo_reply 7 [1, 2]), q') \<and> fst q' = rest"
    by (auto simp: demo_reply_def)
  have len: "10 + length [1, 2 :: u8] < 2 ^ 32" by simp
  obtain k2 where "write_frame list_stream command_REPLY 7 [1, 2] ([], []) = (Ok (), k2)"
    "snd k2 = frame_bytes \<lparr>fr_command = command_REPLY, fr_tag = 7, fr_payload = [1, 2]\<rparr>"
    by (rule write_frame_bytes [OF list_stream_laws(2) len, of command_REPLY 7 "([], [])"]) simp
  with w have "snd k' = frame_bytes (demo_reply 7 [1, 2])" by (simp add: demo_reply_def)
  then show ?thesis using r [of "(frame_bytes (demo_reply 7 [1, 2]) @ [9], [])" "[9]"] by simp
qed

text \<open>
  A request is answered by the reply with its tag: unsolicited frames with other tags that arrive
  before the deadline are skipped, the reply is returned, and the bytes behind it stay unread.
\<close>

theorem request_skips_unsolicited:
  assumes "reads ops inbox" "writes ops inbox sent"
    and "\<forall>u \<in> set us. fr_tag u \<noteq> pd_next_tag d \<and> frame_fits u"
    and "fr_tag f = pd_next_tag d" "frame_fits f" "fr_command f \<noteq> command_ERROR" "fr_command f \<noteq> command_TIMEOUT"
    and "inbox (pd_stream d) = concat (map frame_bytes us) @ frame_bytes f @ rest" "length us < fuel"
    and "10 + length body < 2 ^ 32"
  shows "\<exists>k. request ops fuel cmd body d = (Ok f, d\<lparr>pd_next_tag := pd_next_tag d + 1, pd_stream := k\<rparr>) \<and>
    inbox k = rest"
proof -
  obtain k where "request ops fuel cmd body d = (Ok f, d\<lparr>pd_next_tag := pd_next_tag d + 1, pd_stream := k\<rparr>)"
    "inbox k = rest" by (rule request_reply [OF assms])
  then show ?thesis by blast
qed

definition demo_daemon :: "bytes \<Rightarrow> (bytes \<times> bytes) PulseDaemon" where
  "demo_daemon inb =
     \<lparr>pd_stream = (inb, []), pd_socket_path = ''/tmp/pulse-native'', pd_next_tag = 3, pd_server_version = 35\<rparr>"

theorem request_skips_unsolicited_witness:
  "\<exists>k. request list_stream 2 command_QUERY_INFO []
      (demo_daemon (concat (map frame_bytes [demo_reply 0 [5]]) @ frame_bytes (demo_reply 3 [6]) @ [])) =
    (Ok (demo_reply 3 [6]),
     (demo_daemon (concat (map frame_bytes [demo_reply 0 [5]]) @ frame_bytes (demo_reply 3 [6]) @ []))
       \<lparr>pd_next_tag := pd_next_tag (demo_daemon (concat (map frame_bytes [demo_reply 0 [5]]) @ frame_bytes (demo_reply 3 [6]) @ [])) + 1,
        pd_stream := k\<rparr>) \<and> fst k = []"
  by (rule request_skips_unsolicited [OF list_stream_laws, where us = "[demo_reply 0 [5]]"])
    (simp_all add: demo_daemon_def demo_reply_def frame_fits_def MAX_LEN_def command_REPLY_def
      command_ERROR_def command_TIMEOUT_def)

lemma put_u32_length [simp]: "length (put_u32 v) = 5"
  by (simp add: put_u32_def)

definition cookie_ok :: "bytes option \<Rightarrow> bool" where
  "cookie_ok ck \<longleftrightarrow> (case ck of Some c \<Rightarrow> length c = AUTH_COOKIE_LEN | None \<Rightarrow> True)"

lemma auth_body_total: "cookie_ok ck \<Longrightarrow> \<exists>b. auth_body ck = Some b \<and> length b \<le> 300"
  by (auto simp: auth_body_def cookie_ok_def put_arbitrary_def AUTH_COOKIE_LEN_def split: option.splits)

lemma client_proplist_total:
  "length pid \<le> 20 \<Longrightarrow> \<exists>b. put_proplist (client_proplist pid) = Some b \<and> length b \<le> 300"
  by (simp add: put_proplist_def client_proplist_def put_arbitrary_def put_string_def put_string_null_def
      str_bytes_def)

lemma reply_not_error [simp]: "command_REPLY \<noteq> command_ERROR" "command_REPLY \<noteq> command_TIMEOUT"
  by (simp_all add: command_REPLY_def command_ERROR_def command_TIMEOUT_def)

lemma auth_reply:
  assumes ops: "reads ops inbox" "writes ops inbox sent" and ck: "cookie_ok ck"
    and us: "\<forall>u \<in> set us. fr_tag u \<noteq> pd_next_tag d \<and> frame_fits u" "length us < fuel"
    and f: "frame_fits \<lparr>fr_command = command_REPLY, fr_tag = pd_next_tag d, fr_payload = put_u32 v @ extra\<rparr>"
    and inb: "inbox (pd_stream d) = concat (map frame_bytes us)
      @ frame_bytes \<lparr>fr_command = command_REPLY, fr_tag = pd_next_tag d, fr_payload = put_u32 v @ extra\<rparr> @ rest"
  shows "\<exists>k. auth ops fuel ck d = (Ok (), d\<lparr>pd_next_tag := pd_next_tag d + 1, pd_stream := k, pd_server_version := v\<rparr>) \<and>
    inbox k = rest"
proof -
  obtain b where b: "auth_body ck = Some b" "length b \<le> 300" using auth_body_total [OF ck] by blast
  obtain k where "request ops fuel command_AUTH b d =
      (Ok \<lparr>fr_command = command_REPLY, fr_tag = pd_next_tag d, fr_payload = put_u32 v @ extra\<rparr>,
       d\<lparr>pd_next_tag := pd_next_tag d + 1, pd_stream := k\<rparr>)" "inbox k = rest"
    by (rule request_reply [OF ops us(1) _ f _ _ inb us(2), of b command_AUTH]) (use b in simp_all)
  then show ?thesis
    by (intro exI [of _ k])
      (simp add: auth_def opt_panic_def b sbind_def expect_reply_def from_payload_def smap_err_def read_u32_put)
qed

lemma set_client_name_reply:
  assumes ops: "reads ops inbox" "writes ops inbox sent" and pid: "length pid \<le> 20"
    and us: "\<forall>u \<in> set us. fr_tag u \<noteq> pd_next_tag d \<and> frame_fits u" "length us < fuel"
    and f: "frame_fits \<lparr>fr_command = command_REPLY, fr_tag = pd_next_tag d, fr_payload = put_u32 v @ extra\<rparr>"
    and inb: "inbox (pd_stream d) = concat (map frame_bytes us)
      @ frame_bytes \<lparr>fr_command = command_REPLY, fr_tag = pd_next_tag d, fr_payload = put_u32 v @ extra\<rparr> @ rest"
  shows "\<exists>k. set_client_name ops fuel pid d = (Ok (), d\<lparr>pd_next_tag := pd_next_tag d + 1, pd_stream := k\<rparr>) \<and>
    inbox k = rest"
proof -
  obtain b where b: "put_proplist (client_proplist pid) = Some b" "length b \<le> 300"
    using client_proplist_total [OF pid] by blast
  obtain k where "request ops fuel command_SET_CLIENT_NAME b d =
      (Ok \<lparr>fr_command = command_REPLY, fr_tag = pd_next_tag d, fr_payload = put_u32 v @ extra\<rparr>,
       d\<lparr>pd_next_tag := pd_next_tag d + 1, pd_stream := k\<rparr>)" "inbox k = rest"
    by (rule request_reply [OF ops us(1) _ f _ _ inb us(2), of b command_SET_CLIENT_NAME]) (use b in simp_all)
  then show ?thesis
    by (intro exI [of _ k])
      (simp add: set_client_name_def opt_panic_def b sbind_def expect_reply_def from_payload_def smap_err_def
        read_u32_put)
qed

text \<open>
  C23: The handshake completes against a server that answers \<open>AUTH\<close> with its version and
  \<open>SET_CLIENT_NAME\<close> with an index, with any unsolicited frames before each answer: the connection has
  that version and the next request will carry tag 3.
\<close>

theorem pulse_handshake:
  assumes ops: "reads ops inbox" "writes ops inbox sent" and "cookie_ok ck" "length pid \<le> 20"
    and conn: "connected path = Ok k"
    and us: "\<forall>u \<in> set us. fr_tag u \<noteq> 1 \<and> frame_fits u" "length us < fuel"
    and vs: "\<forall>u \<in> set vs. fr_tag u \<noteq> 2 \<and> frame_fits u" "length vs < fuel"
    and fits: "length xs \<le> 1000" "length ys \<le> 1000"
    and inb: "inbox k = concat (map frame_bytes us)
      @ frame_bytes \<lparr>fr_command = command_REPLY, fr_tag = 1, fr_payload = put_u32 v @ xs\<rparr>
      @ concat (map frame_bytes vs)
      @ frame_bytes \<lparr>fr_command = command_REPLY, fr_tag = 2, fr_payload = put_u32 i @ ys\<rparr> @ rest"
  shows "\<exists>k'. connect_with_cookie ops fuel pid connected path ck =
      Ok \<lparr>pd_stream = k', pd_socket_path = path, pd_next_tag = 3, pd_server_version = v\<rparr> \<and> inbox k' = rest"
proof -
  let ?d = "\<lparr>pd_stream = k, pd_socket_path = path, pd_next_tag = 1, pd_server_version = 0\<rparr>"
  obtain k1 where k1: "auth ops fuel ck ?d = (Ok (), ?d\<lparr>pd_next_tag := 2, pd_stream := k1, pd_server_version := v\<rparr>)"
    "inbox k1 = concat (map frame_bytes vs)
      @ frame_bytes \<lparr>fr_command = command_REPLY, fr_tag = 2, fr_payload = put_u32 i @ ys\<rparr> @ rest"
    using auth_reply [OF ops assms(3), of us ?d fuel v xs] us fits inb
    by (auto simp: frame_fits_def MAX_LEN_def)
  let ?d1 = "?d\<lparr>pd_next_tag := 2, pd_stream := k1, pd_server_version := v\<rparr>"
  obtain k2 where k2: "set_client_name ops fuel pid ?d1 = (Ok (), ?d1\<lparr>pd_next_tag := 3, pd_stream := k2\<rparr>)"
    "inbox k2 = rest"
    using set_client_name_reply [OF ops assms(4), of vs ?d1 fuel i ys rest] vs fits k1(2)
    by (auto simp: frame_fits_def MAX_LEN_def)
  show ?thesis
    using k1(1) k2 conn assms(3) by (cases ck) (simp_all add: connect_with_cookie_def sbind_def cookie_ok_def)
qed

definition demo_server :: bytes where
  "demo_server =
     frame_bytes \<lparr>fr_command = command_REPLY, fr_tag = 1, fr_payload = put_u32 35\<rparr>
     @ frame_bytes (demo_reply 9 [])
     @ frame_bytes \<lparr>fr_command = command_REPLY, fr_tag = 2, fr_payload = put_u32 4\<rparr>"

theorem pulse_handshake_witness:
  "\<exists>k'. connect_with_cookie list_stream 8 (str_bytes ''4711'') (\<lambda>_. Ok (demo_server, [])) ''/tmp/pulse-native'' None =
      Ok \<lparr>pd_stream = k', pd_socket_path = ''/tmp/pulse-native'', pd_next_tag = 3, pd_server_version = 35\<rparr> \<and>
    fst k' = []"
  by (rule pulse_handshake [OF list_stream_laws, where us = "[]" and vs = "[demo_reply 9 []]" and xs = "[]"
        and ys = "[]" and i = 4 and k = "(demo_server, [])"])
    (simp_all add: cookie_ok_def str_bytes_def demo_server_def demo_reply_def frame_fits_def MAX_LEN_def)

end
