(* ===== verification/Browser_Gateway.thy ===== *)
theory Browser_Gateway
  imports Prelude Float32
begin

text \<open>
  The browser gateway: the binary message codec of \<open>gw-browser/src/codec.rs\<close> and the connection
  handler and accept loop of \<open>gw-browser/src/server.rs\<close>.

  An audio frame is a value of the core crate: its constructor \<open>from_planar\<close> and its fields are the
  operations of a parameter, as are the Opus decoder (absent when the crate is built without the
  \<open>opus\<close> feature), the ring's \<open>push\<close> and the socket's \<open>send\<close>. A connection is driven by a sequence of
  events in the order \<open>select!\<close> picks them: what the socket yields, and the ticks of the pump, each
  with the frames that \<open>pop\<close> returns on that tick before it first fails.
\<close>

section \<open>The message codec\<close>

datatype GatewayError = NotImplemented string | WebSocket string | BadFrame string

record FrameSpec =
  fs_channels :: u16
  fs_sample_rate :: u32

record 'f frame_ops =
  from_planar :: "u16 \<Rightarrow> u32 \<Rightarrow> f32 list \<Rightarrow> 'f"
  fr_channels :: "'f \<Rightarrow> u16"
  fr_sample_rate :: "'f \<Rightarrow> u32"
  fr_samples :: "'f \<Rightarrow> f32 list"

record ('d, 'f) opus_ops =
  opus_new :: "u32 \<Rightarrow> u16 \<Rightarrow> string + 'd"
  opus_decode :: "'d \<Rightarrow> bytes \<Rightarrow> string + 'f"

definition BROWSER_HEADER_LEN :: nat where "BROWSER_HEADER_LEN = 6"
definition TAG_PCM :: u8 where "TAG_PCM = 0"
definition TAG_OPUS :: u8 where "TAG_OPUS = 1"

definition encode_frame :: "'f frame_ops \<Rightarrow> 'f \<Rightarrow> GatewayError + bytes" where
  "encode_frame fo frame =
     (if unat (fr_channels fo frame) < 256 then
        Ok ([TAG_PCM, ucast (fr_channels fo frame)] @ to_le32 (fr_sample_rate fo frame) @
            concat (map to_le32 (fr_samples fo frame)))
      else Err (BadFrame ''channel count overloads header byte''))"

definition browser_decode_pcm :: "'f frame_ops \<Rightarrow> bytes \<Rightarrow> u8 \<Rightarrow> u32 \<Rightarrow> FrameSpec \<Rightarrow> GatewayError + 'f" where
  "browser_decode_pcm fo data channels sample_rate spec =
     (if channels = 0 then Err (BadFrame ''pcm frame has zero channels'')
      else if ucast channels \<noteq> fs_channels spec then
        Err (BadFrame (''channel mismatch: header='' @ show_word channels @ '' expected='' @
                       show_word (fs_channels spec)))
      else if sample_rate \<noteq> fs_sample_rate spec then
        Err (BadFrame (''sample-rate mismatch: header='' @ show_word sample_rate @ '' expected='' @
                       show_word (fs_sample_rate spec)))
      else if data = [] then Err (BadFrame ''pcm payload is empty'')
      else
        let stride = unat channels * 4
        in if length data mod stride \<noteq> 0 then
             Err (BadFrame (''pcm payload length '' @ show_nat (length data) @
                            '' is not a multiple of '' @ show_nat stride))
           else
             Ok (from_planar fo (fs_channels spec) (fs_sample_rate spec)
                  (map (\<lambda>(a, b, c, d). from_le32 a b c d) (chunks_exact4 data))))"

definition decode_opus ::
  "('d, 'f) opus_ops option \<Rightarrow> bytes \<Rightarrow> u8 \<Rightarrow> u32 \<Rightarrow> FrameSpec \<Rightarrow> GatewayError + 'f" where
  "decode_opus opus data channels sample_rate spec =
     (case opus of
        None \<Rightarrow> Err (BadFrame ''opus codec not enabled (build with the `opus` feature)'')
      | Some ops \<Rightarrow>
          if ucast channels \<noteq> fs_channels spec then
            Err (BadFrame (''channel mismatch: header='' @ show_word channels @ '' expected='' @
                           show_word (fs_channels spec)))
          else if sample_rate \<noteq> fs_sample_rate spec then
            Err (BadFrame (''sample-rate mismatch: header='' @ show_word sample_rate @ '' expected='' @
                           show_word (fs_sample_rate spec)))
          else
            rbind (map_err (\<lambda>e. BadFrame (''opus decoder init failed: '' @ e))
                     (opus_new ops sample_rate (fs_channels spec)))
              (\<lambda>decoder. map_err (\<lambda>e. BadFrame (''opus decode failed: '' @ e)) (opus_decode ops decoder data)))"

definition decode_frame ::
  "'f frame_ops \<Rightarrow> ('d, 'f) opus_ops option \<Rightarrow> bytes \<Rightarrow> FrameSpec \<Rightarrow> GatewayError + 'f" where
  "decode_frame fo opus b spec =
     (if length b < BROWSER_HEADER_LEN then
        Err (BadFrame (''header shorter than '' @ show_nat BROWSER_HEADER_LEN @ '' bytes''))
      else
        let tag = b ! 0;
            channels = b ! 1;
            sample_rate = from_le32 (b ! 2) (b ! 3) (b ! 4) (b ! 5);
            data = drop BROWSER_HEADER_LEN b
        in if tag = TAG_PCM then browser_decode_pcm fo data channels sample_rate spec
           else if tag = TAG_OPUS then decode_opus opus data channels sample_rate spec
           else Err (BadFrame (''unknown codec tag '' @ show_word tag)))"

section \<open>Connections\<close>

datatype Message = Binary bytes | Close | Ping | OtherMessage

datatype 'f conn_event = Incoming "(string + Message) option" | PumpTick "'f list"

record ('r, 'k) conn_state =
  cs_inbound :: 'r
  cs_sink :: 'k

text \<open>A refused push drops the frame.\<close>

definition push_or_drop :: "('r \<Rightarrow> 'f \<Rightarrow> 'r option) \<Rightarrow> 'r \<Rightarrow> 'f \<Rightarrow> 'r" where
  "push_or_drop push ring frame = (case push ring frame of Some ring' \<Rightarrow> ring' | None \<Rightarrow> ring)"

text \<open>The pump: \<open>False\<close> when a send fails, which ends the connection.\<close>

primrec pump_frames ::
  "'f frame_ops \<Rightarrow> ('k \<Rightarrow> bytes \<Rightarrow> 'k option) \<Rightarrow> 'f list \<Rightarrow> 'k \<Rightarrow> bool \<times> 'k" where
  "pump_frames fo send [] sink = (True, sink)"
| "pump_frames fo send (frame # frames) sink =
     (case encode_frame fo frame of
        Inl _ \<Rightarrow> pump_frames fo send frames sink
      | Inr b \<Rightarrow> (case send sink b of Some sink' \<Rightarrow> pump_frames fo send frames sink' | None \<Rightarrow> (False, sink)))"

text \<open>
  The loop of \<open>handle_connection_io\<close>: \<open>None\<close> while the connection is still open after the events, else
  what the handler returns.
\<close>

fun connection_loop ::
  "'f frame_ops \<Rightarrow> ('d, 'f) opus_ops option \<Rightarrow> ('r \<Rightarrow> 'f \<Rightarrow> 'r option) \<Rightarrow> ('k \<Rightarrow> bytes \<Rightarrow> 'k option)
   \<Rightarrow> ('k \<Rightarrow> 'k) \<Rightarrow> FrameSpec \<Rightarrow> 'f conn_event list \<Rightarrow> ('r, 'k) conn_state
   \<Rightarrow> (GatewayError + unit) option \<times> ('r, 'k) conn_state" where
  "connection_loop fo opus push send close spec [] st = (None, st)"
| "connection_loop fo opus push send close spec (Incoming (Some (Inr (Binary b))) # evs) st =
     (case decode_frame fo opus b spec of
        Inr frame \<Rightarrow> connection_loop fo opus push send close spec evs
                      (st\<lparr>cs_inbound := push_or_drop push (cs_inbound st) frame\<rparr>)
      | Inl _ \<Rightarrow> connection_loop fo opus push send close spec evs st)"
| "connection_loop fo opus push send close spec (Incoming (Some (Inr Close)) # evs) st =
     (Some (Ok ()), st\<lparr>cs_sink := close (cs_sink st)\<rparr>)"
| "connection_loop fo opus push send close spec (Incoming None # evs) st =
     (Some (Ok ()), st\<lparr>cs_sink := close (cs_sink st)\<rparr>)"
| "connection_loop fo opus push send close spec (Incoming (Some (Inr Ping)) # evs) st =
     connection_loop fo opus push send close spec evs st"
| "connection_loop fo opus push send close spec (Incoming (Some (Inr OtherMessage)) # evs) st =
     connection_loop fo opus push send close spec evs st"
| "connection_loop fo opus push send close spec (Incoming (Some (Inl e)) # evs) st =
     (Some (Err (WebSocket e)), st)"
| "connection_loop fo opus push send close spec (PumpTick frames # evs) st =
     (case pump_frames fo send frames (cs_sink st) of
        (True, sink) \<Rightarrow> connection_loop fo opus push send close spec evs (st\<lparr>cs_sink := sink\<rparr>)
      | (False, sink) \<Rightarrow> (Some (Ok ()), st\<lparr>cs_sink := sink\<rparr>))"

text \<open>A connection: the WebSocket upgrade of the accepted stream, then the loop.\<close>

record ('f, 'k) client =
  cl_upgrade :: "string + 'k"
  cl_events :: "'f conn_event list"

definition handle_connection_io where
  "handle_connection_io fo opus push send close spec client inbound =
     (case cl_upgrade client of
        Inl e \<Rightarrow> (Some (Err (WebSocket e)), inbound)
      | Inr sink \<Rightarrow>
          let (r, st) = connection_loop fo opus push send close spec (cl_events client)
                          \<lparr>cs_inbound = inbound, cs_sink = sink\<rparr>
          in (r, cs_inbound st))"

text \<open>
  The accept loop over what \<open>accept\<close> yields: \<open>None\<close> while it still serves. A connection that has not
  ended keeps the loop in its handler.
\<close>

fun run_accept_loop_io where
  "run_accept_loop_io fo opus push send close spec [] inbound = (None, inbound)"
| "run_accept_loop_io fo opus push send close spec (Inl e # accepts) inbound =
     (Some (Err (WebSocket (''io: '' @ e))), inbound)"
| "run_accept_loop_io fo opus push send close spec (Inr client # accepts) inbound =
     (case handle_connection_io fo opus push send close spec client inbound of
        (None, inbound') \<Rightarrow> (None, inbound')
      | (Some _, inbound') \<Rightarrow> run_accept_loop_io fo opus push send close spec accepts inbound')"

section \<open>Properties of the codec\<close>

definition spec_wf :: "FrameSpec \<Rightarrow> bool" where
  "spec_wf spec \<longleftrightarrow> 0 < unat (fs_channels spec) \<and> unat (fs_channels spec) < 256"

text \<open>The bytes of a PCM message.\<close>

definition pcm_message :: "FrameSpec \<Rightarrow> f32 list \<Rightarrow> bytes" where
  "pcm_message spec xs =
     [0, ucast (fs_channels spec)] @ to_le32 (fs_sample_rate spec) @ concat (map to_le32 xs)"

lemma split_header:
  assumes "6 \<le> length (b :: 'a list)"
  shows "b = [b ! 0, b ! 1, b ! 2, b ! 3, b ! 4, b ! 5] @ drop 6 b"
  using assms
  by (auto simp: numeral_eq_Suc Suc_le_length_iff)

lemma ucast_u8_eq_iff:
  "ucast (c :: u8) = (n :: u16) \<longleftrightarrow> unat n < 256 \<and> c = ucast n"
proof -
  have "unat c < 256" using unsigned_less [of c] by simp
  then show ?thesis
    by (auto simp: word_unat_eq_iff [where 'a = 8] word_unat_eq_iff [where 'a = 16]
        unsigned_ucast_eq take_bit_eq_mod)
qed

lemma decode_frame_pcm_message:
  assumes "spec_wf spec" "xs \<noteq> []" "unat (fs_channels spec) dvd length xs"
  shows "decode_frame fo opus (pcm_message spec xs) spec =
    Ok (from_planar fo (fs_channels spec) (fs_sample_rate spec) xs)"
proof -
  obtain a b c d where r: "to_le32 (fs_sample_rate spec) = [a, b, c, d]" "from_le32 a b c d = fs_sample_rate spec"
    by (rule to_le32_ex)
  have ch: "unat (ucast (fs_channels spec) :: u8) = unat (fs_channels spec)"
    using assms(1) by (simp add: spec_wf_def unsigned_ucast_eq take_bit_eq_mod)
  then have "(ucast (fs_channels spec) :: u8) \<noteq> 0" using assms(1) by (auto simp: spec_wf_def)
  moreover have "ucast (ucast (fs_channels spec) :: u8) = fs_channels spec"
    using assms(1) by (simp add: ucast_u8_eq_iff spec_wf_def)
  moreover have "4 * length xs mod (unat (fs_channels spec) * 4) = 0"
    using assms(3) by (simp add: mult.commute)
  moreover have "concat (map to_le32 xs) \<noteq> []"
    using assms(2) by (metis length_le32s length_0_conv mult_eq_0_iff zero_neq_numeral)
  ultimately show ?thesis
    using r by (simp add: decode_frame_def browser_decode_pcm_def pcm_message_def BROWSER_HEADER_LEN_def TAG_PCM_def
        ch chunks_exact4_le32 Let_def)
qed

text \<open>
  Built without Opus, the gateway accepts exactly the PCM messages of its own audio shape: the
  decoder returns a frame just when the message is the header of that shape followed by a non-empty
  whole number of samples per channel, and the frame holds those samples.
\<close>

theorem decode_frame_accepts:
  "decode_frame fo (None :: ('d, 'f) opus_ops option) b spec = Ok frame \<longleftrightarrow>
    (\<exists>xs. b = pcm_message spec xs \<and> spec_wf spec \<and> xs \<noteq> [] \<and> unat (fs_channels spec) dvd length xs \<and>
      frame = from_planar fo (fs_channels spec) (fs_sample_rate spec) xs)" (is "?L \<longleftrightarrow> ?R")
proof
  assume L: ?L
  define data where "data = drop 6 b"
  define xs where "xs = map (\<lambda>(a, b, c, d). from_le32 a b c d) (chunks_exact4 data)"
  from L have len: "6 \<le> length b" by (auto simp: decode_frame_def BROWSER_HEADER_LEN_def split: if_splits)
  note b = split_header [OF len]
  from L have pcm: "b ! 0 = 0" and d: "browser_decode_pcm fo data (b ! 1) (from_le32 (b ! 2) (b ! 3) (b ! 4) (b ! 5)) spec = Ok frame"
    by (auto simp: decode_frame_def decode_opus_def data_def TAG_PCM_def BROWSER_HEADER_LEN_def Let_def split: if_splits)
  from d have ch: "unat (fs_channels spec) < 256" "b ! 1 = ucast (fs_channels spec)" "b ! 1 \<noteq> 0"
    and rate: "from_le32 (b ! 2) (b ! 3) (b ! 4) (b ! 5) = fs_sample_rate spec"
    and ne: "data \<noteq> []" and md: "length data mod (unat (b ! 1) * 4) = 0"
    and fr: "frame = from_planar fo (fs_channels spec) (fs_sample_rate spec) xs"
    by (auto simp: browser_decode_pcm_def Let_def ucast_u8_eq_iff xs_def split: if_splits)
  have chn: "unat (b ! 1) = unat (fs_channels spec)"
    using ch by (simp add: unsigned_ucast_eq take_bit_eq_mod)
  obtain k where k: "length data = unat (fs_channels spec) * 4 * k"
    using md chn by auto
  then have m4: "length data mod 4 = 0" by simp
  have "b = pcm_message spec xs"
    unfolding pcm_message_def rate [symmetric] to_le32_from_le32 le32s_inverse [OF m4, folded xs_def]
    by (subst b, unfold ch(2) pcm data_def) simp
  moreover have "length xs = unat (fs_channels spec) * k"
    using k by (simp add: xs_def length_chunks_exact4)
  moreover have "xs \<noteq> []" using ne m4 le32s_inverse [OF m4] by (auto simp: xs_def)
  moreover have "0 < unat (fs_channels spec)" using ch(3) chn by (metis unat_gt_0 word_neq_0_conv)
  ultimately show ?R using ch(1) fr by (auto simp: spec_wf_def)
qed (auto simp: decode_frame_pcm_message)

lemma encode_frame_message:
  "unat (fr_channels fo frame) < 256 \<Longrightarrow>
   encode_frame fo frame =
     Ok (pcm_message \<lparr>fs_channels = fr_channels fo frame, fs_sample_rate = fr_sample_rate fo frame\<rparr> (fr_samples fo frame))"
  by (simp add: encode_frame_def pcm_message_def TAG_PCM_def)

text \<open>What the core crate documents of its frames: the constructor keeps its arguments.\<close>

definition frame_laws :: "'f frame_ops \<Rightarrow> bool" where
  "frame_laws fo \<longleftrightarrow>
     (\<forall>f. from_planar fo (fr_channels fo f) (fr_sample_rate fo f) (fr_samples fo f) = f)"

text \<open>
  A frame the graph sends out is read back unchanged by a peer of the same shape: for one to 255
  channels and a non-empty whole number of samples per channel, decoding the encoded message gives the
  frame.
\<close>

theorem browser_frame_roundtrip:
  assumes "frame_laws fo" "0 < unat (fr_channels fo frame)" "unat (fr_channels fo frame) < 256"
    "fr_samples fo frame \<noteq> []" "unat (fr_channels fo frame) dvd length (fr_samples fo frame)"
  shows "rbind (encode_frame fo frame)
      (\<lambda>b. decode_frame fo opus b
        \<lparr>fs_channels = fr_channels fo frame, fs_sample_rate = fr_sample_rate fo frame\<rparr>) = Ok frame"
  using assms
  by (simp add: encode_frame_message decode_frame_pcm_message spec_wf_def frame_laws_def)

definition demo_frame_ops :: "(u16 \<times> u32 \<times> f32 list) frame_ops" where
  "demo_frame_ops =
     \<lparr>from_planar = (\<lambda>c r xs. (c, r, xs)), fr_channels = fst, fr_sample_rate = fst \<circ> snd, fr_samples = snd \<circ> snd\<rparr>"

lemma demo_frame_ops_simps [simp]:
  "from_planar demo_frame_ops c r xs = (c, r, xs)" "fr_channels demo_frame_ops (c, r, xs) = c"
  "fr_sample_rate demo_frame_ops (c, r, xs) = r" "fr_samples demo_frame_ops (c, r, xs) = xs"
  by (simp_all add: demo_frame_ops_def)

lemma demo_frame_laws: "frame_laws demo_frame_ops"
  by (auto simp: frame_laws_def)

theorem browser_frame_roundtrip_witness:
  "rbind (encode_frame demo_frame_ops (2, 48000, [0x3F800000, 0]))
      (\<lambda>b. decode_frame demo_frame_ops (None :: (unit, u16 \<times> u32 \<times> f32 list) opus_ops option) b
        \<lparr>fs_channels = 2, fs_sample_rate = 48000\<rparr>) = Ok (2, 48000, [0x3F800000, 0])"
  using browser_frame_roundtrip [OF demo_frame_laws, of "(2, 48000, [0x3F800000, 0])"] by simp

section \<open>Properties of the connections\<close>

text \<open>What ends a connection, and what its messages deliver.\<close>

fun conn_ends :: "'f conn_event \<Rightarrow> bool" where
  "conn_ends (Incoming (Some (Inr Close))) = True"
| "conn_ends (Incoming None) = True"
| "conn_ends (Incoming (Some (Inl _))) = True"
| "conn_ends _ = False"

fun delivered where
  "delivered fo opus spec (Incoming (Some (Inr (Binary b)))) =
     (case decode_frame fo opus b spec of Inr frame \<Rightarrow> [frame] | Inl _ \<Rightarrow> [])"
| "delivered fo opus spec _ = []"

definition conn_frames where
  "conn_frames fo opus spec evs = concat (map (delivered fo opus spec) (takeWhile (\<lambda>e. \<not> conn_ends e) evs))"

fun encoded where
  "encoded fo (PumpTick frames) = concat (map (\<lambda>f. case encode_frame fo f of Inr b \<Rightarrow> [b] | Inl _ \<Rightarrow> []) frames)"
| "encoded fo _ = []"

lemma pump_frames_sends:
  assumes "\<And>k b. send k b = Some (snd' k b)"
  shows "pump_frames fo send frames sink =
    (True, foldl snd' sink (concat (map (\<lambda>f. case encode_frame fo f of Inr b \<Rightarrow> [b] | Inl _ \<Rightarrow> []) frames)))"
  by (induction frames arbitrary: sink) (auto simp: assms split: sum.splits)

lemma conn_event_cases:
  obtains (binary) b where "e = Incoming (Some (Inr (Binary b)))"
    | (close) "e = Incoming (Some (Inr Close))" | (eof) "e = Incoming None"
    | (ping) "e = Incoming (Some (Inr Ping))" | (other) "e = Incoming (Some (Inr OtherMessage))"
    | (lost) m where "e = Incoming (Some (Inl m))" | (tick) frames where "e = PumpTick frames"
  by (metis conn_event.exhaust option.exhaust sum.exhaust Message.exhaust)

lemma connection_loop_frames:
  assumes "\<And>k b. send k b = Some (snd' k b)"
  shows "cs_inbound (snd (connection_loop fo opus push send close spec evs st)) =
      foldl (push_or_drop push) (cs_inbound st) (conn_frames fo opus spec evs)"
    and "fst (connection_loop fo opus push send close spec evs st) = None \<longleftrightarrow> list_all (\<lambda>e. \<not> conn_ends e) evs"
proof (induction evs arbitrary: st)
  case (Cons e evs)
  case 1
  show ?case using Cons.IH
    by (cases e rule: conn_event_cases) (auto simp: conn_frames_def pump_frames_sends [OF assms] split: sum.splits)
  case 2
  show ?case using Cons.IH
    by (cases e rule: conn_event_cases) (auto simp: pump_frames_sends [OF assms] split: sum.splits)
qed (simp_all add: conn_frames_def)

text \<open>
  While a connection is open and its socket takes what is sent, the two directions do not disturb
  each other: every frame the pump pops is sent in order, an unencodable one skipped, and every
  message the decoder accepts is pushed in order, whatever malformed, ping or other messages come in
  between.
\<close>

theorem connection_open_both_ways:
  assumes "\<And>k b. send k b = Some (put k b)" "list_all (\<lambda>e. \<not> conn_ends e) evs"
  shows "connection_loop fo opus push send close spec evs st =
    (None, \<lparr>cs_inbound = foldl (push_or_drop push) (cs_inbound st) (concat (map (delivered fo opus spec) evs)),
            cs_sink = foldl put (cs_sink st) (concat (map (encoded fo) evs))\<rparr>)"
  using assms(2)
proof (induction evs arbitrary: st)
  case (Cons e evs)
  then show ?case
    by (cases e rule: conn_event_cases) (auto simp: pump_frames_sends [OF assms(1)] split: sum.splits)
qed simp

theorem connection_open_both_ways_witness:
  "connection_loop demo_frame_ops (None :: (unit, u16 \<times> u32 \<times> f32 list) opus_ops option)
     (\<lambda>r f. if length r < 1 then Some (r @ [f]) else None) (\<lambda>k b. Some (k @ [b])) (\<lambda>k. k)
     \<lparr>fs_channels = 1, fs_sample_rate = 0\<rparr>
     [Incoming (Some (Inr (Binary [9]))), Incoming (Some (Inr (Binary [0, 1, 0, 0, 0, 0, 0, 0, 0, 0]))),
      PumpTick [(300, 0, []), (1, 0, [])], Incoming (Some (Inr Ping))]
     \<lparr>cs_inbound = [], cs_sink = []\<rparr> =
   (None, \<lparr>cs_inbound = [(1, 0, [0])], cs_sink = [[0, 1, 0, 0, 0, 0]]\<rparr>)"
  using connection_open_both_ways [where put = "\<lambda>k b. k @ [b]" and send = "\<lambda>k b. Some (k @ [b])" and fo = demo_frame_ops
    and opus = "None :: (unit, u16 \<times> u32 \<times> f32 list) opus_ops option"
    and push = "\<lambda>r f. if length r < 1 then Some (r @ [f]) else None" and close = "\<lambda>k. k"
    and spec = "\<lparr>fs_channels = 1, fs_sample_rate = 0\<rparr>" and st = "\<lparr>cs_inbound = [], cs_sink = []\<rparr>"
    and evs = "[Incoming (Some (Inr (Binary [9]))), Incoming (Some (Inr (Binary [0, 1, 0, 0, 0, 0, 0, 0, 0, 0]))),
      PumpTick [(300, 0, []), (1, 0, [])], Incoming (Some (Inr Ping))]"]
  by (simp add: decode_frame_def browser_decode_pcm_def BROWSER_HEADER_LEN_def TAG_PCM_def TAG_OPUS_def Let_def
      encode_frame_def to_le32_def to_be32_def from_le32_def from_be32_def push_or_drop_def)

text \<open>The frames a client gets through, and that its connection ends.\<close>

definition client_frames where
  "client_frames fo opus spec client =
     (case cl_upgrade client of Inl _ \<Rightarrow> [] | Inr _ \<Rightarrow> conn_frames fo opus spec (cl_events client))"

definition client_leaves :: "('f, 'k) client \<Rightarrow> bool" where
  "client_leaves client \<longleftrightarrow> is_err (cl_upgrade client) \<or> list_ex conn_ends (cl_events client)"

lemma accept_loop_frames:
  assumes "\<And>k b. send k b = Some (put k b)" "list_all client_leaves clients"
  shows "run_accept_loop_io fo opus push send close spec (map Inr clients) inbound =
    (None, foldl (push_or_drop push) inbound (concat (map (client_frames fo opus spec) clients)))"
  using assms(2)
proof (induction clients arbitrary: inbound)
  case (Cons client clients)
  from Cons.prems have leaves: "client_leaves client" by simp
  show ?case
  proof (cases "cl_upgrade client")
    case (Inl e)
    with Cons show ?thesis by (simp add: handle_connection_io_def client_frames_def)
  next
    case (Inr sink)
    let ?c = "connection_loop fo opus push send close spec (cl_events client) \<lparr>cs_inbound = inbound, cs_sink = sink\<rparr>"
    have "fst ?c \<noteq> None"
      unfolding connection_loop_frames(2) [where send = send, OF assms(1)] using leaves Inr
      by (simp add: client_leaves_def list_all_iff list_ex_iff)
    moreover have "cs_inbound (snd ?c) = foldl (push_or_drop push) inbound (client_frames fo opus spec client)"
      unfolding connection_loop_frames(1) [where send = send, OF assms(1)] using Inr by (simp add: client_frames_def)
    ultimately show ?thesis
      using Cons Inr by (auto simp: handle_connection_io_def case_prod_unfold)
  qed
qed simp



end
