(* ===== verification/Alsa_Params.thy ===== *)
theory Alsa_Params
  imports Prelude
begin

text \<open>
  The ALSA domain model: the sample formats of \<open>gw-alsa/src/format.rs\<close> and the hardware-parameter
  negotiation of \<open>gw-alsa/src/params.rs\<close>. A \<open>RangeInclusive\<close> is the pair of its ends, which may be
  inverted.
\<close>

section \<open>Formats\<close>

datatype AlsaFormat = S16Le | S24Le | S24_3Le | S32Le | Float32Le | Float64Le

datatype CoreSampleFormat = I16 | F32 | F64

fun to_alsa_value :: "AlsaFormat \<Rightarrow> u32" where
  "to_alsa_value S16Le = 2"
| "to_alsa_value S24Le = 6"
| "to_alsa_value S24_3Le = 32"
| "to_alsa_value S32Le = 10"
| "to_alsa_value Float32Le = 14"
| "to_alsa_value Float64Le = 15"

fun physical_width_bytes :: "AlsaFormat \<Rightarrow> u8" where
  "physical_width_bytes S16Le = 2"
| "physical_width_bytes S24Le = 3"
| "physical_width_bytes S24_3Le = 3"
| "physical_width_bytes S32Le = 4"
| "physical_width_bytes Float32Le = 4"
| "physical_width_bytes Float64Le = 8"

definition container_width_bytes :: "AlsaFormat \<Rightarrow> u8" where
  "container_width_bytes f = (case f of S24Le \<Rightarrow> 4 | _ \<Rightarrow> physical_width_bytes f)"

fun to_core_sample_format :: "AlsaFormat \<Rightarrow> CoreSampleFormat option" where
  "to_core_sample_format S16Le = Some I16"
| "to_core_sample_format S32Le = Some F32"
| "to_core_sample_format Float32Le = Some F32"
| "to_core_sample_format Float64Le = Some F64"
| "to_core_sample_format S24Le = None"
| "to_core_sample_format S24_3Le = None"

section \<open>Negotiation\<close>

type_synonym range_u32 = "u32 \<times> u32"

record HwConstraints =
  c_rates :: "u32 list option"
  c_channels :: "u16 list option"
  c_formats :: "AlsaFormat list option"
  c_period_size :: "range_u32 option"
  c_buffer_size :: "range_u32 option"

record HwParams =
  hw_sample_rate :: u32
  hw_channels :: u16
  hw_format :: AlsaFormat
  hw_period_size :: u32
  hw_buffer_size :: u32

datatype NegotiateError = NoRate | NoChannels | NoFormat | NoPeriod | BufferTooSmall

definition DEFAULT_RATES :: "u32 list" where "DEFAULT_RATES = [48000, 44100]"
definition DEFAULT_CHANNELS :: "u16 list" where "DEFAULT_CHANNELS = [2, 1]"
definition DEFAULT_PERIOD :: u32 where "DEFAULT_PERIOD = 256"

text \<open>\<open>Iterator::min\<close>.\<close>

definition iter_min :: "'a::linorder list \<Rightarrow> 'a option" where
  "iter_min xs = (case xs of [] \<Rightarrow> None | y # ys \<Rightarrow> Some (fold min ys y))"

definition pick_rate :: "u32 list option \<Rightarrow> NegotiateError + u32" where
  "pick_rate rates =
     (let allowed = (case rates of None \<Rightarrow> DEFAULT_RATES | Some v \<Rightarrow> v)
      in if allowed = [] then Err NoRate
         else if 48000 \<in> set allowed then Ok 48000
         else if 44100 \<in> set allowed then Ok 44100
         else ok_or NoRate (iter_min allowed))"

definition pick_channels :: "u16 list option \<Rightarrow> NegotiateError + u16" where
  "pick_channels channels =
     (let allowed = (case channels of None \<Rightarrow> DEFAULT_CHANNELS | Some v \<Rightarrow> v)
      in if allowed = [] then Err NoChannels
         else if 2 \<in> set allowed then Ok 2
         else if 1 \<in> set allowed then Ok 1
         else ok_or NoChannels (iter_min allowed))"

definition pick_format :: "AlsaFormat list option \<Rightarrow> NegotiateError + AlsaFormat" where
  "pick_format formats =
     (let allowed = (case formats of None \<Rightarrow> [S16Le] | Some v \<Rightarrow> v)
      in ok_or NoFormat (case allowed of [] \<Rightarrow> None | f # _ \<Rightarrow> Some f))"

definition pick_period :: "range_u32 option \<Rightarrow> NegotiateError + u32" where
  "pick_period r =
     (case r of None \<Rightarrow> Ok DEFAULT_PERIOD
      | Some (lo, hi) \<Rightarrow> if lo > hi then Err NoPeriod else Ok lo)"

definition pick_buffer :: "range_u32 option \<Rightarrow> u32 \<Rightarrow> NegotiateError + u32" where
  "pick_buffer r two_period =
     (case r of None \<Rightarrow> Ok two_period
      | Some (lo, hi) \<Rightarrow> if hi < two_period then Err BufferTooSmall else Ok (max lo two_period))"

definition negotiate :: "HwConstraints \<Rightarrow> NegotiateError + HwParams" where
  "negotiate c =
     rbind (pick_rate (c_rates c)) (\<lambda>sample_rate.
     rbind (pick_channels (c_channels c)) (\<lambda>channels.
     rbind (pick_format (c_formats c)) (\<lambda>fmt.
     rbind (pick_period (c_period_size c)) (\<lambda>period_size.
     let two_period = saturating_mul period_size 2
     in rbind (pick_buffer (c_buffer_size c) two_period) (\<lambda>buffer_size.
        Ok \<lparr>hw_sample_rate = sample_rate, hw_channels = channels, hw_format = fmt,
            hw_period_size = period_size, hw_buffer_size = buffer_size\<rparr>)))))"

section \<open>The contract of an axis\<close>

text \<open>
  Each axis reduces its constraint to one permitted value, and refuses, with its own error, only when
  nothing is permitted.
\<close>

locale axis =
  fixes pick :: "'c \<Rightarrow> NegotiateError + 'v" and permits :: "'c \<Rightarrow> 'v \<Rightarrow> bool" and err :: NegotiateError
  assumes picks_permitted: "pick c = Ok v \<Longrightarrow> permits c v"
    and refuses: "pick c = Err e \<Longrightarrow> e = err \<and> \<not> permits c v"
begin

lemma ok_iff: "(\<exists>v. pick c = Ok v) \<longleftrightarrow> (\<exists>v. permits c v)"
  using picks_permitted refuses by (metis sum.exhaust)

lemma pick_cases:
  obtains (picked) v where "pick c = Ok v" "permits c v" | (empty) "pick c = Err err" "\<And>v. \<not> permits c v"
  using picks_permitted refuses by (metis sum.exhaust)

end

definition listed :: "'a list option \<Rightarrow> 'a \<Rightarrow> bool" where
  "listed c v = (case c of None \<Rightarrow> True | Some vs \<Rightarrow> v \<in> set vs)"

definition in_range :: "range_u32 option \<Rightarrow> u32 \<Rightarrow> bool" where
  "in_range c v = (case c of None \<Rightarrow> True | Some (lo, hi) \<Rightarrow> lo \<le> v \<and> v \<le> hi)"

lemma fold_min_in: "fold min ys y \<in> set (y # ys)"
  by (induction ys arbitrary: y) (auto simp: min_def)

lemma iter_min_in: "iter_min xs = Some v \<Longrightarrow> v \<in> set xs"
  using fold_min_in by (auto simp: iter_min_def split: list.splits)

lemma iter_min_None: "iter_min xs = None \<longleftrightarrow> xs = []"
  by (simp add: iter_min_def split: list.splits)

lemma ok_or_eq_Err_iff [simp]: "ok_or e x = Err e' \<longleftrightarrow> x = None \<and> e' = e"
  by (cases x) auto

interpretation rate: axis pick_rate listed NoRate
  by unfold_locales
    (auto simp: pick_rate_def listed_def DEFAULT_RATES_def Let_def iter_min_None dest: iter_min_in
      split: if_splits option.splits)

interpretation channel: axis pick_channels listed NoChannels
  by unfold_locales
    (auto simp: pick_channels_def listed_def DEFAULT_CHANNELS_def Let_def iter_min_None dest: iter_min_in
      split: if_splits option.splits)

interpretation fmt: axis pick_format listed NoFormat
  by unfold_locales (auto simp: pick_format_def listed_def Let_def split: option.splits list.splits)

interpretation period: axis pick_period in_range NoPeriod
  by unfold_locales (auto simp: pick_period_def in_range_def split: if_splits option.splits)

section \<open>Correctness of the negotiation\<close>

text \<open>What a configuration must satisfy: every constraint, and room for two periods.\<close>

definition satisfies :: "HwConstraints \<Rightarrow> HwParams \<Rightarrow> bool" where
  "satisfies c p \<longleftrightarrow>
     listed (c_rates c) (hw_sample_rate p) \<and> listed (c_channels c) (hw_channels p) \<and>
     listed (c_formats c) (hw_format p) \<and> in_range (c_period_size c) (hw_period_size p) \<and>
     in_range (c_buffer_size c) (hw_buffer_size p) \<and>
     2 * unat (hw_period_size p) \<le> unat (hw_buffer_size p)"

definition small_period :: "HwConstraints \<Rightarrow> bool" where
  "small_period c = (case c_period_size c of None \<Rightarrow> True | Some (lo, _) \<Rightarrow> unat lo < 2 ^ 31)"

definition buffer_range_ok :: "HwConstraints \<Rightarrow> bool" where
  "buffer_range_ok c = (case c_buffer_size c of None \<Rightarrow> True | Some (lo, hi) \<Rightarrow> lo \<le> hi)"

lemma pick_period_least: "pick_period r = Ok v \<Longrightarrow> r = Some (lo, hi) \<Longrightarrow> v = lo"
  by (auto simp: pick_period_def split: if_splits)

lemma double_period:
  assumes "small_period c" "pick_period (c_period_size c) = Ok v"
  shows "unat (saturating_mul v 2) = 2 * unat v"
proof -
  have "unat v < 2 ^ 31"
    using assms by (auto simp: small_period_def pick_period_def DEFAULT_PERIOD_def split: if_splits option.splits)
  then show ?thesis by (simp add: unat_saturating_mul)
qed

lemma negotiate_Ok_iff:
  "negotiate c = Ok p \<longleftrightarrow>
     pick_rate (c_rates c) = Ok (hw_sample_rate p) \<and> pick_channels (c_channels c) = Ok (hw_channels p) \<and>
     pick_format (c_formats c) = Ok (hw_format p) \<and> pick_period (c_period_size c) = Ok (hw_period_size p) \<and>
     pick_buffer (c_buffer_size c) (saturating_mul (hw_period_size p) 2) = Ok (hw_buffer_size p)"
  by (cases p) (auto simp: negotiate_def Let_def result_iffs)

lemma pick_buffer_sound:
  assumes "pick_buffer r t = Ok b" "\<And>lo hi. r = Some (lo, hi) \<Longrightarrow> lo \<le> hi"
  shows "in_range r b \<and> t \<le> b"
  using assms by (auto simp: pick_buffer_def in_range_def max_def not_less split: if_splits option.splits)


definition demo_constraints :: HwConstraints where
  "demo_constraints =
     \<lparr>c_rates = Some [96000, 44100], c_channels = None, c_formats = Some [S24Le, S16Le],
      c_period_size = Some (64, 1024), c_buffer_size = Some (100, 4096)\<rparr>"

definition demo_params :: HwParams where
  "demo_params =
     \<lparr>hw_sample_rate = 44100, hw_channels = 2, hw_format = S24Le, hw_period_size = 64, hw_buffer_size = 128\<rparr>"

lemmas demo_negotiate_simps =
  demo_constraints_def demo_params_def negotiate_def pick_rate_def pick_channels_def DEFAULT_CHANNELS_def
  pick_format_def pick_period_def pick_buffer_def saturating_mul_def Let_def max_def
  buffer_range_ok_def small_period_def

lemma demo_negotiate: "negotiate demo_constraints = Ok demo_params"
  by (simp add: demo_negotiate_simps)




text \<open>
  An inverted buffer range is not refused as an empty period range is: when its upper end leaves
  room for two periods, the negotiation succeeds with a buffer size that the range does not permit.
\<close>

theorem negotiate_inverted_buffer:
  assumes "pick_rate (c_rates c) = Ok r" "pick_channels (c_channels c) = Ok h" "pick_format (c_formats c) = Ok f"
    "pick_period (c_period_size c) = Ok v" "c_buffer_size c = Some (lo, hi)" "hi < lo" "saturating_mul v 2 \<le> hi"
  shows "\<exists>p. negotiate c = Ok p \<and> \<not> in_range (c_buffer_size c) (hw_buffer_size p) \<and> hw_buffer_size p = lo"
  using assms by (auto simp: negotiate_def Let_def pick_buffer_def in_range_def max_def not_less)

theorem negotiate_inverted_buffer_witness:
  "\<exists>p. negotiate (demo_constraints\<lparr>c_buffer_size := Some (4096, 512)\<rparr>) = Ok p \<and>
     \<not> in_range (Some (4096, 512)) (hw_buffer_size p) \<and> hw_buffer_size p = 4096"
  using negotiate_inverted_buffer [of "demo_constraints\<lparr>c_buffer_size := Some (4096, 512)\<rparr>" 44100 2 S24Le 64 4096 512]
  by (simp add: demo_negotiate_simps)

section \<open>Widths\<close>

lemma container_width_ge: "physical_width_bytes f \<le> container_width_bytes f"
  by (cases f) (simp_all add: container_width_bytes_def)

lemma to_alsa_value_inj: "to_alsa_value f = to_alsa_value g \<longleftrightarrow> f = g"
  by (cases f; cases g) simp_all

end
