(* ===== verification/Alsa_Bridge.thy ===== *)
theory Alsa_Bridge
  imports Byte_Stream Float32
begin

text \<open>
  The local-socket bridge of the ALSA plugin (\<open>gw-alsa-plugin/src/bridge.rs\<close>): the handshake, the
  sample payload, the connection set-up and the configuration keys. Opening a socket is a parameter.
  An \<open>i64\<close> of the configuration is an \<open>int\<close>: it takes part in no arithmetic.
\<close>

section \<open>Constants and data\<close>

definition BRIDGE_MAGIC :: u32 where "BRIDGE_MAGIC = 0x53424E52"
definition BRIDGE_PROTO_VERSION :: u32 where "BRIDGE_PROTO_VERSION = 1"
definition DEFAULT_SERVER :: string where "DEFAULT_SERVER = ''127.0.0.1''"
definition DEFAULT_TCP_PORT :: u16 where "DEFAULT_TCP_PORT = 9001"
definition BRIDGE_DEFAULT_CHANNELS :: u32 where "BRIDGE_DEFAULT_CHANNELS = 2"
definition DEFAULT_RATE :: u32 where "DEFAULT_RATE = 48000"
definition MAX_CHANNELS :: u32 where "MAX_CHANNELS = 1024"
definition MAX_RATE :: u32 where "MAX_RATE = 768000"

datatype StreamDir = Playback | Capture

definition StreamDir_from_u32 :: "u32 \<Rightarrow> StreamDir option" where
  "StreamDir_from_u32 v = (if v = 0 then Some Playback else if v = 1 then Some Capture else None)"

definition StreamDir_as_u32 :: "StreamDir \<Rightarrow> u32" where
  "StreamDir_as_u32 d = (case d of Playback \<Rightarrow> 0 | Capture \<Rightarrow> 1)"

record Handshake =
  hs_magic :: u32
  hs_version :: u32
  hs_stream_dir :: StreamDir
  hs_channels :: u32
  hs_rate :: u32

definition Handshake_new :: "StreamDir \<Rightarrow> u32 \<Rightarrow> u32 \<Rightarrow> Handshake" where
  "Handshake_new stream_dir channels rate =
     \<lparr>hs_magic = BRIDGE_MAGIC, hs_version = BRIDGE_PROTO_VERSION, hs_stream_dir = stream_dir,
      hs_channels = channels, hs_rate = rate\<rparr>"

datatype HandshakeError = HsIo string | BadMagic u32 | UnsupportedVersion u32 | HsInvalid string

section \<open>Wire protocol\<close>

definition write_handshake :: "'k stream_ops \<Rightarrow> Handshake \<Rightarrow> ('k, string, unit) io" where
  "write_handshake ops hs =
     write_all ops
       (concat (map to_le32 [hs_magic hs, hs_version hs, StreamDir_as_u32 (hs_stream_dir hs), hs_channels hs, hs_rate hs]))"

definition parse_handshake :: "bytes \<Rightarrow> HandshakeError + Handshake" where
  "parse_handshake b =
     (let w = (\<lambda>i. from_le32 (b ! (i * 4)) (b ! (i * 4 + 1)) (b ! (i * 4 + 2)) (b ! (i * 4 + 3)));
          magic = w 0
      in if magic \<noteq> BRIDGE_MAGIC then Err (BadMagic magic)
         else
           let version = w 1
           in if version \<noteq> BRIDGE_PROTO_VERSION then Err (UnsupportedVersion version)
              else
                rbind (ok_or (HsInvalid ''stream_dir'') (StreamDir_from_u32 (w 2))) (\<lambda>stream_dir.
                let channels = w 3
                in if channels = 0 \<or> channels > MAX_CHANNELS then Err (HsInvalid ''channels'')
                   else
                     let rate = w 4
                     in if rate = 0 \<or> rate > MAX_RATE then Err (HsInvalid ''rate'')
                        else Ok \<lparr>hs_magic = magic, hs_version = version, hs_stream_dir = stream_dir,
                                 hs_channels = channels, hs_rate = rate\<rparr>))"

definition read_handshake :: "'k stream_ops \<Rightarrow> ('k, HandshakeError, Handshake) io" where
  "read_handshake ops = sbind (smap_err HsIo (read_exact ops 20)) (\<lambda>b. slift (parse_handshake b))"

definition send_frames :: "'k stream_ops \<Rightarrow> f32 list \<Rightarrow> ('k, string, unit) io" where
  "send_frames ops samples = write_all ops (concat (map to_le32 samples))"

text \<open>\<open>recv_frames_into\<close> with the length of the slice it fills; the filled slice is the result.\<close>

definition recv_frames_into :: "'k stream_ops \<Rightarrow> nat \<Rightarrow> ('k, string, f32 list) io" where
  "recv_frames_into ops n =
     sbind (read_exact ops (n * 4)) (\<lambda>b.
       sreturn (map (\<lambda>(a, b, c, d). from_le32 a b c d) (chunks_exact4 b)))"

section \<open>Connecting\<close>

datatype Endpoint = Unix string | Tcp string u16

datatype OpenError = OpenIo string | OpenHandshake HandshakeError | Mismatch Handshake Handshake

definition BridgeStream_connect ::
  "(Endpoint \<Rightarrow> string + 'k) \<Rightarrow> 'k stream_ops \<Rightarrow> Endpoint \<Rightarrow> StreamDir \<Rightarrow> u32 \<Rightarrow> u32 \<Rightarrow> OpenError + ('k \<times> Handshake)" where
  "BridgeStream_connect open_socket ops endpoint dir channels rate =
     rbind (map_err OpenIo (open_socket endpoint)) (\<lambda>stream.
     let offered = Handshake_new dir channels rate
     in case write_handshake ops offered stream of
          (Inl e, _) \<Rightarrow> Err (OpenIo e)
        | (Inr _, stream) \<Rightarrow>
            (case read_handshake ops stream of
               (Inl e, _) \<Rightarrow> Err (OpenHandshake e)
             | (Inr echoed, stream) \<Rightarrow>
                 if hs_stream_dir echoed \<noteq> hs_stream_dir offered \<or> hs_channels echoed \<noteq> hs_channels offered
                   \<or> hs_rate echoed \<noteq> hs_rate offered
                 then Err (Mismatch offered echoed)
                 else Ok (stream, echoed)))"

section \<open>Configuration\<close>

datatype ConfValue = StrValue string | IntValue int

definition as_str :: "ConfValue \<Rightarrow> string option" where
  "as_str v = (case v of StrValue s \<Rightarrow> Some s | IntValue _ \<Rightarrow> None)"

definition as_int :: "ConfValue \<Rightarrow> int option" where
  "as_int v = (case v of IntValue i \<Rightarrow> Some i | StrValue _ \<Rightarrow> None)"

record BridgeConfig =
  bc_endpoint :: Endpoint
  bc_channels :: u32
  bc_rate :: u32

datatype ConfigError = UnknownKey string | TypeMismatch string | Conflict string | ConfInvalid string

definition IGNORED_KEYS :: "string list" where
  "IGNORED_KEYS = [''type'', ''comment'', ''hint'']"

text \<open>The variables the loop over the pairs assigns.\<close>

record conf_vars =
  cv_socket :: "string option"
  cv_server :: "string option"
  cv_port :: "u16 option"
  cv_channels :: "int option"
  cv_rate :: "int option"

definition conf_vars_init :: conf_vars where
  "conf_vars_init = \<lparr>cv_socket = None, cv_server = None, cv_port = None, cv_channels = None, cv_rate = None\<rparr>"

text \<open>\<open>try_from\<close> of a signed integer into an unsigned type.\<close>

definition unsigned_try_from :: "int \<Rightarrow> 'a::len word option" where
  "unsigned_try_from i = (if 0 \<le> i \<and> i < 2 ^ LENGTH('a) then Some (word_of_int i) else None)"

definition conf_pair :: "string \<times> ConfValue \<Rightarrow> conf_vars \<Rightarrow> ConfigError + conf_vars" where
  "conf_pair kv vars =
     (let (key, v) = kv in
      if key = ''socket'' then
        rbind (ok_or (TypeMismatch key) (as_str v)) (\<lambda>s. Ok (vars\<lparr>cv_socket := Some s\<rparr>))
      else if key = ''server'' then
        rbind (ok_or (TypeMismatch key) (as_str v)) (\<lambda>s. Ok (vars\<lparr>cv_server := Some s\<rparr>))
      else if key = ''port'' then
        rbind (ok_or (TypeMismatch key) (as_int v)) (\<lambda>i.
        rbind (ok_or (ConfInvalid ''port out of range'') (unsigned_try_from i)) (\<lambda>q. Ok (vars\<lparr>cv_port := Some q\<rparr>)))
      else if key = ''channels'' then
        rbind (ok_or (TypeMismatch key) (as_int v)) (\<lambda>i. Ok (vars\<lparr>cv_channels := Some i\<rparr>))
      else if key = ''rate'' then
        rbind (ok_or (TypeMismatch key) (as_int v)) (\<lambda>i. Ok (vars\<lparr>cv_rate := Some i\<rparr>))
      else if key \<in> set IGNORED_KEYS then Ok vars
      else Err (UnknownKey key))"

primrec conf_loop :: "(string \<times> ConfValue) list \<Rightarrow> conf_vars \<Rightarrow> ConfigError + conf_vars" where
  "conf_loop [] vars = Ok vars"
| "conf_loop (kv # kvs) vars = rbind (conf_pair kv vars) (conf_loop kvs)"

text \<open>\<open>str::rsplit_once\<close>.\<close>

definition rsplit_once :: "char \<Rightarrow> string \<Rightarrow> (string \<times> string) option" where
  "rsplit_once c s =
     (if c \<in> set s then Some (rev (tl (dropWhile (\<lambda>x. x \<noteq> c) (rev s))), rev (takeWhile (\<lambda>x. x \<noteq> c) (rev s)))
      else None)"

definition parse_server :: "string \<Rightarrow> u16 option \<Rightarrow> ConfigError + (string \<times> u16)" where
  "parse_server server port_key =
     (case rsplit_once CHR '':'' server of
        Some (host, port_str) \<Rightarrow>
          if port_key \<noteq> None then Err (Conflict ''`server` already carries :port; drop the `port` key'')
          else if \<not> (host \<noteq> [] \<and> hd host = CHR ''['') \<and> CHR '':'' \<in> set host then
            Err (ConfInvalid ''bracket IPv6 literals as [addr]:port'')
          else
            rbind (ok_or (ConfInvalid (''bad port `'' @ port_str @ ''`'')) (parse_unsigned 16 port_str)) (\<lambda>q.
              if q = 0 then Err (ConfInvalid ''port must be >= 1'') else Ok (host, of_nat q))
      | None \<Rightarrow>
          (case port_key of
             Some q \<Rightarrow> if q \<noteq> 0 then Ok (server, q) else Err (ConfInvalid ''port must be >= 1'')
           | None \<Rightarrow> Err (ConfInvalid ''port must be >= 1'')))"

text \<open>A number within \<open>1..=hi\<close>.\<close>

definition bounded_u32 :: "u32 \<Rightarrow> int \<Rightarrow> u32 option" where
  "bounded_u32 hi i =
     (case unsigned_try_from i of Some w \<Rightarrow> if 1 \<le> w \<and> w \<le> hi then Some w else None | None \<Rightarrow> None)"

definition config_from_pairs :: "(string \<times> ConfValue) list \<Rightarrow> ConfigError + BridgeConfig" where
  "config_from_pairs pairs =
     rbind (conf_loop pairs conf_vars_init) (\<lambda>vars.
     if cv_socket vars \<noteq> None \<and> cv_server vars \<noteq> None then Err (Conflict ''`socket` and `server` are exclusive'')
     else if cv_port vars \<noteq> None \<and> cv_server vars = None then Err (Conflict ''`port` requires `server`'')
     else
       rbind
         (case cv_socket vars of
            Some path \<Rightarrow> Ok (Unix path)
          | None \<Rightarrow>
              let (server, defaulted) = (case cv_server vars of Some s \<Rightarrow> (s, False) | None \<Rightarrow> (DEFAULT_SERVER, True));
                  port = (case cv_port vars of Some q \<Rightarrow> Some q | None \<Rightarrow> if defaulted then Some DEFAULT_TCP_PORT else None)
              in rbind (parse_server server port) (\<lambda>(host, port). Ok (Tcp host port)))
         (\<lambda>endpoint.
       let channels = (case cv_channels vars of Some i \<Rightarrow> i | None \<Rightarrow> uint BRIDGE_DEFAULT_CHANNELS);
           rate = (case cv_rate vars of Some i \<Rightarrow> i | None \<Rightarrow> uint DEFAULT_RATE)
       in rbind (ok_or (ConfInvalid (''channels must be 1..='' @ show_word MAX_CHANNELS)) (bounded_u32 MAX_CHANNELS channels)) (\<lambda>channels.
          rbind (ok_or (ConfInvalid (''rate must be 1..='' @ show_word MAX_RATE)) (bounded_u32 MAX_RATE rate)) (\<lambda>rate.
          Ok \<lparr>bc_endpoint = endpoint, bc_channels = channels, bc_rate = rate\<rparr>))))"

section \<open>Properties of the wire protocol\<close>

text \<open>The handshakes the reader accepts.\<close>

definition handshake_valid :: "Handshake \<Rightarrow> bool" where
  "handshake_valid hs \<longleftrightarrow>
     hs_magic hs = BRIDGE_MAGIC \<and> hs_version hs = BRIDGE_PROTO_VERSION \<and>
     hs_channels hs \<noteq> 0 \<and> hs_channels hs \<le> MAX_CHANNELS \<and> hs_rate hs \<noteq> 0 \<and> hs_rate hs \<le> MAX_RATE"

definition handshake_bytes :: "Handshake \<Rightarrow> bytes" where
  "handshake_bytes hs =
     to_le32 (hs_magic hs) @ to_le32 (hs_version hs) @ to_le32 (StreamDir_as_u32 (hs_stream_dir hs)) @
     to_le32 (hs_channels hs) @ to_le32 (hs_rate hs)"

lemma length_handshake_bytes [simp]: "length (handshake_bytes hs) = 20"
  by (simp add: handshake_bytes_def)

lemma write_handshake_eq: "write_handshake ops hs = write_all ops (handshake_bytes hs)"
  by (simp add: write_handshake_def handshake_bytes_def)

lemma stream_dir_roundtrip [simp]: "StreamDir_from_u32 (StreamDir_as_u32 d) = Some d"
  by (cases d) (simp_all add: StreamDir_from_u32_def StreamDir_as_u32_def)

lemma stream_dir_from_u32: "StreamDir_from_u32 v = Some d \<longleftrightarrow> v = StreamDir_as_u32 d"
  by (cases d) (auto simp: StreamDir_from_u32_def StreamDir_as_u32_def)

lemma parse_handshake_bytes:
  assumes "handshake_valid hs"
  shows "parse_handshake (handshake_bytes hs) = Ok hs"
proof -
  obtain m1 m2 m3 m4 where m: "to_le32 (hs_magic hs) = [m1, m2, m3, m4]" "from_le32 m1 m2 m3 m4 = hs_magic hs"
    by (rule to_le32_ex)
  obtain v1 v2 v3 v4 where v: "to_le32 (hs_version hs) = [v1, v2, v3, v4]" "from_le32 v1 v2 v3 v4 = hs_version hs"
    by (rule to_le32_ex)
  obtain d1 d2 d3 d4 where d: "to_le32 (StreamDir_as_u32 (hs_stream_dir hs)) = [d1, d2, d3, d4]"
    "from_le32 d1 d2 d3 d4 = StreamDir_as_u32 (hs_stream_dir hs)" by (rule to_le32_ex)
  obtain c1 c2 c3 c4 where c: "to_le32 (hs_channels hs) = [c1, c2, c3, c4]" "from_le32 c1 c2 c3 c4 = hs_channels hs"
    by (rule to_le32_ex)
  obtain r1 r2 r3 r4 where r: "to_le32 (hs_rate hs) = [r1, r2, r3, r4]" "from_le32 r1 r2 r3 r4 = hs_rate hs"
    by (rule to_le32_ex)
  from assms m v d c r show ?thesis
    by (simp add: parse_handshake_def handshake_bytes_def handshake_valid_def not_less Let_def)
qed

lemma list_of_20:
  "length (b :: 'a list) = 20 \<Longrightarrow>
   b = [b ! 0, b ! 1, b ! 2, b ! 3] @ [b ! 4, b ! 5, b ! 6, b ! 7] @ [b ! 8, b ! 9, b ! 10, b ! 11] @
       [b ! 12, b ! 13, b ! 14, b ! 15] @ [b ! 16, b ! 17, b ! 18, b ! 19]"
  by (intro nth_equalityI) (auto simp: less_Suc_eq numeral_eq_Suc)

text \<open>
  The handshake reader accepts exactly the frames the writer produces from a valid handshake: of
  all 20-byte frames, those and no others parse, each to the handshake it was written from.
\<close>

theorem parse_handshake_iff:
  assumes "length b = 20"
  shows "parse_handshake b = Ok hs \<longleftrightarrow> b = handshake_bytes hs \<and> handshake_valid hs"
proof
  assume L: "parse_handshake b = Ok hs"
  let ?w = "\<lambda>i. from_le32 (b ! i) (b ! (i + 1)) (b ! (i + 2)) (b ! (i + 3))"
  from L have w: "?w 0 = hs_magic hs" "?w 4 = hs_version hs" "?w 8 = StreamDir_as_u32 (hs_stream_dir hs)"
    "?w 12 = hs_channels hs" "?w 16 = hs_rate hs" and "handshake_valid hs"
    by (auto simp: parse_handshake_def Let_def rbind_eq_Ok_iff stream_dir_from_u32 handshake_valid_def not_less
        split: if_splits)
  moreover have "b = handshake_bytes hs"
    unfolding handshake_bytes_def w [symmetric] to_le32_from_le32
    by (subst list_of_20 [OF assms]) (simp add: numeral_2_eq_2)
  ultimately show "b = handshake_bytes hs \<and> handshake_valid hs" by simp
qed (auto simp: parse_handshake_bytes)

theorem parse_handshake_iff_witness:
  "parse_handshake (handshake_bytes (Handshake_new Capture 2 48000)) = Ok (Handshake_new Capture 2 48000)"
  using parse_handshake_iff [of "handshake_bytes (Handshake_new Capture 2 48000)" "Handshake_new Capture 2 48000"]
  by (simp add: handshake_valid_def Handshake_new_def MAX_CHANNELS_def MAX_RATE_def)

lemma recv_frames_sent:
  assumes "reads ops inbox" "inbox k = concat (map to_le32 samples) @ rest"
  obtains k' where "recv_frames_into ops (length samples) k = (Ok samples, k')" "inbox k' = rest"
proof -
  have "length (concat (map to_le32 samples)) = length samples * 4"
    by (simp add: length_concat comp_def sum_list_triv)
  then obtain k' where "read_exact ops (length samples * 4) k = (Ok (concat (map to_le32 samples)), k')" "inbox k' = rest"
    by (rule read_exact_append [OF assms])
  then show thesis by (intro that) (simp_all add: recv_frames_into_def sbind_def chunks_exact4_le32)
qed

section \<open>Properties of the configuration\<close>

lemma bounded_u32_iff: "bounded_u32 hi i = Some w \<longleftrightarrow> i = uint w \<and> 1 \<le> w \<and> w \<le> hi"
proof -
  have "0 \<le> uint w \<and> uint w < 2 ^ 32" using uint_lt2p [of w] by simp
  then show ?thesis
    by (auto simp: bounded_u32_def unsigned_try_from_def uint_word_of_int split: if_splits)
qed

lemma parse_server_port: "parse_server server q = Ok (host, port) \<Longrightarrow> port \<noteq> 0"
  by (auto simp: parse_server_def rbind_eq_Ok_iff parse_unsigned_def Let_def word_of_nat_eq_0_iff
      dest: nat_dvd_not_less split: option.splits if_splits)

definition endpoint_ok :: "Endpoint \<Rightarrow> bool" where
  "endpoint_ok e = (case e of Unix _ \<Rightarrow> True | Tcp _ port \<Rightarrow> port \<noteq> 0)"

lemma config_from_pairs_bounds:
  assumes "config_from_pairs pairs = Ok cfg"
  shows "endpoint_ok (bc_endpoint cfg) \<and> 1 \<le> bc_channels cfg \<and> bc_channels cfg \<le> MAX_CHANNELS \<and>
    1 \<le> bc_rate cfg \<and> bc_rate cfg \<le> MAX_RATE"
  using assms
  by (auto simp: config_from_pairs_def result_iffs Let_def bounded_u32_iff endpoint_ok_def dest: parse_server_port
      split: if_splits option.splits)

lemma rsplit_once_join:
  assumes "c \<notin> set t"
  shows "rsplit_once c (s @ c # t) = Some (s, t)"
proof -
  have "dropWhile (\<lambda>x. x \<noteq> c) (rev t @ c # rev s) = c # rev s" "takeWhile (\<lambda>x. x \<noteq> c) (rev t @ c # rev s) = rev t"
    using assms by (subst dropWhile_append2 takeWhile_append2, auto)+
  then show ?thesis by (simp add: rsplit_once_def)
qed



lemma colon_not_in_show_nat: "CHR '':'' \<notin> set (show_nat n)"
  by (rule not_digit_in_show_nat) (simp add: is_digit_def)

text \<open>
  A \<open>server\<close> value with a port is split at its last colon: for a non-zero port, a host that has
  no colon or starts with a bracket is returned as it is, its brackets included, with that port; any
  other host is refused, and so is a \<open>port\<close> key beside it.
\<close>

theorem parse_server_split:
  assumes "port \<noteq> 0"
  shows "parse_server (host @ '':'' @ show_word port) key =
    (if key \<noteq> None then Err (Conflict ''`server` already carries :port; drop the `port` key'')
     else if CHR '':'' \<in> set host \<and> take 1 host \<noteq> ''['' then Err (ConfInvalid ''bracket IPv6 literals as [addr]:port'')
     else Ok (host, port))"
proof -
  have split: "rsplit_once CHR '':'' (host @ '':'' @ show_word port) = Some (host, show_word port)"
    using rsplit_once_join [of "CHR '':''" "show_word port" host] colon_not_in_show_nat by (simp add: show_word_def)
  have "unat port < 2 ^ 16" using unsigned_less [of port] by simp
  then have p: "parse_unsigned 16 (show_word port) = Some (unat port)" by (simp add: show_word_def parse_show_nat)
  have z: "unat port \<noteq> 0" using assms by (simp add: unat_eq_zero)
  show ?thesis unfolding parse_server_def split by (cases host) (auto simp: p z)
qed

theorem parse_server_split_witness:
  "parse_server (''[::1]'' @ '':'' @ show_word (9001 :: u16)) None = Ok (''[::1]'', 9001)"
  using parse_server_split [of 9001 "''[::1]''" None] by simp

text \<open>
  A bare-host \<open>server\<close> without a \<open>port\<close> key is refused, although the port is documented to default
  to 9001; only a configuration that names neither gets the default endpoint.
\<close>

theorem bare_host_needs_port:
  assumes "CHR '':'' \<notin> set host"
  shows "config_from_pairs [(''server'', StrValue host)] = Err (ConfInvalid ''port must be >= 1'')"
  using assms
  by (simp add: config_from_pairs_def conf_pair_def conf_vars_init_def as_str_def parse_server_def rsplit_once_def)

theorem bare_host_needs_port_witness:
  "config_from_pairs [(''server'', StrValue ''localhost'')] = Err (ConfInvalid ''port must be >= 1'')"
  using bare_host_needs_port [of "''localhost''"] by simp

end
