(* ===== verification/Alsa_Plugin.thy ===== *)
theory Alsa_Plugin
  imports Alsa_Bridge
begin

text \<open>
  The ALSA side of the plugin (\<open>gw-alsa-plugin/src/lib.rs\<close>): the transfer callbacks and the opening of
  a PCM. The process memory that the channel areas point into is a function from addresses to bytes;
  pointer and offset arithmetic is that of \<open>u64\<close>, wrapping. libasound is a parameter: the values its
  functions return. \<open>None\<close> stands for a panic (an index out of range).
\<close>

section \<open>Data\<close>

record SndPcmChannelArea =
  ca_addr :: u64
  ca_first :: u32
  ca_step :: u32

record SndPcmIoplug =
  io_poll_events :: u32
  io_stream :: int
  io_channels :: u32
  io_rate :: u32
  io_buffer_size :: u64

record 'k SonicbrewPcm =
  sp_io :: SndPcmIoplug
  sp_bridge :: 'k
  sp_channels :: nat
  sp_hw_frames :: u64
  sp_samples :: "f32 list"

definition HW_ACCESS :: int where "HW_ACCESS = 0"
definition HW_FORMAT :: int where "HW_FORMAT = 1"
definition HW_CHANNELS :: int where "HW_CHANNELS = 2"
definition HW_RATE :: int where "HW_RATE = 3"
definition SND_PCM_ACCESS_RW_INTERLEAVED :: u32 where "SND_PCM_ACCESS_RW_INTERLEAVED = 3"
definition SND_PCM_FORMAT_FLOAT_LE :: u32 where "SND_PCM_FORMAT_FLOAT_LE = 14"
definition SND_PCM_STREAM_PLAYBACK :: int where "SND_PCM_STREAM_PLAYBACK = 0"
definition SND_PCM_STREAM_CAPTURE :: int where "SND_PCM_STREAM_CAPTURE = 1"
definition POLLIN :: u32 where "POLLIN = 1"
definition POLLOUT :: u32 where "POLLOUT = 4"
definition EIO :: int where "EIO = 5"
definition EINVAL :: int where "EINVAL = 22"
definition ENOENT :: int where "ENOENT = 2"

section \<open>Memory\<close>

type_synonym memory = "u64 \<Rightarrow> u8"

text \<open>\<open>read_unaligned\<close> and \<open>write_unaligned\<close> of an \<open>f32\<close>, on the little-endian targets of the plugin.\<close>

definition read_f32 :: "memory \<Rightarrow> u64 \<Rightarrow> f32" where
  "read_f32 mem a = from_le32 (mem a) (mem (a + 1)) (mem (a + 2)) (mem (a + 3))"

fun store_bytes :: "memory \<Rightarrow> u64 \<Rightarrow> bytes \<Rightarrow> memory" where
  "store_bytes mem a [] = mem"
| "store_bytes mem a (b # bs) = store_bytes (mem(a := b)) (a + 1) bs"

definition write_f32 :: "memory \<Rightarrow> u64 \<Rightarrow> f32 \<Rightarrow> memory" where
  "write_f32 mem a v = store_bytes mem a (to_le32 v)"

definition sample_addr :: "SndPcmChannelArea \<Rightarrow> u64 \<Rightarrow> nat \<Rightarrow> u64" where
  "sample_addr area off frame =
     (let bits = ucast (ca_first area) + (off + of_nat frame) * ucast (ca_step area)
      in ca_addr area + bits div 8)"

text \<open>A nested \<open>for\<close> over frames and channels, in order.\<close>

definition frame_indices :: "nat \<Rightarrow> nat \<Rightarrow> (nat \<times> nat) list" where
  "frame_indices n channels = concat (map (\<lambda>frame. map (\<lambda>ch. (frame, ch)) [0..<channels]) [0..<n])"

fun gather_loop ::
  "memory \<Rightarrow> (nat \<Rightarrow> SndPcmChannelArea) \<Rightarrow> u64 \<Rightarrow> nat \<Rightarrow> (nat \<times> nat) list \<Rightarrow> f32 list \<Rightarrow> f32 list option" where
  "gather_loop mem areas off channels [] samples = Some samples"
| "gather_loop mem areas off channels ((frame, ch) # fcs) samples =
     (let idx = frame * channels + ch
      in if idx < length samples then
           gather_loop mem areas off channels fcs (samples[idx := read_f32 mem (sample_addr (areas ch) off frame)])
         else None)"

definition gather_interleaved ::
  "memory \<Rightarrow> f32 list \<Rightarrow> (nat \<Rightarrow> SndPcmChannelArea) \<Rightarrow> u64 \<Rightarrow> nat \<Rightarrow> nat \<Rightarrow> f32 list option" where
  "gather_interleaved mem samples areas off n channels =
     gather_loop mem areas off channels (frame_indices n channels) samples"

fun scatter_loop ::
  "f32 list \<Rightarrow> (nat \<Rightarrow> SndPcmChannelArea) \<Rightarrow> u64 \<Rightarrow> nat \<Rightarrow> (nat \<times> nat) list \<Rightarrow> memory \<Rightarrow> memory option" where
  "scatter_loop samples areas off channels [] mem = Some mem"
| "scatter_loop samples areas off channels ((frame, ch) # fcs) mem =
     (let idx = frame * channels + ch
      in if idx < length samples then
           scatter_loop samples areas off channels fcs (write_f32 mem (sample_addr (areas ch) off frame) (samples ! idx))
         else None)"

definition scatter_interleaved ::
  "f32 list \<Rightarrow> (nat \<Rightarrow> SndPcmChannelArea) \<Rightarrow> u64 \<Rightarrow> nat \<Rightarrow> nat \<Rightarrow> memory \<Rightarrow> memory option" where
  "scatter_interleaved samples areas off n channels mem =
     scatter_loop samples areas off channels (frame_indices n channels) mem"

section \<open>Callbacks\<close>

definition cb_pointer :: "'k SonicbrewPcm \<Rightarrow> u64" where
  "cb_pointer sb =
     (let buffer = io_buffer_size (sp_io sb)
      in if buffer = 0 then 0 else sp_hw_frames sb mod buffer)"

text \<open>\<open>Vec::resize\<close> with zeros.\<close>

definition resize :: "nat \<Rightarrow> f32 list \<Rightarrow> f32 list" where
  "resize n xs = take n xs @ replicate (n - length xs) 0"

text \<open>One transfer: the result, the plugin's state and the memory after it.\<close>

definition transfer_frames ::
  "'k stream_ops \<Rightarrow> int \<Rightarrow> (nat \<Rightarrow> SndPcmChannelArea) \<Rightarrow> u64 \<Rightarrow> u64 \<Rightarrow> 'k SonicbrewPcm \<times> memory
   \<Rightarrow> ((string + u64) \<times> 'k SonicbrewPcm \<times> memory) option" where
  "transfer_frames ops stream areas off n s =
     (let (sb, mem) = s in
      case checked_mul n (of_nat (sp_channels sb)) of
        None \<Rightarrow> Some (Err ''frame count overflow'', sb, mem)
      | Some cnt \<Rightarrow>
          let sb = sb\<lparr>sp_samples := resize (unat cnt) (sp_samples sb)\<rparr>
          in if stream = SND_PCM_STREAM_PLAYBACK then
               (case gather_interleaved mem (sp_samples sb) areas off (unat n) (sp_channels sb) of
                  None \<Rightarrow> None
                | Some samples \<Rightarrow>
                    let (r, k) = send_frames ops samples (sp_bridge sb);
                        sb = sb\<lparr>sp_samples := samples, sp_bridge := k\<rparr>
                    in (case r of
                          Inl e \<Rightarrow> Some (Err e, sb, mem)
                        | Inr _ \<Rightarrow> Some (Ok n, sb\<lparr>sp_hw_frames := sp_hw_frames sb + n\<rparr>, mem)))
             else
               (let (r, k) = recv_frames_into ops (length (sp_samples sb)) (sp_bridge sb);
                    sb = sb\<lparr>sp_bridge := k\<rparr>
                in case r of
                     Inl e \<Rightarrow> Some (Err e, sb, mem)
                   | Inr samples \<Rightarrow>
                       (case scatter_interleaved samples areas off (unat n) (sp_channels sb) mem of
                          None \<Rightarrow> None
                        | Some mem \<Rightarrow>
                            Some (Ok n, sb\<lparr>sp_samples := samples, sp_hw_frames := sp_hw_frames sb + n\<rparr>, mem))))"

definition cb_transfer ::
  "'k stream_ops \<Rightarrow> (nat \<Rightarrow> SndPcmChannelArea) \<Rightarrow> u64 \<Rightarrow> u64 \<Rightarrow> 'k SonicbrewPcm \<times> memory
   \<Rightarrow> (u64 \<times> 'k SonicbrewPcm \<times> memory) option" where
  "cb_transfer ops areas off n s =
     (case transfer_frames ops (io_stream (sp_io (fst s))) areas off n s of
        None \<Rightarrow> None
      | Some (Inr m, s') \<Rightarrow> Some (m, s')
      | Some (Inl _, s') \<Rightarrow> Some (- word_of_int EIO, s'))"

section \<open>Opening a PCM\<close>

datatype OpenFail = FailConfig ConfigError | FailBridge OpenError | FailAlsa int | BadStream

text \<open>What the plugin calls of libasound.\<close>

record 'n alsa_ops =
  config_search :: "string \<Rightarrow> int \<times> 'n"
  config_get_string :: "'n \<Rightarrow> int \<times> string"
  config_get_integer :: "'n \<Rightarrow> int \<times> int"
  ioplug_create :: int
  set_param_list :: "int \<Rightarrow> u32 list \<Rightarrow> int"

primrec extract_keys :: "'n alsa_ops \<Rightarrow> (string \<times> bool) list \<Rightarrow> int + (string \<times> ConfValue) list" where
  "extract_keys alsa [] = Ok []"
| "extract_keys alsa (k # ks) =
     (let (key, is_str) = k; (r, node) = config_search alsa key
      in if r = - ENOENT then extract_keys alsa ks
         else if r < 0 then Err r
         else
           rbind
             (if is_str then
                let (r, s) = config_get_string alsa node in if r < 0 then Err r else Ok (StrValue s)
              else
                let (r, v) = config_get_integer alsa node in if r < 0 then Err r else Ok (IntValue v))
             (\<lambda>v. rbind (extract_keys alsa ks) (\<lambda>kvs. Ok ((key, v) # kvs))))"

definition extract_conf_pairs :: "'n alsa_ops \<Rightarrow> int + (string \<times> ConfValue) list" where
  "extract_conf_pairs alsa =
     extract_keys alsa
       [(''socket'', True), (''server'', True), (''port'', False), (''channels'', False), (''rate'', False)]"

primrec pin_lists :: "'n alsa_ops \<Rightarrow> (int \<times> u32 list) list \<Rightarrow> int + unit" where
  "pin_lists alsa [] = Ok ()"
| "pin_lists alsa (p # ps) =
     (let r = set_param_list alsa (fst p) (snd p) in if r < 0 then Err r else pin_lists alsa ps)"

definition pin_hw :: "'n alsa_ops \<Rightarrow> u32 \<Rightarrow> u32 \<Rightarrow> int + unit" where
  "pin_hw alsa channels rate =
     pin_lists alsa
       [(HW_ACCESS, [SND_PCM_ACCESS_RW_INTERLEAVED]), (HW_FORMAT, [SND_PCM_FORMAT_FLOAT_LE]),
        (HW_CHANNELS, [channels]), (HW_RATE, [rate])]"

definition open_pcm ::
  "'n alsa_ops \<Rightarrow> (Endpoint \<Rightarrow> string + 'k) \<Rightarrow> 'k stream_ops \<Rightarrow> int \<Rightarrow> OpenFail + 'k SonicbrewPcm" where
  "open_pcm alsa open_socket ops stream =
     rbind (if stream = SND_PCM_STREAM_PLAYBACK then Ok Playback
            else if stream = SND_PCM_STREAM_CAPTURE then Ok Capture else Err BadStream) (\<lambda>dir.
     rbind (map_err FailAlsa (extract_conf_pairs alsa)) (\<lambda>pairs.
     rbind (map_err FailConfig (config_from_pairs pairs)) (\<lambda>cfg.
     rbind (map_err FailBridge
              (BridgeStream_connect open_socket ops (bc_endpoint cfg) dir (bc_channels cfg) (bc_rate cfg))) (\<lambda>(sock, echoed).
     let sb = \<lparr>sp_io = \<lparr>io_poll_events = (if dir = Playback then POLLOUT else POLLIN), io_stream = stream,
                         io_channels = bc_channels cfg, io_rate = bc_rate cfg, io_buffer_size = 0\<rparr>,
               sp_bridge = sock, sp_channels = unat (bc_channels cfg), sp_hw_frames = 0, sp_samples = []\<rparr>
     in if ioplug_create alsa < 0 then Err (FailAlsa (ioplug_create alsa))
        else rbind (map_err FailAlsa (pin_hw alsa (bc_channels cfg) (bc_rate cfg))) (\<lambda>_. Ok sb)))))"

definition snd_pcm_sonicbrew_open ::
  "'n alsa_ops \<Rightarrow> (Endpoint \<Rightarrow> string + 'k) \<Rightarrow> 'k stream_ops \<Rightarrow> int \<Rightarrow> int \<times> 'k SonicbrewPcm option" where
  "snd_pcm_sonicbrew_open alsa open_socket ops stream =
     (case open_pcm alsa open_socket ops stream of
        Inr sb \<Rightarrow> (0, Some sb)
      | Inl e \<Rightarrow>
          ((case e of
              FailConfig _ \<Rightarrow> - EINVAL
            | FailBridge (OpenHandshake _) \<Rightarrow> - EINVAL
            | FailBridge (Mismatch _ _) \<Rightarrow> - EINVAL
            | BadStream \<Rightarrow> - EINVAL
            | FailBridge (OpenIo _) \<Rightarrow> - EIO
            | FailAlsa code \<Rightarrow> code), None))"

section \<open>Transfers on interleaved areas\<close>

text \<open>The areas libasound passes for \<open>SND_PCM_ACCESS_RW_INTERLEAVED\<close> and 32-bit samples.\<close>

definition interleaved :: "u64 \<Rightarrow> nat \<Rightarrow> nat \<Rightarrow> SndPcmChannelArea" where
  "interleaved a channels c = \<lparr>ca_addr = a, ca_first = of_nat (32 * c), ca_step = of_nat (32 * channels)\<rparr>"

definition region :: "memory \<Rightarrow> u64 \<Rightarrow> nat \<Rightarrow> bytes" where
  "region mem a n = map (\<lambda>i. mem (a + of_nat i)) [0..<n]"

text \<open>The frames fit the address arithmetic: no offset in bits wraps.\<close>

definition frames_fit :: "nat \<Rightarrow> u64 \<Rightarrow> u64 \<Rightarrow> bool" where
  "frames_fit channels off n \<longleftrightarrow> 32 * channels < 2 ^ 32 \<and> 32 * channels * (unat off + unat n) < 2 ^ 64"

lemma of_nat_div8: "x < 2 ^ 64 \<Longrightarrow> (of_nat x :: u64) div 8 = of_nat (x div 8)"
  by (simp add: word_unat_eq_iff unat_div unat_of_nat)

lemma ucast_of_nat_u32: "x < 2 ^ 32 \<Longrightarrow> (ucast (of_nat x :: u32) :: u64) = of_nat x"
  by (simp add: word_unat_eq_iff unsigned_ucast_eq unat_of_nat take_bit_eq_mod)

lemma sample_addr_interleaved:
  assumes "frames_fit channels off n" "frame < unat n" "c < channels"
  shows "sample_addr (interleaved a channels c) off frame =
    a + of_nat (4 * channels * unat off) + of_nat (4 * (frame * channels + c))"
proof -
  let ?x = "32 * (c + (unat off + frame) * channels)"
  have "c + (unat off + frame) * channels < (unat off + unat n) * channels"
  proof -
    have "c + (unat off + frame) * channels < (unat off + frame + 1) * channels" using assms(3) by simp
    also have "\<dots> \<le> (unat off + unat n) * channels" using assms(2) by (intro mult_right_mono) simp_all
    finally show ?thesis .
  qed
  then have "?x < 32 * ((unat off + unat n) * channels)" by (rule mult_strict_left_mono) simp
  also have "\<dots> < 2 ^ 64" using assms(1) by (simp add: frames_fit_def mult_ac)
  finally have x: "?x < 2 ^ 64" .
  have "32 * c < 2 ^ 32" using assms(1,3) by (simp add: frames_fit_def)
  then have "(ucast (ca_first (interleaved a channels c)) :: u64) = of_nat (32 * c)"
    unfolding interleaved_def by (simp add: ucast_of_nat_u32 del: of_nat_mult)
  moreover have "(ucast (ca_step (interleaved a channels c)) :: u64) = of_nat (32 * channels)"
    using assms(1) unfolding interleaved_def frames_fit_def by (simp add: ucast_of_nat_u32 del: of_nat_mult)
  ultimately have "ucast (ca_first (interleaved a channels c)) + (off + of_nat frame) * ucast (ca_step (interleaved a channels c))
      = (of_nat ?x :: u64)"
    by (simp add: algebra_simps)
  then show ?thesis
    unfolding sample_addr_def Let_def by (simp only: of_nat_div8 [OF x]) (simp add: interleaved_def algebra_simps)
qed

lemma frame_indices_Suc:
  "frame_indices (Suc n) channels = frame_indices n channels @ map (\<lambda>ch. (n, ch)) [0..<channels]"
  by (simp add: frame_indices_def)

lemma frame_indices_order: "map (\<lambda>(f, c). f * channels + c) (frame_indices n channels) = [0..<n * channels]"
proof (induction n)
  case (Suc n)
  have "map (\<lambda>ch. n * channels + ch) [0..<channels] = [n * channels..<n * channels + channels]"
    by (simp add: map_add_upt add.commute)
  moreover have "[0..<Suc n * channels] = [0..<n * channels] @ [n * channels..<n * channels + channels]"
    using upt_add_eq_append [of 0 "n * channels" channels] by (simp add: add.commute)
  ultimately show ?case using Suc.IH
    by (simp only: frame_indices_Suc map_append map_map comp_def prod.case)
qed (simp add: frame_indices_def)

lemma length_frame_indices [simp]: "length (frame_indices n channels) = n * channels"
  using arg_cong [OF frame_indices_order, of length] by simp

lemma frame_indices_bounds: "(f, c) \<in> set (frame_indices n channels) \<Longrightarrow> f < n \<and> c < channels"
  by (auto simp: frame_indices_def)

lemma gather_loop_eq:
  assumes "map (\<lambda>(f, c). f * channels + c) fcs = [i..<length samples]" "i \<le> length samples"
  shows "gather_loop mem areas off channels fcs samples =
    Some (take i samples @ map (\<lambda>(f, c). read_f32 mem (sample_addr (areas c) off f)) fcs)"
  using assms
proof (induction fcs arbitrary: i samples)
  case (Cons fc fcs)
  obtain f c where fc: "fc = (f, c)" by fastforce
  from Cons.prems have lt: "i < length samples" by (cases "i < length samples") auto
  then have "[i..<length samples] = i # [Suc i..<length samples]" by (rule upt_conv_Cons)
  with Cons.prems fc have i: "f * channels + c = i" and
    rest: "map (\<lambda>(f, c). f * channels + c) fcs = [Suc i..<length samples]" by simp_all
  let ?s = "samples[i := read_f32 mem (sample_addr (areas c) off f)]"
  have "gather_loop mem areas off channels fcs ?s =
      Some (take (Suc i) ?s @ map (\<lambda>(f, c). read_f32 mem (sample_addr (areas c) off f)) fcs)"
    using rest lt by (intro Cons.IH) simp_all
  moreover have "take (Suc i) ?s = take i samples @ [read_f32 mem (sample_addr (areas c) off f)]"
    using lt by (simp add: take_Suc_conv_app_nth)
  ultimately show ?case using lt i by (simp add: fc)
next
  case Nil
  then have "length samples \<le> i" using upt_eq_Nil_conv [of i "length samples"] by fastforce
  then show ?case by simp
qed

lemma store_bytes_append: "store_bytes mem a (xs @ ys) = store_bytes (store_bytes mem a xs) (a + of_nat (length xs)) ys"
  by (induction xs arbitrary: mem a) (simp_all add: algebra_simps)

lemma scatter_loop_eq:
  assumes "map (\<lambda>(f, c). f * channels + c) fcs = [i..<length samples]" "i \<le> length samples"
    "\<And>f c. (f, c) \<in> set fcs \<Longrightarrow> sample_addr (areas c) off f = b + of_nat (4 * (f * channels + c))"
  shows "scatter_loop samples areas off channels fcs mem =
    Some (store_bytes mem (b + of_nat (4 * i)) (concat (map to_le32 (drop i samples))))"
  using assms
proof (induction fcs arbitrary: i mem)
  case (Cons fc fcs)
  obtain f c where fc: "fc = (f, c)" by fastforce
  from Cons.prems have lt: "i < length samples" by (cases "i < length samples") auto
  then have "[i..<length samples] = i # [Suc i..<length samples]" by (rule upt_conv_Cons)
  with Cons.prems fc have i: "f * channels + c = i" and
    rest: "map (\<lambda>(f, c). f * channels + c) fcs = [Suc i..<length samples]" by simp_all
  have addr: "sample_addr (areas c) off f = b + of_nat (4 * i)" using Cons.prems(3) [of f c] i fc by simp
  let ?m = "write_f32 mem (b + of_nat (4 * i)) (samples ! i)"
  have IH: "scatter_loop samples areas off channels fcs ?m =
      Some (store_bytes ?m (b + of_nat (4 * Suc i)) (concat (map to_le32 (drop (Suc i) samples))))"
    using rest lt Cons.prems(3) fc by (intro Cons.IH) simp_all
  have "drop i samples = samples ! i # drop (Suc i) samples" using lt by (rule Cons_nth_drop_Suc [symmetric])
  moreover have "b + of_nat (4 * Suc i) = b + of_nat (4 * i) + (of_nat (length (to_le32 (samples ! i))) :: u64)" by simp
  ultimately show ?case using lt i IH addr
    by (simp only: fc scatter_loop.simps Let_def if_True list.map concat.simps store_bytes_append write_f32_def)
next
  case Nil
  then have "length samples \<le> i" using upt_eq_Nil_conv [of i "length samples"] by fastforce
  then show ?case by simp
qed

lemma region_blocks:
  "concat (map (\<lambda>i. to_le32 (read_f32 mem (b + of_nat (4 * i)))) [0..<k]) = region mem b (4 * k)"
proof (induction k)
  case (Suc k)
  have "[0..<m + 4] = [0..<m] @ [m, m + 1, m + 2, m + 3]" for m by (simp add: numeral_eq_Suc)
  from this [of "4 * k"] have "region mem b (4 * k + 4) = region mem b (4 * k) @ to_le32 (read_f32 mem (b + of_nat (4 * k)))"
    by (simp add: region_def read_f32_def to_le32_from_le32 add_ac)
  with Suc show ?case by (simp add: add.commute)
qed (simp add: region_def)

lemma gather_interleaved_region:
  assumes "frames_fit channels off n" "length samples = unat n * channels"
  shows "\<exists>ss. gather_interleaved mem samples (interleaved a channels) off (unat n) channels = Some ss \<and>
    concat (map to_le32 ss) = region mem (a + of_nat (4 * channels * unat off)) (4 * channels * unat n)"
proof -
  let ?b = "a + of_nat (4 * channels * unat off)" and ?fcs = "frame_indices (unat n) channels"
  let ?ss = "map (\<lambda>(f, c). read_f32 mem (sample_addr (interleaved a channels c) off f)) ?fcs"
  have "?ss = map (\<lambda>i. read_f32 mem (?b + of_nat (4 * i))) (map (\<lambda>(f, c). f * channels + c) ?fcs)"
    using sample_addr_interleaved [OF assms(1)] frame_indices_bounds by (auto simp del: of_nat_mult)
  then have "?ss = map (\<lambda>i. read_f32 mem (?b + of_nat (4 * i))) [0..<unat n * channels]"
    by (simp only: frame_indices_order)
  then have "concat (map to_le32 ?ss) = concat (map (\<lambda>i. to_le32 (read_f32 mem (?b + of_nat (4 * i)))) [0..<unat n * channels])"
    by (simp only: map_map comp_def)
  also have "\<dots> = region mem ?b (4 * (unat n * channels))" by (rule region_blocks)
  finally have "concat (map to_le32 ?ss) = region mem ?b (4 * channels * unat n)" by (simp add: mult_ac)
  moreover have "gather_interleaved mem samples (interleaved a channels) off (unat n) channels = Some ?ss"
    unfolding gather_interleaved_def using gather_loop_eq [of channels ?fcs 0 samples] assms(2)
    by (simp add: frame_indices_order)
  ultimately show ?thesis by blast
qed

lemma scatter_interleaved_region:
  assumes "frames_fit channels off n" "length samples = unat n * channels"
  shows "scatter_interleaved samples (interleaved a channels) off (unat n) channels mem =
    Some (store_bytes mem (a + of_nat (4 * channels * unat off)) (concat (map to_le32 samples)))"
proof -
  let ?fcs = "frame_indices (unat n) channels"
  have "sample_addr (interleaved a channels c) off f = a + of_nat (4 * channels * unat off) + of_nat (4 * (f * channels + c))"
    if "(f, c) \<in> set ?fcs" for f c
    using that frame_indices_bounds by (intro sample_addr_interleaved [OF assms(1)]) blast+
  from scatter_loop_eq [of channels ?fcs 0 samples, OF _ _ this] show ?thesis
    unfolding scatter_interleaved_def assms(2) frame_indices_order by simp
qed

lemma frames_count:
  assumes "frames_fit channels off n"
  shows "\<exists>cnt. checked_mul n (of_nat channels) = Some cnt \<and> unat cnt = unat n * channels"
proof -
  have "32 * (channels * (unat off + unat n)) < 2 ^ 64" "channels < 2 ^ 32"
    using assms by (simp_all add: frames_fit_def mult_ac)
  moreover have "unat n * channels \<le> channels * (unat off + unat n)" by (simp add: algebra_simps)
  ultimately have lt: "unat n * channels < 2 ^ 64" and ch: "unat (of_nat channels :: u64) = channels"
    by (linarith, simp add: unat_of_nat)
  then have "checked_mul n (of_nat channels) = Some (n * of_nat channels)"
    unfolding checked_mul_def ch by simp
  from this checked_mul_Some [OF this, unfolded ch] show ?thesis by blast
qed

lemma length_resize [simp]: "length (resize n xs) = n"
  by (simp add: resize_def)

text \<open>
  C30: Playback sends the application's buffer as it is: on interleaved areas, a transfer of \<open>n\<close> frames
  at an offset writes to the bridge exactly the bytes of those frames in memory, in order, leaves the
  memory alone, and advances the frame counter by \<open>n\<close>.
\<close>

theorem playback_sends_region:
  assumes "writes ops inbox sent" "frames_fit (sp_channels sb) off n"
  shows "\<exists>sb'. transfer_frames ops SND_PCM_STREAM_PLAYBACK (interleaved a (sp_channels sb)) off n (sb, mem) =
      Some (Ok n, sb', mem) \<and>
    sent (sp_bridge sb') = sent (sp_bridge sb) @
      region mem (a + of_nat (4 * sp_channels sb * unat off)) (4 * sp_channels sb * unat n) \<and>
    sp_hw_frames sb' = sp_hw_frames sb + n"
proof -
  obtain cnt where cnt: "checked_mul n (of_nat (sp_channels sb)) = Some cnt" "unat cnt = unat n * sp_channels sb"
    using frames_count [OF assms(2)] by blast
  obtain ss where ss: "gather_interleaved mem (resize (unat cnt) (sp_samples sb)) (interleaved a (sp_channels sb)) off
      (unat n) (sp_channels sb) = Some ss"
    "concat (map to_le32 ss) = region mem (a + of_nat (4 * sp_channels sb * unat off)) (4 * sp_channels sb * unat n)"
    using gather_interleaved_region [OF assms(2), of "resize (unat cnt) (sp_samples sb)"] cnt(2) by auto
  obtain k where "write_all ops (concat (map to_le32 ss)) (sp_bridge sb) = (Ok (), k)"
    "sent k = sent (sp_bridge sb) @ concat (map to_le32 ss)" by (rule write_all_sent [OF assms(1)])
  with cnt(1) ss show ?thesis
    by (simp add: transfer_frames_def send_frames_def del: of_nat_mult)
qed

definition demo_pcm :: "bytes \<Rightarrow> (bytes \<times> bytes) SonicbrewPcm" where
  "demo_pcm inb =
     \<lparr>sp_io = \<lparr>io_poll_events = POLLOUT, io_stream = 0, io_channels = 2, io_rate = 48000, io_buffer_size = 512\<rparr>,
      sp_bridge = (inb, []), sp_channels = 2, sp_hw_frames = 0, sp_samples = []\<rparr>"

theorem playback_sends_region_witness:
  "\<exists>sb'. transfer_frames list_stream SND_PCM_STREAM_PLAYBACK (interleaved 100 2) 1 1 (demo_pcm [], ucast) =
      Some (Ok 1, sb', ucast) \<and>
    snd (sp_bridge sb') = [108, 109, 110, 111, 112, 113, 114, 115] \<and> sp_hw_frames sb' = 1"
proof -
  have upt: "[0..<8] = [0, 1, 2, 3, 4, 5, 6, 7 :: nat]" by (simp add: upt_rec)
  show ?thesis
    using playback_sends_region [OF list_stream_laws(2), of "demo_pcm []" 1 1 100 ucast]
    by (simp add: frames_fit_def demo_pcm_def region_def upt)
qed

text \<open>
  Capture fills the application's buffer with what the server sent: on interleaved areas, a transfer
  of \<open>n\<close> frames reads their bytes from the bridge, stores them in order at the offset's place in memory,
  and leaves what follows them unread.
\<close>

theorem capture_stores_region:
  assumes "reads ops inbox" "frames_fit (sp_channels sb) off n"
    "inbox (sp_bridge sb) = data @ rest" "length data = 4 * sp_channels sb * unat n"
  shows "\<exists>sb'. transfer_frames ops SND_PCM_STREAM_CAPTURE (interleaved a (sp_channels sb)) off n (sb, mem) =
      Some (Ok n, sb', store_bytes mem (a + of_nat (4 * sp_channels sb * unat off)) data) \<and>
    inbox (sp_bridge sb') = rest \<and> sp_hw_frames sb' = sp_hw_frames sb + n"
proof -
  define ss where "ss = map (\<lambda>(a, b, c, d). from_le32 a b c d) (chunks_exact4 data)"
  have ss: "concat (map to_le32 ss) = data" "length ss = unat n * sp_channels sb"
    using assms(4) le32s_inverse [of data] by (simp_all add: ss_def length_chunks_exact4)
  obtain cnt where cnt: "checked_mul n (of_nat (sp_channels sb)) = Some cnt" "unat cnt = unat n * sp_channels sb"
    using frames_count [OF assms(2)] by blast
  obtain k where k: "recv_frames_into ops (length ss) (sp_bridge sb) = (Ok ss, k)" "inbox k = rest"
    using assms(3) ss(1) by (auto intro: recv_frames_sent [OF assms(1), of "sp_bridge sb" ss rest])
  have "SND_PCM_STREAM_CAPTURE \<noteq> SND_PCM_STREAM_PLAYBACK"
    by (simp add: SND_PCM_STREAM_CAPTURE_def SND_PCM_STREAM_PLAYBACK_def)
  with cnt k scatter_interleaved_region [OF assms(2) ss(2), of a mem] ss(1) show ?thesis
    by (simp add: transfer_frames_def ss(2) del: of_nat_mult)
qed

theorem capture_stores_region_witness:
  "\<exists>sb'. transfer_frames list_stream SND_PCM_STREAM_CAPTURE (interleaved 100 2) 1 1
        (demo_pcm [1, 2, 3, 4, 5, 6, 7, 8, 9], \<lambda>_. 0) =
      Some (Ok 1, sb', store_bytes (\<lambda>_. 0) 108 [1, 2, 3, 4, 5, 6, 7, 8]) \<and>
    fst (sp_bridge sb') = [9] \<and> sp_hw_frames sb' = 1"
  using capture_stores_region [OF list_stream_laws(1), of "demo_pcm [1, 2, 3, 4, 5, 6, 7, 8, 9]" 1 1
      "[1, 2, 3, 4, 5, 6, 7, 8]" "[9]" 100 "\<lambda>_. 0"]
  by (simp add: frames_fit_def demo_pcm_def)

lemma cb_pointer_bound: "0 < io_buffer_size (sp_io sb) \<Longrightarrow> cb_pointer sb < io_buffer_size (sp_io sb)"
  by (simp add: cb_pointer_def Let_def word_mod_less_divisor)

section \<open>Opening\<close>

lemma extract_keys_Err: "extract_keys alsa ks = Err r \<Longrightarrow> r < 0"
  by (induction ks) (auto simp: result_iffs Let_def split: if_splits prod.splits)

lemma pin_lists_Err: "pin_lists alsa ps = Err r \<Longrightarrow> r < 0"
  by (induction ps) (auto simp: Let_def split: if_splits)

lemma map_err_eq_Err_iff [simp]: "map_err f r = Err e \<longleftrightarrow> (\<exists>e'. r = Err e' \<and> e = f e')"
  by (cases r) auto

lemma extract_conf_pairs_Err: "extract_conf_pairs alsa = Err r \<Longrightarrow> r < 0"
  unfolding extract_conf_pairs_def by (rule extract_keys_Err)

lemma pin_hw_Err: "pin_hw alsa channels rate = Err r \<Longrightarrow> r < 0"
  unfolding pin_hw_def by (rule pin_lists_Err)

lemma open_pcm_FailAlsa: "open_pcm alsa open_socket ops stream = Err (FailAlsa r) \<Longrightarrow> r < 0"
  by (auto simp: open_pcm_def rbind_eq_Err_iff Let_def
      dest: extract_conf_pairs_Err pin_hw_Err split: if_splits)

lemma open_pcm_Ok:
  assumes "open_pcm alsa open_socket ops stream = Ok sb"
  shows "1 \<le> io_channels (sp_io sb) \<and> io_channels (sp_io sb) \<le> MAX_CHANNELS \<and>
    1 \<le> io_rate (sp_io sb) \<and> io_rate (sp_io sb) \<le> MAX_RATE \<and>
    sp_channels sb = unat (io_channels (sp_io sb)) \<and> io_stream (sp_io sb) = stream \<and> sp_hw_frames sb = 0"
  using assms config_from_pairs_bounds
  by (fastforce simp: open_pcm_def rbind_eq_Ok_iff Let_def split: if_splits)

text \<open>
  The plugin's entry point returns zero exactly when it hands out a PCM, and a negative code
  otherwise, whatever libasound and the server do. The PCM it hands out has between 1 and 1024
  channels and a rate between 1 and 768000, and counts its frames from zero.
\<close>

theorem open_returns:
  "case snd_pcm_sonicbrew_open alsa open_socket ops stream of
     (code, None) \<Rightarrow> code < 0
   | (code, Some sb) \<Rightarrow>
       code = 0 \<and> 1 \<le> io_channels (sp_io sb) \<and> io_channels (sp_io sb) \<le> MAX_CHANNELS \<and>
       1 \<le> io_rate (sp_io sb) \<and> io_rate (sp_io sb) \<le> MAX_RATE \<and>
       sp_channels sb = unat (io_channels (sp_io sb)) \<and> sp_hw_frames sb = 0"
proof (cases "open_pcm alsa open_socket ops stream")
  case (Inl e)
  then show ?thesis
    using open_pcm_FailAlsa [of alsa open_socket ops stream]
    by (cases e) (auto simp: snd_pcm_sonicbrew_open_def EINVAL_def EIO_def split: OpenError.splits)
next
  case (Inr sb)
  then show ?thesis using open_pcm_Ok [OF Inr] by (simp add: snd_pcm_sonicbrew_open_def)
qed

end
