(* ===== verification/Topology.thy ===== *)
theory Topology
  imports Prelude
begin

text \<open>
  The topology data that the session store, the control API and the audio engine exchange: the
  snapshot, mutation and event types of the graph crate, with the fields and constructors the sources
  use. The operations of that crate (applying a mutation, looking a node up) are a parameter; the laws
  below are what its documentation and the comments of its callers say of them. A \<open>usize\<close> identifier or
  port index is a \<open>64 word\<close>.
\<close>

type_synonym NodeId = u64
type_synonym LinkId = u64

datatype PortDir = Input | Output

datatype SampleFmt = SampleF32 | OtherFmt

record PortMeta =
  direction :: PortDir
  pm_channels :: u16
  sample_format :: SampleFmt

record NodeSnapshot =
  ns_id :: NodeId
  ns_inputs :: "PortMeta list"
  ns_outputs :: "PortMeta list"

record SnapshotEdge =
  se_from :: "NodeId \<times> u64"
  se_to :: "NodeId \<times> u64"

record TopologySnapshot =
  t_nodes :: "NodeSnapshot list"
  t_edges :: "SnapshotEdge list"

datatype Mutation =
    AddNode NodeSnapshot
  | RemoveNode NodeId
  | AddLink SnapshotEdge
  | RemoveLink LinkId

datatype TopologyEvent =
    NodeAdded NodeSnapshot
  | NodeRemoved NodeId
  | LinkAdded SnapshotEdge
  | LinkRemoved LinkId

text \<open>\<open>TopologySnapshot::new\<close> and \<open>default\<close>.\<close>

definition topology_empty :: TopologySnapshot where
  "topology_empty = \<lparr>t_nodes = [], t_edges = []\<rparr>"

definition node_ids :: "TopologySnapshot \<Rightarrow> NodeId list" where
  "node_ids t = map ns_id (t_nodes t)"

definition edge_touches :: "NodeId \<Rightarrow> SnapshotEdge \<Rightarrow> bool" where
  "edge_touches i e \<longleftrightarrow> fst (se_from e) = i \<or> fst (se_to e) = i"

text \<open>
  Adding a node with a new id and adding a link append; removing a node removes it with its incident
  links and does nothing when it is absent; a link is removed by its position.
\<close>

definition topo_laws :: "(TopologySnapshot \<Rightarrow> Mutation \<Rightarrow> TopologySnapshot) \<Rightarrow> bool" where
  "topo_laws app \<longleftrightarrow>
     (\<forall>t n. ns_id n \<notin> set (node_ids t) \<longrightarrow> app t (AddNode n) = t\<lparr>t_nodes := t_nodes t @ [n]\<rparr>) \<and>
     (\<forall>t i. app t (RemoveNode i) =
        t\<lparr>t_nodes := filter (\<lambda>n. ns_id n \<noteq> i) (t_nodes t), t_edges := filter (\<lambda>e. \<not> edge_touches i e) (t_edges t)\<rparr>) \<and>
     (\<forall>t e. app t (AddLink e) = t\<lparr>t_edges := t_edges t @ [e]\<rparr>) \<and>
     (\<forall>t i. app t (RemoveLink i) = t\<lparr>t_edges := take (unat i) (t_edges t) @ drop (Suc (unat i)) (t_edges t)\<rparr>)"

lemma topo_lawsD:
  assumes "topo_laws app"
  shows "ns_id n \<notin> set (node_ids t) \<Longrightarrow> app t (AddNode n) = t\<lparr>t_nodes := t_nodes t @ [n]\<rparr>"
    and "app t (RemoveNode i) =
        t\<lparr>t_nodes := filter (\<lambda>n. ns_id n \<noteq> i) (t_nodes t), t_edges := filter (\<lambda>e. \<not> edge_touches i e) (t_edges t)\<rparr>"
    and "app t (AddLink e) = t\<lparr>t_edges := t_edges t @ [e]\<rparr>"
    and "app t (RemoveLink i) = t\<lparr>t_edges := take (unat i) (t_edges t) @ drop (Suc (unat i)) (t_edges t)\<rparr>"
  using assms by (simp_all add: topo_laws_def)

text \<open>The topology's own \<open>node\<close> lookup.\<close>

definition lookup_laws :: "(TopologySnapshot \<Rightarrow> NodeId \<Rightarrow> NodeSnapshot option) \<Rightarrow> bool" where
  "lookup_laws lookup \<longleftrightarrow> (\<forall>t i. lookup t i = find (\<lambda>n. ns_id n = i) (t_nodes t))"

text \<open>Graphs whose nodes have different ids and whose links connect existing ports.\<close>

definition port_of :: "TopologySnapshot \<Rightarrow> (NodeSnapshot \<Rightarrow> PortMeta list) \<Rightarrow> NodeId \<times> u64 \<Rightarrow> bool" where
  "port_of t ports q \<longleftrightarrow> (\<exists>n \<in> set (t_nodes t). ns_id n = fst q \<and> unat (snd q) < length (ports n))"

definition edge_ok :: "TopologySnapshot \<Rightarrow> SnapshotEdge \<Rightarrow> bool" where
  "edge_ok t e \<longleftrightarrow> port_of t ns_outputs (se_from e) \<and> port_of t ns_inputs (se_to e)"

definition graph_wf :: "TopologySnapshot \<Rightarrow> bool" where
  "graph_wf t \<longleftrightarrow> distinct (node_ids t) \<and> (\<forall>e \<in> set (t_edges t). edge_ok t e)"

lemma graph_wf_empty: "graph_wf topology_empty"
  by (simp add: graph_wf_def topology_empty_def node_ids_def)

lemma graph_wf_add_node:
  assumes "topo_laws app" "graph_wf t" "ns_id n \<notin> set (node_ids t)"
  shows "graph_wf (app t (AddNode n))"
  using assms by (auto simp: topo_lawsD graph_wf_def node_ids_def edge_ok_def port_of_def)

lemma graph_wf_remove_node:
  assumes "topo_laws app" "graph_wf t"
  shows "graph_wf (app t (RemoveNode i))"
proof -
  have "distinct (map ns_id (filter (\<lambda>n. ns_id n \<noteq> i) (t_nodes t)))"
    using assms(2) by (auto simp: graph_wf_def node_ids_def distinct_map intro: inj_on_subset)
  moreover have "port_of (app t (RemoveNode i)) ports q" if "port_of t ports q" "fst q \<noteq> i" for ports q
    using that assms(1) by (auto simp: port_of_def topo_lawsD)
  ultimately show ?thesis
    using assms by (auto simp: topo_lawsD graph_wf_def node_ids_def edge_ok_def edge_touches_def)
qed

lemma graph_wf_add_link:
  assumes "topo_laws app" "graph_wf t" "edge_ok t e"
  shows "graph_wf (app t (AddLink e))"
  using assms by (auto simp: topo_lawsD graph_wf_def node_ids_def edge_ok_def port_of_def)

lemma graph_wf_remove_link:
  assumes "topo_laws app" "graph_wf t"
  shows "graph_wf (app t (RemoveLink i))"
  using assms
  by (auto simp: topo_lawsD graph_wf_def node_ids_def edge_ok_def port_of_def dest: in_set_takeD in_set_dropD)

section \<open>A graph that satisfies the laws\<close>

fun plain_apply :: "TopologySnapshot \<Rightarrow> Mutation \<Rightarrow> TopologySnapshot" where
  "plain_apply t (AddNode n) = t\<lparr>t_nodes := t_nodes t @ [n]\<rparr>"
| "plain_apply t (RemoveNode i) =
     t\<lparr>t_nodes := filter (\<lambda>n. ns_id n \<noteq> i) (t_nodes t), t_edges := filter (\<lambda>e. \<not> edge_touches i e) (t_edges t)\<rparr>"
| "plain_apply t (AddLink e) = t\<lparr>t_edges := t_edges t @ [e]\<rparr>"
| "plain_apply t (RemoveLink i) = t\<lparr>t_edges := take (unat i) (t_edges t) @ drop (Suc (unat i)) (t_edges t)\<rparr>"

lemma plain_apply_laws: "topo_laws plain_apply"
  by (simp add: topo_laws_def)

definition plain_lookup :: "TopologySnapshot \<Rightarrow> NodeId \<Rightarrow> NodeSnapshot option" where
  "plain_lookup t i = find (\<lambda>n. ns_id n = i) (t_nodes t)"

lemma plain_lookup_laws: "lookup_laws plain_lookup"
  by (simp add: lookup_laws_def plain_lookup_def)

end
