(* ===== verification/Redb.thy ===== *)
theory Redb
  imports Prelude
begin

text \<open>
  The embedded database the session store persists to. The database crate is a parameter: a type \<open>'d\<close>
  of databases and a type \<open>'x\<close> of write transactions with the operations the sources call, each of
  which may fail with the text of its error. The laws are its documented behaviour: a transaction
  starts from the committed tables and sees its own writes, a range yields its rows in ascending key
  order, and a commit publishes all of a transaction or nothing. A transaction that is not committed
  has no effect. The key of a single-row table is 0.
\<close>

datatype bound = Included u64 | Excluded u64 | Unbounded

type_synonym row = "u64 \<times> bytes"

record ('d, 'x) redb_ops =
  begin_read :: "'d \<Rightarrow> string + unit"
  read_table :: "string \<Rightarrow> 'd \<Rightarrow> string + unit"
  read_range :: "string \<Rightarrow> bound \<Rightarrow> bound \<Rightarrow> 'd \<Rightarrow> string + (string + row) list"
  read_get :: "string \<Rightarrow> u64 \<Rightarrow> 'd \<Rightarrow> string + bytes option"
  begin_write :: "'d \<Rightarrow> string + 'x"
  write_table :: "string \<Rightarrow> 'x \<Rightarrow> string + 'x"
  tx_range :: "string \<Rightarrow> bound \<Rightarrow> bound \<Rightarrow> 'x \<Rightarrow> string + (string + row) list"
  tx_get :: "string \<Rightarrow> u64 \<Rightarrow> 'x \<Rightarrow> string + bytes option"
  tx_insert :: "string \<Rightarrow> u64 \<Rightarrow> bytes \<Rightarrow> 'x \<Rightarrow> string + 'x"
  tx_remove :: "string \<Rightarrow> u64 \<Rightarrow> 'x \<Rightarrow> string + 'x"
  commit :: "'x \<Rightarrow> 'd \<Rightarrow> (string + unit) \<times> 'd"

text \<open>The tables of a database: what \<open>view\<close> shows.\<close>

type_synonym tables = "string \<Rightarrow> u64 \<Rightarrow> bytes option"

definition within :: "bound \<Rightarrow> bound \<Rightarrow> u64 \<Rightarrow> bool" where
  "within lo hi k \<longleftrightarrow>
     (case lo of Included a \<Rightarrow> a \<le> k | Excluded a \<Rightarrow> a < k | Unbounded \<Rightarrow> True) \<and>
     (case hi of Included b \<Rightarrow> k \<le> b | Excluded b \<Rightarrow> k < b | Unbounded \<Rightarrow> True)"

definition rows_of :: "(u64 \<Rightarrow> bytes option) \<Rightarrow> bound \<Rightarrow> bound \<Rightarrow> row list \<Rightarrow> bool" where
  "rows_of t lo hi rows \<longleftrightarrow>
     sorted_wrt (<) (map fst rows) \<and> (\<forall>k v. (k, v) \<in> set rows \<longleftrightarrow> t k = Some v \<and> within lo hi k)"

definition redb_laws :: "('d, 'x) redb_ops \<Rightarrow> ('d \<Rightarrow> tables) \<Rightarrow> ('x \<Rightarrow> tables) \<Rightarrow> bool" where
  "redb_laws ops view xview \<longleftrightarrow>
     (\<forall>d x. begin_write ops d = Ok x \<longrightarrow> xview x = view d) \<and>
     (\<forall>n x x'. write_table ops n x = Ok x' \<longrightarrow> xview x' = xview x) \<and>
     (\<forall>n k v x x'. tx_insert ops n k v x = Ok x' \<longrightarrow> xview x' = (xview x)(n := (xview x n)(k \<mapsto> v))) \<and>
     (\<forall>n k x x'. tx_remove ops n k x = Ok x' \<longrightarrow> xview x' = (xview x)(n := (xview x n)(k := None))) \<and>
     (\<forall>x d d'. commit ops x d = (Ok (), d') \<longrightarrow> view d' = xview x) \<and>
     (\<forall>x d e d'. commit ops x d = (Err e, d') \<longrightarrow> view d' = view d) \<and>
     (\<forall>n lo hi d rows. read_range ops n lo hi d = Ok (map Inr rows) \<longrightarrow> rows_of (view d n) lo hi rows) \<and>
     (\<forall>n lo hi x rows. tx_range ops n lo hi x = Ok (map Inr rows) \<longrightarrow> rows_of (xview x n) lo hi rows) \<and>
     (\<forall>n k d r. read_get ops n k d = Ok r \<longrightarrow> r = view d n k) \<and>
     (\<forall>n k x r. tx_get ops n k x = Ok r \<longrightarrow> r = xview x n k)"

text \<open>A database that does not fail: what is needed to conclude that an operation succeeds.\<close>

definition redb_reliable :: "('d, 'x) redb_ops \<Rightarrow> bool" where
  "redb_reliable ops \<longleftrightarrow>
     (\<forall>d. begin_read ops d = Ok ()) \<and> (\<forall>n d. read_table ops n d = Ok ()) \<and>
     (\<forall>n lo hi d. \<exists>rows. read_range ops n lo hi d = Ok (map Inr rows)) \<and>
     (\<forall>n k d. \<exists>r. read_get ops n k d = Ok r) \<and>
     (\<forall>d. \<exists>x. begin_write ops d = Ok x) \<and> (\<forall>n x. \<exists>x'. write_table ops n x = Ok x') \<and>
     (\<forall>n lo hi x. \<exists>rows. tx_range ops n lo hi x = Ok (map Inr rows)) \<and>
     (\<forall>n k x. \<exists>r. tx_get ops n k x = Ok r) \<and>
     (\<forall>n k v x. \<exists>x'. tx_insert ops n k v x = Ok x') \<and> (\<forall>n k x. \<exists>x'. tx_remove ops n k x = Ok x') \<and>
     (\<forall>x d. \<exists>d'. commit ops x d = (Ok (), d'))"

lemma redb_lawsD:
  assumes "redb_laws ops view xview"
  shows "begin_write ops d = Ok x \<Longrightarrow> xview x = view d"
    and "write_table ops n x = Ok x' \<Longrightarrow> xview x' = xview x"
    and "tx_insert ops n k v x = Ok x' \<Longrightarrow> xview x' = (xview x)(n := (xview x n)(k \<mapsto> v))"
    and "tx_remove ops n k x = Ok x' \<Longrightarrow> xview x' = (xview x)(n := (xview x n)(k := None))"
    and "commit ops x d = (Ok (), d') \<Longrightarrow> view d' = xview x"
    and "commit ops x d = (Err e, d') \<Longrightarrow> view d' = view d"
    and "read_range ops n lo hi d = Ok (map Inr rows) \<Longrightarrow> rows_of (view d n) lo hi rows"
    and "tx_range ops n lo hi x = Ok (map Inr rows) \<Longrightarrow> rows_of (xview x n) lo hi rows"
    and "read_get ops n k d = Ok r \<Longrightarrow> r = view d n k"
    and "tx_get ops n k x = Ok r \<Longrightarrow> r = xview x n k"
  using assms by (simp_all only: redb_laws_def)

lemma redb_reliableD:
  assumes "redb_reliable ops"
  shows "begin_read ops d = Ok ()" "read_table ops n d = Ok ()"
    "\<exists>rows. read_range ops n lo hi d = Ok (map Inr rows)" "\<exists>r. read_get ops n k d = Ok r"
    "\<exists>x. begin_write ops d = Ok x" "\<exists>x'. write_table ops n x = Ok x'"
    "\<exists>rows. tx_range ops n lo hi x = Ok (map Inr rows)" "\<exists>r. tx_get ops n k x = Ok r"
    "\<exists>x'. tx_insert ops n k v x = Ok x'" "\<exists>x'. tx_remove ops n k x = Ok x'" "\<exists>d'. commit ops x d = (Ok (), d')"
  using assms by (simp_all add: redb_reliable_def)

section \<open>Transactions\<close>

text \<open>
  The shape every write of the sources has: begin a transaction, work on it, commit. The errors of the
  begin and the commit get the caller's context.
\<close>

definition write_txn ::
  "('d, 'x) redb_ops \<Rightarrow> (string \<Rightarrow> 'e) \<Rightarrow> (string \<Rightarrow> 'e) \<Rightarrow> ('x \<Rightarrow> 'e + 'x) \<Rightarrow> 'd \<Rightarrow> ('e + unit) \<times> 'd" where
  "write_txn ops err_begin err_commit body d =
     (case rbind (map_err err_begin (begin_write ops d)) body of
        Inl e \<Rightarrow> (Err e, d)
      | Inr x \<Rightarrow> (let (r, d) = commit ops x d in (map_err err_commit r, d)))"

text \<open>The shape of every read: begin a transaction, open a table.\<close>

definition read_txn ::
  "('d, 'x) redb_ops \<Rightarrow> (string \<Rightarrow> 'e) \<Rightarrow> (string \<Rightarrow> 'e) \<Rightarrow> string \<Rightarrow> 'd \<Rightarrow> 'e + unit" where
  "read_txn ops err_begin err_table n d =
     rbind (map_err err_begin (begin_read ops d)) (\<lambda>_. map_err err_table (read_table ops n d))"

lemma write_txn_cases:
  assumes "redb_laws ops view xview" "write_txn ops eb ec body d = (r, d')"
  obtains (failed) e where "r = Err e" "view d' = view d"
    | (committed) x x' where "r = Ok ()" "xview x = view d" "body x = Ok x'" "view d' = xview x'"
proof (cases "rbind (map_err eb (begin_write ops d)) body")
  case (Inl e)
  then show thesis using assms(2) by (intro failed [of e]) (simp_all add: write_txn_def)
next
  case (Inr x')
  then obtain x where x: "begin_write ops d = Ok x" "body x = Ok x'" by (auto simp: rbind_eq_Ok_iff)
  obtain q d1 where q: "commit ops x' d = (q, d1)" by fastforce
  with Inr assms(2) have r: "r = map_err ec q" "d' = d1" by (simp_all add: write_txn_def)
  show thesis
  proof (cases q)
    case (Inl e)
    then show thesis using q r redb_lawsD(6) [OF assms(1)] by (intro failed [of "ec e"]) simp_all
  next
    case (Inr u)
    then show thesis
      using q r x redb_lawsD(1,5) [OF assms(1)] by (intro committed [of x x']) simp_all
  qed
qed

lemma write_txn_reliable:
  assumes "redb_reliable ops" "\<And>x. \<exists>x'. body x = Ok x'"
  shows "fst (write_txn ops eb ec body d) = Ok ()"
proof -
  obtain x where x: "begin_write ops d = Ok x" using redb_reliableD(5) [OF assms(1)] by blast
  obtain x' where x': "body x = Ok x'" using assms(2) by blast
  obtain d' where "commit ops x' d = (Ok (), d')" using redb_reliableD(11) [OF assms(1)] by blast
  with x x' show ?thesis by (simp add: write_txn_def)
qed

lemma read_txn_reliable: "redb_reliable ops \<Longrightarrow> read_txn ops eb et n d = Ok ()"
  by (simp add: read_txn_def redb_reliableD)

section \<open>Rows\<close>

lemma sorted_wrt_less_unique:
  "sorted_wrt (<) xs \<Longrightarrow> sorted_wrt (<) ys \<Longrightarrow> set xs = set ys \<Longrightarrow> xs = (ys :: 'a::linorder list)"
  by (rule strict_sorted_equal)

lemma rows_of_eq_map:
  assumes "rows_of t lo hi rows"
  shows "rows = map (\<lambda>k. (k, the (t k))) (map fst rows)"
proof -
  have "(k, the (t k)) = (k, v)" if "(k, v) \<in> set rows" for k v
    using assms that by (auto simp: rows_of_def)
  then show ?thesis by (auto simp: map_idI comp_def split_beta intro!: map_idI [symmetric])
qed

lemma rows_of_keys: "rows_of t lo hi rows \<Longrightarrow> set (map fst rows) = {k \<in> dom t. within lo hi k}"
  by (force simp: rows_of_def dom_def)

lemma rows_of_unique:
  assumes "rows_of t lo hi rows" "rows_of t lo hi rows'"
  shows "rows = rows'"
proof -
  have "map fst rows = map fst rows'"
    using assms rows_of_keys [OF assms(1)] rows_of_keys [OF assms(2)]
    by (intro sorted_wrt_less_unique) (simp_all add: rows_of_def)
  then show ?thesis using rows_of_eq_map [OF assms(1)] rows_of_eq_map [OF assms(2)] by simp
qed

section \<open>An in-memory database\<close>

text \<open>Each table as the list of its rows, the latest first; a range sorts the keys.\<close>

type_synonym memdb = "string \<Rightarrow> row list"

definition select_rows :: "bound \<Rightarrow> bound \<Rightarrow> row list \<Rightarrow> row list" where
  "select_rows lo hi rows =
     map (\<lambda>k. (k, the (map_of rows k))) (filter (within lo hi) (sort (remdups (map fst rows))))"

definition memdb_ops :: "(memdb, memdb) redb_ops" where
  "memdb_ops =
     \<lparr>begin_read = (\<lambda>_. Ok ()), read_table = (\<lambda>_ _. Ok ()),
      read_range = (\<lambda>n lo hi d. Ok (map Inr (select_rows lo hi (d n)))),
      read_get = (\<lambda>n k d. Ok (map_of (d n) k)),
      begin_write = (\<lambda>d. Ok d), write_table = (\<lambda>n x. Ok x),
      tx_range = (\<lambda>n lo hi x. Ok (map Inr (select_rows lo hi (x n)))),
      tx_get = (\<lambda>n k x. Ok (map_of (x n) k)),
      tx_insert = (\<lambda>n k v x. Ok (x(n := (k, v) # x n))),
      tx_remove = (\<lambda>n k x. Ok (x(n := filter (\<lambda>r. fst r \<noteq> k) (x n)))),
      commit = (\<lambda>x d. (Ok (), x))\<rparr>"

definition memdb_view :: "memdb \<Rightarrow> tables" where
  "memdb_view d n = map_of (d n)"

lemma memdb_reliable: "redb_reliable memdb_ops"
  by (auto simp: redb_reliable_def memdb_ops_def)

lemma select_rows_of: "rows_of (map_of rows) lo hi (select_rows lo hi rows)"
proof -
  have "sorted_wrt (<) (filter (within lo hi) (sort (remdups (map fst rows))))"
    by (intro sorted_wrt_filter) (simp add: strict_sorted_iff)
  moreover have "map fst (select_rows lo hi rows) = filter (within lo hi) (sort (remdups (map fst rows)))"
    by (simp add: select_rows_def comp_def)
  moreover have "(k, v) \<in> set (select_rows lo hi rows) \<longleftrightarrow> map_of rows k = Some v \<and> within lo hi k" for k v
    by (cases "map_of rows k") (force simp: select_rows_def map_of_eq_None_iff dest: map_of_SomeD)+
  ultimately show ?thesis by (simp add: rows_of_def)
qed

lemma map_of_filter_key: "map_of (filter (\<lambda>r. fst r \<noteq> k) rows) = (map_of rows)(k := None)"
  by (induction rows) auto

lemma memdb_laws: "redb_laws memdb_ops memdb_view memdb_view"
proof -
  have "memdb_view (x(n := (k, v) # x n)) = (memdb_view x)(n := (memdb_view x n)(k \<mapsto> v))" for x n k v
    by (rule ext) (simp add: memdb_view_def)
  moreover have "memdb_view (x(n := filter (\<lambda>r. fst r \<noteq> k) (x n))) =
      (memdb_view x)(n := (memdb_view x n)(k := None))" for x n k
    by (rule ext) (simp add: memdb_view_def map_of_filter_key)
  moreover have "rows_of (memdb_view x n) lo hi (select_rows lo hi (x n))" for x n lo hi
    by (simp add: memdb_view_def select_rows_of)
  ultimately show ?thesis
    by (auto simp: redb_laws_def memdb_ops_def inj_map_eq_map) (simp_all add: memdb_view_def)
qed

end
