(* ===== verification/Session_Store.thy ===== *)
theory Session_Store
  imports Topology Redb
begin

text \<open>
  The session store (\<open>session-store/src/lib.rs\<close>): the interface its clients use, as a locale, and the
  single-node engine that persists mutations to a write-ahead log and replays it on restart. The
  database is the parameter of theory \<open>Redb\<close>, the JSON codec a parameter with a round-trip law. The
  broadcast channel is the list of the events handed to it; a failed send has no effect. The mutex is
  held through each operation, so operations are atomic.
\<close>

section \<open>The interface\<close>

type_synonym MutationId = u64

datatype StoreError = StoreUnimplemented string | Persistence string | InvalidMutation string

record 's store_ops =
  get_topology :: "'s \<Rightarrow> TopologySnapshot"
  apply_mutation :: "Mutation \<Rightarrow> 's \<Rightarrow> (StoreError + MutationId) \<times> 's"

definition mutation_to_event :: "Mutation \<Rightarrow> TopologyEvent" where
  "mutation_to_event m =
     (case m of
        AddNode node \<Rightarrow> NodeAdded node
      | RemoveNode i \<Rightarrow> NodeRemoved i
      | AddLink edge \<Rightarrow> LinkAdded edge
      | RemoveLink i \<Rightarrow> LinkRemoved i)"

text \<open>
  What a store promises its clients: an accepted mutation is applied to the topology, a rejected one
  leaves it as it was.
\<close>

locale session_store =
  fixes st :: "'s store_ops" and app :: "TopologySnapshot \<Rightarrow> Mutation \<Rightarrow> TopologySnapshot"
  assumes applied: "apply_mutation st m s = (Ok i, s') \<Longrightarrow> get_topology st s' = app (get_topology st s) m"
    and rejected: "apply_mutation st m s = (Err e, s') \<Longrightarrow> get_topology st s' = get_topology st s"
begin

lemma topology_after:
  "get_topology st (snd (apply_mutation st m s)) =
     (if is_err (fst (apply_mutation st m s)) then get_topology st s else app (get_topology st s) m)"
  using applied rejected by (cases "apply_mutation st m s"; cases "fst (apply_mutation st m s)") auto

lemma keeps:
  assumes "P (get_topology st s)" "P (app (get_topology st s) m)"
  shows "P (get_topology st (snd (apply_mutation st m s)))"
  using assms by (simp add: topology_after)

end

section \<open>The engine\<close>

record 'm serde =
  ser :: "'m \<Rightarrow> string + bytes"
  de :: "bytes \<Rightarrow> string + 'm"

definition serde_laws :: "'m serde \<Rightarrow> bool" where
  "serde_laws c \<longleftrightarrow> (\<forall>m b. ser c m = Ok b \<longrightarrow> de c b = Ok m)"

record 'd EngineState =
  snapshot :: TopologySnapshot
  next_id :: MutationId
  edb :: 'd
  events :: "TopologyEvent list"

definition MUTATIONS :: string where "MUTATIONS = ''mutations''"

definition persistence :: "string \<Rightarrow> string \<Rightarrow> StoreError" where
  "persistence ctx e = Persistence (ctx @ '': '' @ e)"

text \<open>The write transaction of \<open>open\<close>, which creates the table.\<close>

definition create_table :: "('d, 'x) redb_ops \<Rightarrow> 'd \<Rightarrow> (StoreError + unit) \<times> 'd" where
  "create_table ops d =
     write_txn ops (persistence ''begin write'') (persistence ''commit table create'')
       (\<lambda>x. map_err (persistence ''create table'') (write_table ops MUTATIONS x)) d"

primrec replay ::
  "Mutation serde \<Rightarrow> (TopologySnapshot \<Rightarrow> Mutation \<Rightarrow> TopologySnapshot) \<Rightarrow> (string + row) list
   \<Rightarrow> TopologySnapshot \<Rightarrow> MutationId \<Rightarrow> StoreError + (TopologySnapshot \<times> MutationId)" where
  "replay cdc app [] snap n = Ok (snap, n)"
| "replay cdc app (entry # entries) snap n =
     rbind (map_err (persistence ''read entry'') entry) (\<lambda>(_, b).
     rbind (map_err (persistence ''deserialize mutation'') (de cdc b)) (\<lambda>m.
     replay cdc app entries (app snap m) (n + 1)))"

definition RaftEngine_open ::
  "('d, 'x) redb_ops \<Rightarrow> Mutation serde \<Rightarrow> (TopologySnapshot \<Rightarrow> Mutation \<Rightarrow> TopologySnapshot)
   \<Rightarrow> string + 'd \<Rightarrow> StoreError + 'd EngineState" where
  "RaftEngine_open ops cdc app created =
     rbind (map_err (persistence ''open redb'') created) (\<lambda>d.
     let (r, d) = create_table ops d
     in rbind r (\<lambda>_.
        rbind (read_txn ops (persistence ''begin read'') (persistence ''open table'') MUTATIONS d) (\<lambda>_.
        rbind (map_err (persistence ''iter table'') (read_range ops MUTATIONS Unbounded Unbounded d)) (\<lambda>rows.
        rbind (replay cdc app rows topology_empty 0) (\<lambda>(snap, n).
        Ok \<lparr>snapshot = snap, next_id = n, edb = d, events = []\<rparr>)))))"

definition persist ::
  "('d, 'x) redb_ops \<Rightarrow> MutationId \<Rightarrow> bytes \<Rightarrow> 'd \<Rightarrow> (StoreError + unit) \<times> 'd" where
  "persist ops i b d =
     write_txn ops (persistence ''begin write'') (persistence (''commit mutation '' @ show_word i))
       (\<lambda>x. rbind (map_err (persistence ''open table'') (write_table ops MUTATIONS x)) (\<lambda>x.
            map_err (persistence (''insert mutation '' @ show_word i)) (tx_insert ops MUTATIONS i b x))) d"

definition RaftEngine_apply_mutation ::
  "('d, 'x) redb_ops \<Rightarrow> Mutation serde \<Rightarrow> (TopologySnapshot \<Rightarrow> Mutation \<Rightarrow> TopologySnapshot)
   \<Rightarrow> Mutation \<Rightarrow> 'd EngineState \<Rightarrow> (StoreError + MutationId) \<times> 'd EngineState" where
  "RaftEngine_apply_mutation ops cdc app m s =
     (let i = next_id s in
      case map_err (persistence (''serialize mutation '' @ show_word i)) (ser cdc m) of
        Inl e \<Rightarrow> (Err e, s)
      | Inr b \<Rightarrow>
          (case persist ops i b (edb s) of
             (Inl e, d) \<Rightarrow> (Err e, s\<lparr>edb := d\<rparr>)
           | (Inr _, d) \<Rightarrow>
               (Ok i, s\<lparr>edb := d, snapshot := app (snapshot s) m, next_id := i + 1,
                        events := events s @ [mutation_to_event m]\<rparr>)))"

definition engine_store where
  "engine_store ops cdc app =
     \<lparr>get_topology = snapshot, apply_mutation = RaftEngine_apply_mutation ops cdc app\<rparr>"

interpretation engine: session_store "engine_store ops cdc app" app
  by unfold_locales
    (auto simp: engine_store_def RaftEngine_apply_mutation_def Let_def split: sum.splits prod.splits)

section \<open>The write-ahead log\<close>

text \<open>The log table holds the mutations under the keys from 0 on.\<close>

definition wal :: "Mutation serde \<Rightarrow> (u64 \<Rightarrow> bytes option) \<Rightarrow> Mutation list \<Rightarrow> bool" where
  "wal cdc t log \<longleftrightarrow>
     length log < 2 ^ 64 \<and>
     (\<exists>bs. list_all2 (\<lambda>b m. de cdc b = Ok m) bs log \<and>
        t = (\<lambda>k. if unat k < length bs then Some (bs ! unat k) else None))"

definition engine_inv ::
  "('d \<Rightarrow> tables) \<Rightarrow> Mutation serde \<Rightarrow> (TopologySnapshot \<Rightarrow> Mutation \<Rightarrow> TopologySnapshot) \<Rightarrow> Mutation list
   \<Rightarrow> 'd EngineState \<Rightarrow> bool" where
  "engine_inv view cdc app log s \<longleftrightarrow>
     wal cdc (view (edb s) MUTATIONS) log \<and> snapshot s = foldl app topology_empty log \<and>
     next_id s = of_nat (length log)"

lemma wal_rows:
  assumes "length bs < 2 ^ 64"
  shows "rows_of (\<lambda>k. if unat k < length bs then Some (bs ! unat k) else None) Unbounded Unbounded
    (map (\<lambda>i. (of_nat i, bs ! i)) [0..<length bs])"
proof -
  have u: "unat (of_nat i :: u64) = i" if "i < length bs" for i
    using that assms by (simp add: unat_of_nat)
  have "sorted_wrt (<) (map (\<lambda>i. of_nat i :: u64) [0..<length bs])"
    unfolding sorted_wrt_map by (rule sorted_wrt_mono_rel [OF _ sorted_wrt_upt]) (simp add: word_less_nat_alt u)
  moreover have "(k, v) \<in> set (map (\<lambda>i. (of_nat i, bs ! i)) [0..<length bs]) \<longleftrightarrow>
      unat k < length bs \<and> bs ! unat k = v" for k :: u64 and v
  proof
    assume "unat k < length bs \<and> bs ! unat k = v"
    then show "(k, v) \<in> set (map (\<lambda>i. (of_nat i, bs ! i)) [0..<length bs])"
      unfolding set_map by (intro image_eqI [of _ _ "unat k"]) auto
  qed (auto simp: u)
  ultimately show ?thesis by (simp add: rows_of_def within_def comp_def)
qed

lemma replay_rows:
  assumes "list_all2 (\<lambda>b m. de cdc b = Ok m) (map snd rows) log"
  shows "replay cdc app (map Inr rows) snap n = Ok (foldl app snap log, n + of_nat (length log))"
  using assms
  by (induction rows arbitrary: snap n log) (auto simp: list_all2_Cons1 algebra_simps)

lemma list_all2_nths: "list_all2 P bs log \<Longrightarrow> list_all2 P (map (\<lambda>i. bs ! i) [0..<length bs]) log"
  by (simp add: map_nth)

lemma create_table_view:
  assumes "redb_laws ops view xview" "create_table ops d = (r, d')"
  shows "view d' = view d"
  using assms(1) assms(2) [unfolded create_table_def]
  by (rule write_txn_cases) (auto simp: redb_lawsD(2) [OF assms(1)])

lemma persist_view:
  assumes "redb_laws ops view xview" "persist ops i b d = (r, d')"
  shows "view d' = (if is_err r then view d else (view d)(MUTATIONS := (view d MUTATIONS)(i \<mapsto> b)))"
  using assms(1) assms(2) [unfolded persist_def]
  by (rule write_txn_cases) (auto simp: rbind_eq_Ok_iff redb_lawsD(2,3) [OF assms(1)])

lemma wal_append:
  assumes "wal cdc t log" "Suc (length log) < 2 ^ 64" "de cdc b = Ok m"
  shows "wal cdc (t(of_nat (length log) \<mapsto> b)) (log @ [m])"
proof -
  obtain bs where bs: "list_all2 (\<lambda>b m. de cdc b = Ok m) bs log"
    "t = (\<lambda>k. if unat k < length bs then Some (bs ! unat k) else None)"
    using assms(1) unfolding wal_def by blast
  have len: "length bs = length log" using bs(1) by (rule list_all2_lengthD)
  have eq: "k = of_nat (length log) \<longleftrightarrow> unat k = length log" for k :: u64
    using assms(2) by (simp add: word_unat_eq_iff unat_of_nat)
  have "t(of_nat (length log) \<mapsto> b) = (\<lambda>k. if unat k < length (bs @ [b]) then Some ((bs @ [b]) ! unat k) else None)"
    by (rule ext) (auto simp: bs(2) len eq nth_append)
  moreover have "list_all2 (\<lambda>b m. de cdc b = Ok m) (bs @ [b]) (log @ [m])"
    using bs(1) assms(3) by (simp add: list_all2_appendI)
  ultimately show ?thesis using assms(2) unfolding wal_def by auto
qed

text \<open>A mutation extends the log when it is accepted and changes nothing when it is rejected.\<close>

lemma engine_inv_apply:
  assumes "redb_laws ops view xview" "serde_laws cdc" "engine_inv view cdc app log s" "Suc (length log) < 2 ^ 64"
    "RaftEngine_apply_mutation ops cdc app m s = (r, s')"
  shows "engine_inv view cdc app (if is_err r then log else log @ [m]) s'"
proof (cases "ser cdc m")
  case (Inl e)
  then show ?thesis using assms(3,5) by (auto simp: RaftEngine_apply_mutation_def)
next
  case (Inr b)
  then have b: "de cdc b = Ok m" using assms(2) by (simp add: serde_laws_def)
  obtain q d where q: "persist ops (next_id s) b (edb s) = (q, d)" by fastforce
  note v = persist_view [OF assms(1) q]
  show ?thesis
    using assms(3,5) Inr q v wal_append [OF _ assms(4) b]
    by (cases q) (auto simp: RaftEngine_apply_mutation_def engine_inv_def Let_def)
qed

section \<open>Restart\<close>

primrec engine_run where
  "engine_run ops cdc app [] s = s"
| "engine_run ops cdc app (m # ms) s = engine_run ops cdc app ms (snd (RaftEngine_apply_mutation ops cdc app m s))"

lemma wal_range:
  assumes "redb_laws ops view xview" "read_range ops MUTATIONS Unbounded Unbounded d = Ok (map Inr rows)"
    "wal cdc (view d MUTATIONS) log"
  shows "list_all2 (\<lambda>b m. de cdc b = Ok m) (map snd rows) log"
proof -
  obtain bs where bs: "list_all2 (\<lambda>b m. de cdc b = Ok m) bs log" "length log < 2 ^ 64"
    "view d MUTATIONS = (\<lambda>k. if unat k < length bs then Some (bs ! unat k) else None)"
    using assms(3) unfolding wal_def by blast
  have len: "length bs = length log" using bs(1) by (rule list_all2_lengthD)
  have "rows = map (\<lambda>i. (of_nat i, bs ! i)) [0..<length bs]"
    using redb_lawsD(7) [OF assms(1,2)] wal_rows [of bs] bs(2) len
    by (intro rows_of_unique) (simp_all add: bs(3))
  then have "map snd rows = bs" by (simp add: comp_def map_nth)
  with bs(1) show ?thesis by simp
qed

lemma open_replays:
  assumes "redb_laws ops view xview" "RaftEngine_open ops cdc app (Ok d) = Ok s" "wal cdc (view d MUTATIONS) log"
  shows "engine_inv view cdc app log s"
proof -
  from assms(2) obtain d' rows where d': "create_table ops d = (Ok (), d')"
    and rows: "read_range ops MUTATIONS Unbounded Unbounded d' = Ok rows"
    and rep: "replay cdc app rows topology_empty 0 = Ok (snapshot s, next_id s)" and s: "edb s = d'"
    by (auto simp: RaftEngine_open_def rbind_eq_Ok_iff split: prod.splits)
  have view: "view d' = view d" by (rule create_table_view [OF assms(1) d'])
  have inr: "\<exists>ok. rows = map Inr ok" if "replay cdc app rows t n = Ok p" for rows t n p
    using that
  proof (induction rows arbitrary: t n)
    case (Cons e rows)
    from Cons.prems obtain r t' n' where "e = Inr r" "replay cdc app rows t' n' = Ok p"
      by (auto simp: rbind_eq_Ok_iff)
    with Cons.IH show ?case by (metis list.map(2))
  qed simp
  from inr [OF rep] obtain ok where ok: "rows = map Inr ok" ..
  have "list_all2 (\<lambda>b m. de cdc b = Ok m) (map snd ok) log"
    by (rule wal_range [OF assms(1) rows [unfolded ok]]) (simp add: view assms(3))
  from replay_rows [OF this, of app topology_empty 0] rep ok
  show ?thesis using assms(3) s view by (simp add: engine_inv_def)
qed

lemma engine_run_inv:
  assumes "redb_laws ops view xview" "serde_laws cdc" "engine_inv view cdc app log s"
    "length log + length ms < 2 ^ 64"
  shows "\<exists>log'. engine_inv view cdc app log' (engine_run ops cdc app ms s)"
  using assms(3,4)
proof (induction ms arbitrary: log s)
  case (Cons m ms)
  obtain r s' where r: "RaftEngine_apply_mutation ops cdc app m s = (r, s')" by fastforce
  have "engine_inv view cdc app (if is_err r then log else log @ [m]) s'"
    using engine_inv_apply [OF assms(1,2) Cons.prems(1) _ r] Cons.prems(2) by simp
  then show ?case using Cons.IH [of "if is_err r then log else log @ [m]" s'] Cons.prems(2) r by simp
qed auto

lemma open_succeeds:
  assumes "redb_laws ops view xview" "redb_reliable ops" "wal cdc (view d MUTATIONS) log"
  shows "\<exists>s. RaftEngine_open ops cdc app (Ok d) = Ok s"
proof -
  have "fst (create_table ops d) = Ok ()"
    unfolding create_table_def using redb_reliableD(6) [OF assms(2)] by (intro write_txn_reliable [OF assms(2)]) simp
  then obtain d' where d': "create_table ops d = (Ok (), d')" by (cases "create_table ops d") simp
  have view: "view d' = view d" by (rule create_table_view [OF assms(1) d'])
  obtain rows where rows: "read_range ops MUTATIONS Unbounded Unbounded d' = Ok (map Inr rows)"
    using redb_reliableD(3) [OF assms(2)] by blast
  have "list_all2 (\<lambda>b m. de cdc b = Ok m) (map snd rows) log"
    by (rule wal_range [OF assms(1) rows]) (simp add: view assms(3))
  from replay_rows [OF this, of app topology_empty 0] d' rows
  show ?thesis by (simp add: RaftEngine_open_def read_txn_reliable [OF assms(2)])
qed

text \<open>
  C5: A restart rebuilds the store: from a fresh database, after any sequence of mutations of which the
  database may have failed some at any step, reopening the database (with a database that works) gives
  an engine with exactly the topology and the next mutation id of the running one.
\<close>

theorem engine_restart:
  assumes "redb_laws ops view xview" "serde_laws cdc" "view d MUTATIONS = Map.empty"
    "RaftEngine_open ops cdc app (Ok d) = Ok s0" "length ms < 2 ^ 64"
    "redb_laws ops' view xview'" "redb_reliable ops'"
  shows "\<exists>s'. RaftEngine_open ops' cdc app (Ok (edb (engine_run ops cdc app ms s0))) = Ok s' \<and>
    snapshot s' = snapshot (engine_run ops cdc app ms s0) \<and> next_id s' = next_id (engine_run ops cdc app ms s0)"
proof -
  have "wal cdc (view d MUTATIONS) []" using assms(3) by (simp add: wal_def)
  from open_replays [OF assms(1,4) this] obtain log where
    inv: "engine_inv view cdc app log (engine_run ops cdc app ms s0)"
    using engine_run_inv [OF assms(1,2), of app "[]" s0 ms] assms(5) by auto
  then have w: "wal cdc (view (edb (engine_run ops cdc app ms s0)) MUTATIONS) log" by (simp add: engine_inv_def)
  from open_succeeds [OF assms(6,7) w] obtain s' where s': "RaftEngine_open ops' cdc app (Ok (edb (engine_run ops cdc app ms s0))) = Ok s'"
    by blast
  from open_replays [OF assms(6) s' w] inv s' show ?thesis by (auto simp: engine_inv_def)
qed

text \<open>A codec for the two mutations of the example below; it refuses the others.\<close>

definition bare_node :: "NodeId \<Rightarrow> NodeSnapshot" where
  "bare_node i = \<lparr>ns_id = i, ns_inputs = [], ns_outputs = []\<rparr>"

definition demo_serde :: "Mutation serde" where
  "demo_serde =
     \<lparr>ser = (\<lambda>m. case m of
               AddNode n \<Rightarrow> if n = bare_node (ns_id n) then Ok (1 # to_be64 (ns_id n)) else Err ''ports''
             | RemoveNode i \<Rightarrow> Ok (0 # to_be64 i)
             | _ \<Rightarrow> Err ''links''),
      de = (\<lambda>bs. case bs of
               [t, a, b, c, d, e, f, g, h] \<Rightarrow>
                 Ok (if t = 1 then AddNode (bare_node (from_be64 a b c d e f g h))
                     else RemoveNode (from_be64 a b c d e f g h))
             | _ \<Rightarrow> Err ''truncated'')\<rparr>"

lemma demo_serde_be64:
  "de demo_serde (t # to_be64 i) = Ok (if t = 1 then AddNode (bare_node i) else RemoveNode i)"
proof -
  obtain a b c d e f g h where "to_be64 i = [a, b, c, d, e, f, g, h]" "from_be64 a b c d e f g h = i"
    by (rule to_be64_ex)
  then show ?thesis by (simp add: demo_serde_def)
qed

lemma demo_serde_laws: "serde_laws demo_serde"
proof (unfold serde_laws_def, intro allI impI)
  fix m b
  assume "ser demo_serde m = Ok b"
  then show "de demo_serde b = Ok m"
    by (cases m) (auto simp: demo_serde_def [THEN arg_cong [where f = ser]] demo_serde_be64 split: if_splits)
qed

definition fresh_engine :: "memdb EngineState" where
  "fresh_engine = \<lparr>snapshot = topology_empty, next_id = 0, edb = (\<lambda>_. []), events = []\<rparr>"

lemma fresh_engine_open: "RaftEngine_open memdb_ops cdc app (Ok (\<lambda>_. [])) = Ok fresh_engine"
  by (simp add: RaftEngine_open_def create_table_def write_txn_def read_txn_def memdb_ops_def select_rows_def
      fresh_engine_def)

definition demo_mutations :: "Mutation list" where
  "demo_mutations = [AddNode (bare_node 7), RemoveLink 0, AddNode (bare_node 9), RemoveNode 7]"

lemma demo_run:
  "snapshot (engine_run memdb_ops demo_serde plain_apply demo_mutations fresh_engine) =
     \<lparr>t_nodes = [bare_node 9], t_edges = []\<rparr>"
  "next_id (engine_run memdb_ops demo_serde plain_apply demo_mutations fresh_engine) = 3"
  by (simp_all add: demo_mutations_def RaftEngine_apply_mutation_def persist_def write_txn_def memdb_ops_def
      fresh_engine_def Let_def demo_serde_def bare_node_def topology_empty_def edge_touches_def)

theorem engine_restart_witness:
  "\<exists>s'. RaftEngine_open memdb_ops demo_serde plain_apply
      (Ok (edb (engine_run memdb_ops demo_serde plain_apply demo_mutations fresh_engine))) = Ok s' \<and>
    snapshot s' = \<lparr>t_nodes = [bare_node 9], t_edges = []\<rparr> \<and> next_id s' = 3"
proof -
  have v: "memdb_view (\<lambda>_. []) MUTATIONS = Map.empty" by (simp add: memdb_view_def)
  have n: "length demo_mutations < 2 ^ 64" by (simp add: demo_mutations_def)
  show ?thesis
    using engine_restart [OF memdb_laws demo_serde_laws v fresh_engine_open n memdb_laws memdb_reliable,
        where app = plain_apply]
    unfolding demo_run .
qed

end
