(* ===== verification/Raft_Types.thy ===== *)
theory Raft_Types
  imports Session_Store
begin

text \<open>
  What the two persistent halves of the replicated session store share
  (\<open>session-store/src/raft_types.rs\<close>): the consensus crate's identifiers and entries, with the fields
  and constructors the sources use, the storage errors, and the binary codecs, which are parameters.
  A membership is opaque (a type variable).
\<close>

record LogId =
  li_term :: u64
  li_node :: u64
  li_index :: u64

datatype 'mem EntryPayload = Blank | Normal Mutation | Membership 'mem

record 'mem Entry =
  e_log_id :: LogId
  e_payload :: "'mem EntryPayload"

record ClientWriteResponse =
  mutation_id :: MutationId

text \<open>\<open>ClientWriteResponse::default\<close>.\<close>

definition ClientWriteResponse_default :: ClientWriteResponse where
  "ClientWriteResponse_default = \<lparr>mutation_id = 0\<rparr>"

datatype ErrorVerb = VerbRead | VerbWrite

datatype StorageError = StorageIO string ErrorVerb string

definition io_error :: "string \<Rightarrow> ErrorVerb \<Rightarrow> string \<Rightarrow> StorageError" where
  "io_error ctx verb e = StorageIO ctx verb e"

text \<open>The index of an entry.\<close>

definition entry_index :: "'mem Entry \<Rightarrow> u64" where
  "entry_index e = li_index (e_log_id e)"

text \<open>Deserializing the rows of an iteration, in order.\<close>

fun read_rows :: "(string \<Rightarrow> 'e) \<Rightarrow> (string \<Rightarrow> 'e) \<Rightarrow> (bytes \<Rightarrow> string + 'a) \<Rightarrow> (string + row) list \<Rightarrow> 'e + 'a list" where
  "read_rows err_row err_de dec [] = Ok []"
| "read_rows err_row err_de dec (r # rs) =
     rbind (map_err err_row r) (\<lambda>(_, b).
     rbind (map_err err_de (dec b)) (\<lambda>a.
     rbind (read_rows err_row err_de dec rs) (\<lambda>as. Ok (a # as))))"

lemma read_rows_Ok:
  assumes "read_rows er ed dec rs = Ok as"
  obtains rows where "rs = map Inr rows" "list_all2 (\<lambda>b a. dec b = Ok a) (map snd rows) as"
  using assms
proof (induction rs arbitrary: as thesis)
  case (Cons r rs)
  from Cons.prems(2) obtain k b a as' where r: "r = Inr (k, b)" "dec b = Ok a" "as = a # as'"
    "read_rows er ed dec rs = Ok as'"
    by (auto simp: rbind_eq_Ok_iff)
  obtain rows where "rs = map Inr rows" "list_all2 (\<lambda>b a. dec b = Ok a) (map snd rows) as'"
    using Cons.IH [OF _ r(4)] by blast
  with r show ?case by (intro Cons.prems(1) [of "(k, b) # rows"]) simp_all
qed simp

lemma read_rows_all:
  assumes "list_all2 (\<lambda>b a. dec b = Ok a) (map snd rows) as"
  shows "read_rows er ed dec (map Inr rows) = Ok as"
  using assms by (induction rows arbitrary: as) (auto simp: list_all2_Cons1)

end
