(* ===== verification/Raft_Log.thy ===== *)
theory Raft_Log
  imports Raft_Types
begin

text \<open>
  The replicated store's log (\<open>session-store/src/raft_log_store.rs\<close>): entries by index, the vote and
  the committed id in three tables of one database. Each operation is one transaction under the mutex.
\<close>

definition LOGS :: string where "LOGS = ''raft_logs''"
definition VOTE :: string where "VOTE = ''raft_vote''"
definition COMMITTED :: string where "COMMITTED = ''raft_committed''"
definition SINGLE_ROW_KEY :: u64 where "SINGLE_ROW_KEY = 0"

text \<open>
  The binary codecs of the stored types. \<open>de_logid\<close> is the decoder of a bare log id, which
  \<open>get_log_state\<close> applies to the row that \<open>save_committed\<close> wrote as an optional one.
\<close>

record ('mem, 'v) log_codecs =
  lc_entry :: "'mem Entry serde"
  lc_vote :: "'v serde"
  lc_committed :: "LogId option serde"
  de_logid :: "bytes \<Rightarrow> string + LogId"

section \<open>Operations\<close>

definition RaftLogStore_open :: "('d, 'x) redb_ops \<Rightarrow> string + 'd \<Rightarrow> StorageError + 'd" where
  "RaftLogStore_open ops created =
     rbind (map_err (io_error ''open redb'' VerbWrite) created) (\<lambda>d.
     let (r, d) = write_txn ops (io_error ''begin_write'' VerbWrite) (io_error ''commit table init'' VerbWrite)
           (\<lambda>x. rbind (map_err (io_error ''open_table LOGS'' VerbWrite) (write_table ops LOGS x)) (\<lambda>x.
                rbind (map_err (io_error ''open_table VOTE'' VerbWrite) (write_table ops VOTE x)) (\<lambda>x.
                map_err (io_error ''open_table COMMITTED'' VerbWrite) (write_table ops COMMITTED x)))) d
     in rbind r (\<lambda>_. Ok d))"

definition LogReader_try_get_log_entries ::
  "('d, 'x) redb_ops \<Rightarrow> ('mem, 'v) log_codecs \<Rightarrow> bound \<Rightarrow> bound \<Rightarrow> 'd \<Rightarrow> StorageError + 'mem Entry list" where
  "LogReader_try_get_log_entries ops cdc lo hi d =
     rbind (read_txn ops (io_error ''begin_read'' VerbRead) (io_error ''open_table LOGS'' VerbRead) LOGS d) (\<lambda>_.
     rbind (map_err (io_error ''range LOGS'' VerbRead) (read_range ops LOGS lo hi d)) (\<lambda>rows.
     read_rows (io_error ''iter LOGS'' VerbRead) (io_error ''deserialize entry'' VerbRead) (de (lc_entry cdc)) rows))"

definition LogReader_limited_get_log_entries where
  "LogReader_limited_get_log_entries ops cdc start end' d =
     LogReader_try_get_log_entries ops cdc (Included start) (Excluded end') d"

text \<open>The store's own reader repeats the code of the log reader.\<close>

definition try_get_log_entries ::
  "('d, 'x) redb_ops \<Rightarrow> ('mem, 'v) log_codecs \<Rightarrow> bound \<Rightarrow> bound \<Rightarrow> 'd \<Rightarrow> StorageError + 'mem Entry list" where
  "try_get_log_entries ops cdc lo hi d =
     rbind (read_txn ops (io_error ''begin_read'' VerbRead) (io_error ''open_table LOGS'' VerbRead) LOGS d) (\<lambda>_.
     rbind (map_err (io_error ''range LOGS'' VerbRead) (read_range ops LOGS lo hi d)) (\<lambda>rows.
     read_rows (io_error ''iter LOGS'' VerbRead) (io_error ''deserialize entry'' VerbRead) (de (lc_entry cdc)) rows))"

definition limited_get_log_entries where
  "limited_get_log_entries ops cdc start end' d =
     try_get_log_entries ops cdc (Included start) (Excluded end') d"

record LogState =
  last_purged_log_id :: "LogId option"
  last_log_id :: "LogId option"

definition get_log_state ::
  "('d, 'x) redb_ops \<Rightarrow> ('mem, 'v) log_codecs \<Rightarrow> 'd \<Rightarrow> StorageError + LogState" where
  "get_log_state ops cdc d =
     rbind (read_txn ops (io_error ''begin_read'' VerbRead) (io_error ''open_table LOGS'' VerbRead) LOGS d) (\<lambda>_.
     rbind (map_err (io_error ''iter LOGS'' VerbRead) (read_range ops LOGS Unbounded Unbounded d)) (\<lambda>rows.
     rbind (read_rows (io_error ''iter LOGS'' VerbRead) (io_error ''deserialize entry'' VerbRead) (de (lc_entry cdc)) rows) (\<lambda>es.
     let last_log = (if es = [] then None else Some (e_log_id (last es)))
     in rbind (map_err (io_error ''open_table COMMITTED'' VerbRead) (read_table ops COMMITTED d)) (\<lambda>_.
        rbind (map_err (io_error ''get COMMITTED'' VerbRead) (read_get ops COMMITTED SINGLE_ROW_KEY d)) (\<lambda>row.
        rbind (case row of
                 None \<Rightarrow> Ok None
               | Some b \<Rightarrow> rbind (map_err (io_error ''deserialize committed'' VerbRead) (de_logid cdc b)) (\<lambda>l. Ok (Some l)))
          (\<lambda>purged. Ok \<lparr>last_purged_log_id = purged, last_log_id = last_log\<rparr>))))))"

definition save_vote ::
  "('d, 'x) redb_ops \<Rightarrow> ('mem, 'v) log_codecs \<Rightarrow> 'v \<Rightarrow> 'd \<Rightarrow> (StorageError + unit) \<times> 'd" where
  "save_vote ops cdc vote d =
     (case ser (lc_vote cdc) vote of
        Inl e \<Rightarrow> (Err (io_error ''serialize vote'' VerbWrite e), d)
      | Inr b \<Rightarrow>
          write_txn ops (io_error ''begin_write'' VerbWrite) (io_error ''commit VOTE'' VerbWrite)
            (\<lambda>x. rbind (map_err (io_error ''open_table VOTE'' VerbWrite) (write_table ops VOTE x)) (\<lambda>x.
                 map_err (io_error ''insert VOTE'' VerbWrite) (tx_insert ops VOTE SINGLE_ROW_KEY b x))) d)"

definition read_vote ::
  "('d, 'x) redb_ops \<Rightarrow> ('mem, 'v) log_codecs \<Rightarrow> 'd \<Rightarrow> StorageError + 'v option" where
  "read_vote ops cdc d =
     rbind (read_txn ops (io_error ''begin_read'' VerbRead) (io_error ''open_table VOTE'' VerbRead) VOTE d) (\<lambda>_.
     rbind (map_err (io_error ''get VOTE'' VerbRead) (read_get ops VOTE SINGLE_ROW_KEY d)) (\<lambda>row.
     case row of
       Some b \<Rightarrow> rbind (map_err (io_error ''deserialize vote'' VerbRead) (de (lc_vote cdc) b)) (\<lambda>v. Ok (Some v))
     | None \<Rightarrow> Ok None))"

definition save_committed ::
  "('d, 'x) redb_ops \<Rightarrow> ('mem, 'v) log_codecs \<Rightarrow> LogId option \<Rightarrow> 'd \<Rightarrow> (StorageError + unit) \<times> 'd" where
  "save_committed ops cdc committed d =
     (case ser (lc_committed cdc) committed of
        Inl e \<Rightarrow> (Err (io_error ''serialize committed'' VerbWrite e), d)
      | Inr b \<Rightarrow>
          write_txn ops (io_error ''begin_write'' VerbWrite) (io_error ''commit COMMITTED'' VerbWrite)
            (\<lambda>x. rbind (map_err (io_error ''open_table COMMITTED'' VerbWrite) (write_table ops COMMITTED x)) (\<lambda>x.
                 map_err (io_error ''insert COMMITTED'' VerbWrite) (tx_insert ops COMMITTED SINGLE_ROW_KEY b x))) d)"

definition read_committed ::
  "('d, 'x) redb_ops \<Rightarrow> ('mem, 'v) log_codecs \<Rightarrow> 'd \<Rightarrow> StorageError + LogId option" where
  "read_committed ops cdc d =
     rbind (read_txn ops (io_error ''begin_read'' VerbRead) (io_error ''open_table COMMITTED'' VerbRead) COMMITTED d) (\<lambda>_.
     rbind (map_err (io_error ''get COMMITTED'' VerbRead) (read_get ops COMMITTED SINGLE_ROW_KEY d)) (\<lambda>row.
     case row of
       Some b \<Rightarrow> map_err (io_error ''deserialize committed'' VerbRead) (de (lc_committed cdc) b)
     | None \<Rightarrow> Ok None))"

primrec insert_entries ::
  "('d, 'x) redb_ops \<Rightarrow> ('mem, 'v) log_codecs \<Rightarrow> 'mem Entry list \<Rightarrow> 'x \<Rightarrow> StorageError + 'x" where
  "insert_entries ops cdc [] x = Ok x"
| "insert_entries ops cdc (e # es) x =
     rbind (map_err (io_error ''serialize entry'' VerbWrite) (ser (lc_entry cdc) e)) (\<lambda>b.
     rbind (map_err (io_error ''insert LOGS'' VerbWrite) (tx_insert ops LOGS (entry_index e) b x)) (\<lambda>x.
     insert_entries ops cdc es x))"

text \<open>The second result is whether the flush callback was told of the completed write.\<close>

definition append_entries ::
  "('d, 'x) redb_ops \<Rightarrow> ('mem, 'v) log_codecs \<Rightarrow> 'mem Entry list \<Rightarrow> 'd \<Rightarrow> ((StorageError + unit) \<times> bool) \<times> 'd" where
  "append_entries ops cdc es d =
     (if es = [] then ((Ok (), True), d)
      else
        let (r, d) =
          write_txn ops (io_error ''begin_write'' VerbWrite) (io_error ''commit LOGS'' VerbWrite)
            (\<lambda>x. rbind (map_err (io_error ''open_table LOGS'' VerbWrite) (write_table ops LOGS x))
                   (insert_entries ops cdc es)) d
        in ((r, \<not> is_err r), d))"

primrec remove_keys :: "('d, 'x) redb_ops \<Rightarrow> u64 list \<Rightarrow> 'x \<Rightarrow> StorageError + 'x" where
  "remove_keys ops [] x = Ok x"
| "remove_keys ops (k # ks) x =
     rbind (map_err (io_error ''remove LOGS'' VerbWrite) (tx_remove ops LOGS k x)) (remove_keys ops ks)"

text \<open>The keys of an iteration.\<close>

fun row_keys :: "(string \<Rightarrow> 'e) \<Rightarrow> (string + row) list \<Rightarrow> 'e + u64 list" where
  "row_keys err [] = Ok []"
| "row_keys err (r # rs) =
     rbind (map_err err r) (\<lambda>(k, _). rbind (row_keys err rs) (\<lambda>ks. Ok (k # ks)))"

definition truncate_log :: "('d, 'x) redb_ops \<Rightarrow> LogId \<Rightarrow> 'd \<Rightarrow> (StorageError + unit) \<times> 'd" where
  "truncate_log ops l d =
     write_txn ops (io_error ''begin_write'' VerbWrite) (io_error ''commit truncate'' VerbWrite)
       (\<lambda>x. rbind (map_err (io_error ''open_table LOGS'' VerbWrite) (write_table ops LOGS x)) (\<lambda>x.
            rbind (map_err (io_error ''range LOGS for truncate'' VerbWrite)
                     (tx_range ops LOGS (Included (li_index l)) Unbounded x)) (\<lambda>rows.
            rbind (row_keys (io_error ''iter LOGS for truncate'' VerbWrite) rows) (\<lambda>ks.
            remove_keys ops ks x)))) d"

definition purge_log :: "('d, 'x) redb_ops \<Rightarrow> LogId \<Rightarrow> 'd \<Rightarrow> (StorageError + unit) \<times> 'd" where
  "purge_log ops l d =
     write_txn ops (io_error ''begin_write'' VerbWrite) (io_error ''commit purge'' VerbWrite)
       (\<lambda>x. rbind (map_err (io_error ''open_table LOGS'' VerbWrite) (write_table ops LOGS x)) (\<lambda>x.
            rbind (map_err (io_error ''iter LOGS for purge'' VerbWrite)
                     (tx_range ops LOGS Unbounded Unbounded x)) (\<lambda>rows.
            rbind (row_keys (io_error ''iter LOGS for purge'' VerbWrite) rows) (\<lambda>ks.
            remove_keys ops (filter (\<lambda>k. k \<le> li_index l) ks) x)))) d"

section \<open>The contract of a log\<close>

text \<open>
  What the consensus core relies on: an abstract log from indices to entries, on which an append puts
  its entries, a truncation removes the entries from an index on, a purge those up to an index, and a
  read lists the entries of a range in order. A failed operation changes nothing.
\<close>

definition put_entry :: "('e \<Rightarrow> u64) \<Rightarrow> (u64 \<Rightarrow> 'e option) \<Rightarrow> 'e \<Rightarrow> u64 \<Rightarrow> 'e option" where
  "put_entry index l e = l(index e \<mapsto> e)"

definition lists_entries :: "('e \<Rightarrow> u64) \<Rightarrow> (u64 \<Rightarrow> 'e option) \<Rightarrow> bound \<Rightarrow> bound \<Rightarrow> 'e list \<Rightarrow> bool" where
  "lists_entries index l lo hi es \<longleftrightarrow>
     sorted_wrt (<) (map index es) \<and> set es = {e. l (index e) = Some e \<and> within lo hi (index e)}"

locale raft_log =
  fixes inv :: "'d \<Rightarrow> bool" and abs :: "'d \<Rightarrow> u64 \<Rightarrow> 'e option" and index :: "'e \<Rightarrow> u64"
    and append :: "'e list \<Rightarrow> 'd \<Rightarrow> ('x + unit) \<times> 'd" and truncate :: "LogId \<Rightarrow> 'd \<Rightarrow> ('x + unit) \<times> 'd"
    and purge :: "LogId \<Rightarrow> 'd \<Rightarrow> ('x + unit) \<times> 'd" and entries :: "bound \<Rightarrow> bound \<Rightarrow> 'd \<Rightarrow> 'x + 'e list"
  assumes append_ok: "inv d \<Longrightarrow> append es d = (Ok (), d') \<Longrightarrow> inv d' \<and> abs d' = foldl (put_entry index) (abs d) es"
    and truncate_ok: "inv d \<Longrightarrow> truncate i d = (Ok (), d') \<Longrightarrow> inv d' \<and> abs d' = abs d |` {k. k < li_index i}"
    and purge_ok: "inv d \<Longrightarrow> purge i d = (Ok (), d') \<Longrightarrow> inv d' \<and> abs d' = abs d |` {k. li_index i < k}"
    and append_err: "inv d \<Longrightarrow> append es d = (Err x, d') \<Longrightarrow> inv d' \<and> abs d' = abs d"
    and truncate_err: "inv d \<Longrightarrow> truncate i d = (Err x, d') \<Longrightarrow> inv d' \<and> abs d' = abs d"
    and purge_err: "inv d \<Longrightarrow> purge i d = (Err x, d') \<Longrightarrow> inv d' \<and> abs d' = abs d"
    and entries_ok: "inv d \<Longrightarrow> entries lo hi d = Ok es \<Longrightarrow> lists_entries index (abs d) lo hi es"
begin

lemma sorted_entries_unique:
  "sorted_wrt (<) (map index es) \<Longrightarrow> sorted_wrt (<) (map index fs) \<Longrightarrow> set es = set fs \<Longrightarrow> es = fs"
proof -
  assume s: "sorted_wrt (<) (map index es)" "sorted_wrt (<) (map index fs)" and eq: "set es = set fs"
  have "map index es = map index fs" using s eq by (intro sorted_wrt_less_unique) simp_all
  moreover have "inj_on index (set es \<union> set fs)"
    using s(1) eq by (simp add: strict_sorted_iff distinct_map)
  ultimately show "es = fs" by (rule map_inj_on)
qed

lemma foldl_put_entry:
  assumes "distinct (map index es)"
  shows "foldl (put_entry index) l es k = (case find (\<lambda>e. index e = k) es of Some e \<Rightarrow> Some e | None \<Rightarrow> l k)"
  using assms
proof (induction es arbitrary: l)
  case (Cons e es)
  then have "find (\<lambda>f. index f = index e) es = None" by (simp add: find_None_iff) (metis image_eqI)
  with Cons show ?case by (auto simp: put_entry_def split: option.splits)
qed simp

text \<open>Truncating and appending replaces the suffix of the log.\<close>

lemma replace_suffix:
  assumes d: "inv d" "truncate i d = (Ok (), d1)" "append es d1 = (Ok (), d2)"
    and es: "sorted_wrt (<) (map index es)" "\<forall>e \<in> set es. li_index i \<le> index e"
    and old: "entries Unbounded (Excluded (li_index i)) d = Ok old" and new: "entries Unbounded Unbounded d2 = Ok new"
  shows "new = old @ es"
proof -
  note t = truncate_ok [OF d(1,2)]
  note a = append_ok [OF conjunct1 [OF t] d(3)]
  note o = entries_ok [OF d(1) old, unfolded lists_entries_def]
  note n = entries_ok [OF conjunct1 [OF a] new, unfolded lists_entries_def]
  have dis: "distinct (map index es)" using es(1) by (simp add: strict_sorted_iff)
  have abs2: "abs d2 k = (case find (\<lambda>e. index e = k) es of Some e \<Rightarrow> Some e | None \<Rightarrow> (abs d |` {k. k < li_index i}) k)" for k
    using a t foldl_put_entry [OF dis] by simp
  have "set new = set old \<union> set es"
  proof (intro set_eqI iffI)
    fix e assume "e \<in> set new"
    then have "abs d2 (index e) = Some e" using n by auto
    then show "e \<in> set old \<union> set es"
      using o by (auto simp: abs2 restrict_map_def within_def find_Some_iff split: option.splits if_splits)
  next
    fix e assume "e \<in> set old \<union> set es"
    then show "e \<in> set new"
    proof
      assume "e \<in> set old"
      then have e: "abs d (index e) = Some e" "index e < li_index i" using o by (auto simp: within_def)
      then have "find (\<lambda>f. index f = index e) es = None" using es(2) by (force simp: find_None_iff)
      then show ?thesis using e n by (simp add: abs2 within_def)
    next
      assume e: "e \<in> set es"
      then have "find (\<lambda>f. index f = index e) es = Some e"
        using dis by (induction es) auto
      then show ?thesis using n by (simp add: abs2 within_def)
    qed
  qed
  moreover have "sorted_wrt (<) (map index (old @ es))"
    using o es by (auto simp: sorted_wrt_append within_def)
  ultimately show ?thesis using n by (intro sorted_entries_unique) simp_all
qed

end

section \<open>The store implements the contract\<close>

definition table_abs :: "(bytes \<Rightarrow> string + 'e) \<Rightarrow> (u64 \<Rightarrow> bytes option) \<Rightarrow> u64 \<Rightarrow> 'e option" where
  "table_abs dec t k = (case t k of None \<Rightarrow> None | Some b \<Rightarrow> (case dec b of Inr e \<Rightarrow> Some e | Inl _ \<Rightarrow> None))"

definition rows_ok :: "(bytes \<Rightarrow> string + 'mem Entry) \<Rightarrow> (u64 \<Rightarrow> bytes option) \<Rightarrow> bool" where
  "rows_ok dec t \<longleftrightarrow> (\<forall>k b. t k = Some b \<longrightarrow> (\<exists>e. dec b = Ok e \<and> entry_index e = k))"

definition log_abs :: "('d \<Rightarrow> tables) \<Rightarrow> ('mem, 'v) log_codecs \<Rightarrow> 'd \<Rightarrow> u64 \<Rightarrow> 'mem Entry option" where
  "log_abs view cdc d = table_abs (de (lc_entry cdc)) (view d LOGS)"

definition log_inv where
  "log_inv ops view xview cdc d \<longleftrightarrow>
     redb_laws ops view xview \<and> serde_laws (lc_entry cdc) \<and> rows_ok (de (lc_entry cdc)) (view d LOGS)"

definition log_append where
  "log_append ops cdc es d = (let ((r, _), d') = append_entries ops cdc es d in (r, d'))"

lemma rows_ok_insert: "rows_ok dec t \<Longrightarrow> dec b = Ok e \<Longrightarrow> rows_ok dec (t(entry_index e \<mapsto> b))"
  by (simp add: rows_ok_def)

lemma table_abs_insert: "dec b = Ok e \<Longrightarrow> table_abs dec (t(entry_index e \<mapsto> b)) = put_entry entry_index (table_abs dec t) e"
  by (rule ext) (simp add: table_abs_def put_entry_def)

lemma table_abs_restrict: "table_abs dec (t |` A) = table_abs dec t |` A"
  by (rule ext) (simp add: table_abs_def restrict_map_def)

lemma rows_ok_restrict: "rows_ok dec t \<Longrightarrow> rows_ok dec (t |` A)"
  by (simp add: rows_ok_def restrict_map_def)

lemma insert_entries_view:
  assumes "redb_laws ops view xview" "serde_laws (lc_entry cdc)"
    "insert_entries ops cdc es x = Ok x'" "rows_ok (de (lc_entry cdc)) (xview x LOGS)"
  shows "rows_ok (de (lc_entry cdc)) (xview x' LOGS) \<and>
    table_abs (de (lc_entry cdc)) (xview x' LOGS) =
      foldl (put_entry entry_index) (table_abs (de (lc_entry cdc)) (xview x LOGS)) es"
  using assms(3,4)
proof (induction es arbitrary: x)
  case (Cons e es)
  from Cons.prems(1) obtain b x1 where b: "ser (lc_entry cdc) e = Ok b"
    and x1: "tx_insert ops LOGS (entry_index e) b x = Ok x1" "insert_entries ops cdc es x1 = Ok x'"
    by (auto simp: rbind_eq_Ok_iff)
  have d: "de (lc_entry cdc) b = Ok e" using b assms(2) by (simp add: serde_laws_def)
  have v: "xview x1 LOGS = (xview x LOGS)(entry_index e \<mapsto> b)" using redb_lawsD(3) [OF assms(1) x1(1)] by simp
  have "rows_ok (de (lc_entry cdc)) (xview x1 LOGS)" unfolding v by (rule rows_ok_insert [OF Cons.prems(2) d])
  moreover have "table_abs (de (lc_entry cdc)) (xview x1 LOGS) = put_entry entry_index (table_abs (de (lc_entry cdc)) (xview x LOGS)) e"
    unfolding v using d by (rule table_abs_insert)
  ultimately show ?case using Cons.IH [OF x1(2)] by simp
qed simp

lemma remove_keys_view:
  assumes "redb_laws ops view xview" "remove_keys ops ks x = Ok x'"
  shows "xview x' LOGS = xview x LOGS |` (- set ks)"
  using assms(2)
proof (induction ks arbitrary: x)
  case (Cons k ks)
  from Cons.prems obtain x1 where x1: "tx_remove ops LOGS k x = Ok x1" "remove_keys ops ks x1 = Ok x'"
    by (auto simp: rbind_eq_Ok_iff)
  have "xview x1 LOGS = (xview x LOGS)(k := None)" using redb_lawsD(4) [OF assms(1) x1(1)] by simp
  then show ?case using Cons.IH [OF x1(2)] by (auto simp: restrict_map_def fun_eq_iff)
qed (simp add: restrict_map_def)

lemma row_keys_Ok:
  assumes "row_keys er rs = Ok ks"
  obtains rows where "rs = map Inr rows" "ks = map fst rows"
  using assms
proof (induction rs arbitrary: ks thesis)
  case (Cons r rs)
  from Cons.prems(2) obtain k b ks' where r: "r = Inr (k, b)" "ks = k # ks'" "row_keys er rs = Ok ks'"
    by (auto simp: rbind_eq_Ok_iff)
  obtain rows where "rs = map Inr rows" "ks' = map fst rows" using Cons.IH [OF _ r(3)] by blast
  with r show ?case by (intro Cons.prems(1) [of "(k, b) # rows"]) simp_all
qed simp

lemma restrict_dom:
  assumes "\<And>k. k \<in> dom t \<Longrightarrow> k \<in> A \<longleftrightarrow> k \<in> B"
  shows "t |` A = t |` B"
proof
  fix k show "(t |` A) k = (t |` B) k"
    using assms [of k] by (cases "t k") (auto simp: restrict_map_def dom_def)
qed

lemma truncate_log_view:
  assumes "redb_laws ops view xview" "truncate_log ops l d = (r, d')"
  shows "view d' LOGS = (if is_err r then view d LOGS else view d LOGS |` {k. k < li_index l})"
  using assms(1) assms(2) [unfolded truncate_log_def]
proof (cases rule: write_txn_cases)
  case (committed x x')
  then obtain x1 rows ks where x1: "write_table ops LOGS x = Ok x1"
    "tx_range ops LOGS (Included (li_index l)) Unbounded x1 = Ok rows"
    "row_keys (io_error ''iter LOGS for truncate'' VerbWrite) rows = Ok ks" "remove_keys ops ks x1 = Ok x'"
    by (auto simp: rbind_eq_Ok_iff)
  obtain ok where ok: "rows = map Inr ok" "ks = map fst ok" by (rule row_keys_Ok [OF x1(3)])
  have v: "xview x1 = view d" using redb_lawsD(2) [OF assms(1) x1(1)] committed by simp
  have "set ks = {k \<in> dom (view d LOGS). li_index l \<le> k}"
    using rows_of_keys [OF redb_lawsD(8) [OF assms(1) x1(2) [unfolded ok(1)]]] by (simp add: ok(2) v within_def)
  then have "view d LOGS |` (- set ks) = view d LOGS |` {k. k < li_index l}"
    by (intro restrict_dom) (auto simp: not_le)
  then show ?thesis using remove_keys_view [OF assms(1) x1(4)] committed v by simp
qed simp

lemma purge_log_view:
  assumes "redb_laws ops view xview" "purge_log ops l d = (r, d')"
  shows "view d' LOGS = (if is_err r then view d LOGS else view d LOGS |` {k. li_index l < k})"
  using assms(1) assms(2) [unfolded purge_log_def]
proof (cases rule: write_txn_cases)
  case (committed x x')
  then obtain x1 rows ks where x1: "write_table ops LOGS x = Ok x1"
    "tx_range ops LOGS Unbounded Unbounded x1 = Ok rows"
    "row_keys (io_error ''iter LOGS for purge'' VerbWrite) rows = Ok ks"
    "remove_keys ops (filter (\<lambda>k. k \<le> li_index l) ks) x1 = Ok x'"
    by (auto simp: rbind_eq_Ok_iff)
  obtain ok where ok: "rows = map Inr ok" "ks = map fst ok" by (rule row_keys_Ok [OF x1(3)])
  have v: "xview x1 = view d" using redb_lawsD(2) [OF assms(1) x1(1)] committed by simp
  have "set ks = dom (view d LOGS)"
    using rows_of_keys [OF redb_lawsD(8) [OF assms(1) x1(2) [unfolded ok(1)]]] by (auto simp: ok(2) v within_def)
  then have "view d LOGS |` (- set (filter (\<lambda>k. k \<le> li_index l) ks)) = view d LOGS |` {k. li_index l < k}"
    by (intro restrict_dom) (auto simp: not_le)
  then show ?thesis using remove_keys_view [OF assms(1) x1(4)] committed v by simp
qed simp

lemma log_append_view:
  assumes "log_inv ops view xview cdc d" "log_append ops cdc es d = (r, d')"
  shows "rows_ok (de (lc_entry cdc)) (view d' LOGS) \<and>
    log_abs view cdc d' = (if is_err r then log_abs view cdc d else foldl (put_entry entry_index) (log_abs view cdc d) es)"
proof (cases "es = []")
  case True
  then show ?thesis using assms by (simp add: log_append_def append_entries_def log_inv_def)
next
  case False
  have laws: "redb_laws ops view xview" "serde_laws (lc_entry cdc)" "rows_ok (de (lc_entry cdc)) (view d LOGS)"
    using assms(1) by (simp_all add: log_inv_def)
  from False assms(2) have "write_txn ops (io_error ''begin_write'' VerbWrite) (io_error ''commit LOGS'' VerbWrite)
      (\<lambda>x. rbind (map_err (io_error ''open_table LOGS'' VerbWrite) (write_table ops LOGS x))
        (insert_entries ops cdc es)) d = (r, d')"
    by (simp add: log_append_def append_entries_def split: prod.splits)
  with laws(1) show ?thesis
  proof (cases rule: write_txn_cases)
    case (committed x x')
    then obtain x1 where x1: "write_table ops LOGS x = Ok x1" "insert_entries ops cdc es x1 = Ok x'"
      by (auto simp: rbind_eq_Ok_iff)
    have "xview x1 = view d" using redb_lawsD(2) [OF laws(1) x1(1)] committed by simp
    then show ?thesis
      using insert_entries_view [OF laws(1,2) x1(2)] laws(3) committed by (simp add: log_abs_def)
  qed (use laws in \<open>simp add: log_abs_def\<close>)
qed

lemma entries_lists:
  assumes "log_inv ops view xview cdc d" "try_get_log_entries ops cdc lo hi d = Ok es"
  shows "lists_entries entry_index (log_abs view cdc d) lo hi es"
proof -
  have laws: "redb_laws ops view xview" "rows_ok (de (lc_entry cdc)) (view d LOGS)"
    using assms(1) by (simp_all add: log_inv_def)
  from assms(2) obtain rs where rs: "read_range ops LOGS lo hi d = Ok rs"
    "read_rows (io_error ''iter LOGS'' VerbRead) (io_error ''deserialize entry'' VerbRead) (de (lc_entry cdc)) rs = Ok es"
    by (auto simp: try_get_log_entries_def rbind_eq_Ok_iff)
  obtain rows where rows: "rs = map Inr rows" "list_all2 (\<lambda>b a. de (lc_entry cdc) b = Ok a) (map snd rows) es"
    by (rule read_rows_Ok [OF rs(2)])
  have ro: "rows_of (view d LOGS) lo hi rows" by (rule redb_lawsD(7) [OF laws(1) rs(1) [unfolded rows(1)]])
  have len: "length rows = length es" using list_all2_lengthD [OF rows(2)] by simp
  have nth: "de (lc_entry cdc) (snd (rows ! i)) = Ok (es ! i)" if "i < length es" for i
    using list_all2_nthD2 [OF rows(2) that] that len by simp
  have key: "entry_index (es ! i) = fst (rows ! i)" if "i < length es" for i
  proof -
    have "(fst (rows ! i), snd (rows ! i)) \<in> set rows" using that len by simp
    then have "view d LOGS (fst (rows ! i)) = Some (snd (rows ! i))" using ro unfolding rows_of_def by blast
    then obtain e where "de (lc_entry cdc) (snd (rows ! i)) = Ok e" "entry_index e = fst (rows ! i)"
      using laws(2) unfolding rows_ok_def by blast
    then show ?thesis using nth [OF that] by simp
  qed
  have keys: "map entry_index es = map fst rows" using len key by (intro nth_equalityI) simp_all
  have "e \<in> set es \<longleftrightarrow> log_abs view cdc d (entry_index e) = Some e \<and> within lo hi (entry_index e)" for e
  proof
    assume "e \<in> set es"
    then obtain i where i: "i < length es" "e = es ! i" by (metis in_set_conv_nth)
    then have "(fst (rows ! i), snd (rows ! i)) \<in> set rows" using len by simp
    then have "view d LOGS (fst (rows ! i)) = Some (snd (rows ! i)) \<and> within lo hi (fst (rows ! i))"
      using ro unfolding rows_of_def by blast
    then show "log_abs view cdc d (entry_index e) = Some e \<and> within lo hi (entry_index e)"
      using i key nth by (simp add: log_abs_def table_abs_def)
  next
    assume e: "log_abs view cdc d (entry_index e) = Some e \<and> within lo hi (entry_index e)"
    then obtain b where b: "view d LOGS (entry_index e) = Some b" "de (lc_entry cdc) b = Ok e"
      by (auto simp: log_abs_def table_abs_def split: option.splits sum.splits)
    with e ro have "(entry_index e, b) \<in> set rows" unfolding rows_of_def by blast
    then obtain i where "i < length rows" "rows ! i = (entry_index e, b)" by (metis in_set_conv_nth)
    then show "e \<in> set es" using nth [of i] len b by (metis Inr_inject nth_mem snd_conv)
  qed
  then show ?thesis using ro by (auto simp: lists_entries_def keys rows_of_def)
qed

interpretation store: raft_log "log_inv ops view xview cdc" "log_abs view cdc" entry_index
  "log_append ops cdc" "truncate_log ops" "purge_log ops" "try_get_log_entries ops cdc"
proof
  fix d es d' assume "log_inv ops view xview cdc d" "log_append ops cdc es d = (Ok (), d')"
  then show "log_inv ops view xview cdc d' \<and> log_abs view cdc d' = foldl (put_entry entry_index) (log_abs view cdc d) es"
    using log_append_view by (fastforce simp: log_inv_def)
next
  fix d es x d' assume "log_inv ops view xview cdc d" "log_append ops cdc es d = (Err x, d')"
  then show "log_inv ops view xview cdc d' \<and> log_abs view cdc d' = log_abs view cdc d"
    using log_append_view by (fastforce simp: log_inv_def)
next
  fix d i d' assume "log_inv ops view xview cdc d" "truncate_log ops i d = (Ok (), d')"
  then show "log_inv ops view xview cdc d' \<and> log_abs view cdc d' = log_abs view cdc d |` {k. k < li_index i}"
    using truncate_log_view [of ops view xview i d "Ok ()" d']
    by (simp add: log_inv_def log_abs_def table_abs_restrict rows_ok_restrict)
next
  fix d i x d' assume "log_inv ops view xview cdc d" "truncate_log ops i d = (Err x, d')"
  then show "log_inv ops view xview cdc d' \<and> log_abs view cdc d' = log_abs view cdc d"
    using truncate_log_view [of ops view xview i d "Err x" d'] by (simp add: log_inv_def log_abs_def)
next
  fix d i d' assume "log_inv ops view xview cdc d" "purge_log ops i d = (Ok (), d')"
  then show "log_inv ops view xview cdc d' \<and> log_abs view cdc d' = log_abs view cdc d |` {k. li_index i < k}"
    using purge_log_view [of ops view xview i d "Ok ()" d']
    by (simp add: log_inv_def log_abs_def table_abs_restrict rows_ok_restrict)
next
  fix d i x d' assume "log_inv ops view xview cdc d" "purge_log ops i d = (Err x, d')"
  then show "log_inv ops view xview cdc d' \<and> log_abs view cdc d' = log_abs view cdc d"
    using purge_log_view [of ops view xview i d "Err x" d'] by (simp add: log_inv_def log_abs_def)
qed (rule entries_lists)

section \<open>Properties\<close>

definition serializes :: "'a serde \<Rightarrow> 'a list \<Rightarrow> bool" where
  "serializes c as \<longleftrightarrow> list_all (\<lambda>a. \<not> is_err (ser c a)) as"

lemma insert_entries_reliable:
  "redb_reliable ops \<Longrightarrow> serializes (lc_entry cdc) es \<Longrightarrow> \<exists>x'. insert_entries ops cdc es x = Ok x'"
proof (induction es arbitrary: x)
  case (Cons e es)
  obtain b where "ser (lc_entry cdc) e = Ok b" using Cons.prems(2) by (auto simp: serializes_def not_is_err_iff)
  moreover obtain x1 where "tx_insert ops LOGS (entry_index e) b x = Ok x1"
    using redb_reliableD(9) [OF Cons.prems(1)] by blast
  ultimately show ?case using Cons.IH [of x1] Cons.prems by (simp add: serializes_def)
qed simp

lemma remove_keys_reliable: "redb_reliable ops \<Longrightarrow> \<exists>x'. remove_keys ops ks x = Ok x'"
proof (induction ks arbitrary: x)
  case (Cons k ks)
  obtain x1 where "tx_remove ops LOGS k x = Ok x1" using redb_reliableD(10) [OF Cons.prems] by blast
  then show ?case using Cons.IH [OF Cons.prems, of x1] by simp
qed simp

lemma row_keys_all: "row_keys er (map Inr rows) = Ok (map fst rows)"
  by (induction rows) auto

lemma log_append_reliable:
  assumes "redb_reliable ops" "serializes (lc_entry cdc) es"
  shows "\<exists>d'. log_append ops cdc es d = (Ok (), d')"
proof (cases "es = []")
  case False
  let ?w = "write_txn ops (io_error ''begin_write'' VerbWrite) (io_error ''commit LOGS'' VerbWrite)
      (\<lambda>x. rbind (map_err (io_error ''open_table LOGS'' VerbWrite) (write_table ops LOGS x))
        (insert_entries ops cdc es)) d"
  have "fst ?w = Ok ()"
  proof (rule write_txn_reliable [OF assms(1)])
    fix x
    obtain x1 where "write_table ops LOGS x = Ok x1" using redb_reliableD(6) [OF assms(1)] by blast
    then show "\<exists>x'. rbind (map_err (io_error ''open_table LOGS'' VerbWrite) (write_table ops LOGS x)) (insert_entries ops cdc es) = Ok x'"
      using insert_entries_reliable [OF assms, of x1] by simp
  qed
  with False show ?thesis by (cases ?w) (simp add: log_append_def append_entries_def)
qed (simp add: log_append_def append_entries_def)

lemma truncate_log_reliable:
  assumes "redb_reliable ops"
  shows "\<exists>d'. truncate_log ops l d = (Ok (), d')"
proof -
  have "fst (truncate_log ops l d) = Ok ()"
    unfolding truncate_log_def
  proof (rule write_txn_reliable [OF assms], goal_cases)
    case (1 x)
    obtain x1 where x1: "write_table ops LOGS x = Ok x1" using redb_reliableD(6) [OF assms] by blast
    obtain rows where rows: "tx_range ops LOGS (Included (li_index l)) Unbounded x1 = Ok (map Inr rows)"
      using redb_reliableD(7) [OF assms] by blast
    show ?case using x1 rows remove_keys_reliable [OF assms] by (simp add: row_keys_all)
  qed
  then show ?thesis by (cases "truncate_log ops l d") simp
qed

lemma list_all2_decode:
  "(\<And>b. b \<in> set bs \<Longrightarrow> \<exists>e. dec b = Ok e) \<Longrightarrow> \<exists>es. list_all2 (\<lambda>b a. dec b = Ok a) bs es"
proof (induction bs)
  case (Cons b bs)
  then obtain e es where "dec b = Ok e" "list_all2 (\<lambda>b a. dec b = Ok a) bs es" by (meson list.set_intros)
  then show ?case by (intro exI [of _ "e # es"]) simp
qed auto

lemma entries_reliable:
  assumes "log_inv ops view xview cdc d" "redb_reliable ops"
  shows "\<exists>es. try_get_log_entries ops cdc lo hi d = Ok es"
proof -
  have laws: "redb_laws ops view xview" "rows_ok (de (lc_entry cdc)) (view d LOGS)"
    using assms(1) by (simp_all add: log_inv_def)
  obtain rows where rows: "read_range ops LOGS lo hi d = Ok (map Inr rows)"
    using redb_reliableD(3) [OF assms(2)] by blast
  have ro: "rows_of (view d LOGS) lo hi rows" by (rule redb_lawsD(7) [OF laws(1) rows])
  have dec: "\<exists>e. de (lc_entry cdc) b = Ok e" if "b \<in> set (map snd rows)" for b
  proof -
    from that obtain k where "(k, b) \<in> set rows" by auto
    then have "view d LOGS k = Some b" using ro unfolding rows_of_def by blast
    then show ?thesis using laws(2) unfolding rows_ok_def by blast
  qed
  obtain es where "list_all2 (\<lambda>b a. de (lc_entry cdc) b = Ok a) (map snd rows) es"
    using list_all2_decode [where dec = "de (lc_entry cdc)" and bs = "map snd rows"] dec by blast
  then show ?thesis
    using rows by (simp add: try_get_log_entries_def read_txn_reliable [OF assms(2)] read_rows_all)
qed

text \<open>
  C7: Resolving a log conflict replaces the suffix of the log: on a database that works, truncating at
  an id and appending entries in order from its index on succeeds, and the log then reads as the old
  entries below that index followed by the new ones.
\<close>

theorem log_replace_suffix:
  assumes "log_inv ops view xview cdc d" "redb_reliable ops" "serializes (lc_entry cdc) es"
    "sorted_wrt (<) (map entry_index es)" "\<forall>e \<in> set es. li_index l \<le> entry_index e"
  shows "\<exists>d1 d2 old. truncate_log ops l d = (Ok (), d1) \<and> log_append ops cdc es d1 = (Ok (), d2) \<and>
    try_get_log_entries ops cdc Unbounded (Excluded (li_index l)) d = Ok old \<and>
    try_get_log_entries ops cdc Unbounded Unbounded d2 = Ok (old @ es)"
proof -
  obtain d1 where d1: "truncate_log ops l d = (Ok (), d1)" using truncate_log_reliable [OF assms(2)] by blast
  have i1: "log_inv ops view xview cdc d1" using store.truncate_ok [OF assms(1) d1] by blast
  obtain d2 where d2: "log_append ops cdc es d1 = (Ok (), d2)" using log_append_reliable [OF assms(2,3)] by blast
  have i2: "log_inv ops view xview cdc d2" using store.append_ok [OF i1 d2] by blast
  obtain old where old: "try_get_log_entries ops cdc Unbounded (Excluded (li_index l)) d = Ok old"
    using entries_reliable [OF assms(1,2)] by blast
  obtain new where new: "try_get_log_entries ops cdc Unbounded Unbounded d2 = Ok new"
    using entries_reliable [OF i2 assms(2)] by blast
  have "new = old @ es" by (rule store.replace_suffix [OF assms(1) d1 d2 assms(4,5) old new])
  then show ?thesis using d1 d2 old new by blast
qed

text \<open>\<open>to_le_bytes\<close> of a \<open>u64\<close>.\<close>

definition to_le64 :: "u64 \<Rightarrow> bytes" where
  "to_le64 w = map (\<lambda>i. ucast (drop_bit (8 * i) w)) [0..<8]"

text \<open>
  The documented binary layout: integers of fixed width, little-endian, in field order; an optional
  value is a tag byte and the value. Decoding ignores trailing bytes and fails on a short input.
\<close>

definition logid_bytes :: "LogId \<Rightarrow> bytes" where
  "logid_bytes l = to_le64 (li_term l) @ to_le64 (li_node l) @ to_le64 (li_index l)"

definition bincode_laws :: "('mem, 'v) log_codecs \<Rightarrow> bool" where
  "bincode_laws cdc \<longleftrightarrow>
     ser (lc_committed cdc) None = Ok [0] \<and>
     (\<forall>l. ser (lc_committed cdc) (Some l) = Ok (1 # logid_bytes l)) \<and>
     (\<forall>l r. de_logid cdc (logid_bytes l @ r) = Ok l) \<and>
     (\<forall>b. length b < 24 \<longrightarrow> is_err (de_logid cdc b))"

lemma length_to_le64 [simp]: "length (to_le64 w) = 8"
  by (simp add: to_le64_def)

lemma to_le64_shift:
  assumes "v < 256"
  shows "to_le64 (push_bit 8 w OR v) = ucast v # butlast (to_le64 w)"
proof -
  have v: "\<not> bit v n" if "8 \<le> n" for n
  proof -
    have "v = take_bit 8 v" using assms by (simp add: take_bit_eq_mod word_unat_eq_iff word_less_nat_alt unat_mod)
    then show ?thesis using that by (metis bit_take_bit_iff not_le)
  qed
  have byte: "(ucast (drop_bit (8 * i) (push_bit 8 w OR v)) :: u8) = (if i = 0 then ucast v else ucast (drop_bit (8 * (i - 1)) w))"
    if "i < 8" for i
    using that v by (intro bit_word_eqI) (auto simp: bit_simps algebra_simps)
  have "to_le64 (push_bit 8 w OR v) = map (\<lambda>i. if i = 0 then ucast v else ucast (drop_bit (8 * (i - 1)) w)) [0..<8]"
    unfolding to_le64_def by (intro map_cong refl byte) simp
  moreover have "[0..<8] = [0, 1, 2, 3, 4, 5, 6, 7 :: nat]" by (simp add: upt_rec)
  ultimately show ?thesis by (simp add: to_le64_def)
qed

lemma save_committed_view:
  assumes "redb_laws ops view xview" "save_committed ops cdc c d = (Ok (), d')"
  shows "\<exists>b. ser (lc_committed cdc) c = Ok b \<and> view d' COMMITTED SINGLE_ROW_KEY = Some b \<and> view d' LOGS = view d LOGS"
proof (cases "ser (lc_committed cdc) c")
  case (Inr b)
  with assms(2) have w: "write_txn ops (io_error ''begin_write'' VerbWrite) (io_error ''commit COMMITTED'' VerbWrite)
      (\<lambda>x. rbind (map_err (io_error ''open_table COMMITTED'' VerbWrite) (write_table ops COMMITTED x)) (\<lambda>x.
        map_err (io_error ''insert COMMITTED'' VerbWrite) (tx_insert ops COMMITTED SINGLE_ROW_KEY b x))) d = (Ok (), d')"
    by (simp add: save_committed_def)
  from assms(1) w show ?thesis
    by (rule write_txn_cases) (auto simp: Inr rbind_eq_Ok_iff redb_lawsD(2,3) [OF assms(1)] LOGS_def COMMITTED_def)
qed (use assms(2) in \<open>simp add: save_committed_def\<close>)

lemma to_le64_last: "to_le64 w = butlast (to_le64 w) @ [ucast (drop_bit 56 w)]"
  by (simp add: to_le64_def upt_rec)

lemma misread_bytes:
  "\<exists>p r. 1 # logid_bytes l = logid_bytes p @ r \<and> li_term p = push_bit 8 (li_term l) OR 1"
proof -
  define n where "n = (ucast (ucast (drop_bit 56 (li_term l)) :: u8) :: u64)"
  define i where "i = (ucast (ucast (drop_bit 56 (li_node l)) :: u8) :: u64)"
  let ?p = "\<lparr>li_term = push_bit 8 (li_term l) OR 1, li_node = push_bit 8 (li_node l) OR n, li_index = push_bit 8 (li_index l) OR i\<rparr>"
  have lt: "(ucast (b :: u8) :: u64) < 256" for b
    using unsigned_less [of b, where ?'a = nat] by (simp add: word_less_nat_alt unsigned_ucast_eq take_bit_eq_mod)
  have again: "(ucast (ucast (b :: u8) :: u64) :: u8) = b" for b
    by (rule bit_word_eqI) (simp add: bit_simps)
  have "1 # logid_bytes l = logid_bytes ?p @ [ucast (drop_bit 56 (li_index l))]"
    unfolding logid_bytes_def
    by (subst (1 2 3) to_le64_last) (simp add: to_le64_shift lt n_def i_def again)
  then show ?thesis by (intro exI [of _ ?p]) auto
qed

text \<open>
  The log state misreads the committed id: \<open>save_committed\<close> stores an optional log id, with its tag
  byte, and \<open>get_log_state\<close> decodes the row as a bare log id. After no id was committed the call fails;
  after an id was committed, the id it reports as purged has every field shifted by one byte, so its
  term is 256 times the committed term plus one.
\<close>

theorem log_state_misreads_committed:
  assumes "redb_laws ops view xview" "bincode_laws cdc" "save_committed ops cdc c d = (Ok (), d')"
  shows "case c of
      None \<Rightarrow> is_err (get_log_state ops cdc d')
    | Some l \<Rightarrow> (case get_log_state ops cdc d' of
          Inl _ \<Rightarrow> True
        | Inr s \<Rightarrow> (\<exists>p. last_purged_log_id s = Some p \<and> li_term p = push_bit 8 (li_term l) OR 1))"
proof -
  obtain b where b: "ser (lc_committed cdc) c = Ok b" "view d' COMMITTED SINGLE_ROW_KEY = Some b"
    using save_committed_view [OF assms(1,3)] by blast
  have row: "row = Some b" if "read_get ops COMMITTED SINGLE_ROW_KEY d' = Ok row" for row
    using redb_lawsD(9) [OF assms(1) that] b(2) by simp
  show ?thesis
  proof (cases c)
    case None
    then have "b = [0]" using b(1) assms(2) by (simp add: bincode_laws_def)
    then have "is_err (de_logid cdc b)" using assms(2) by (simp add: bincode_laws_def)
    then obtain e where "de_logid cdc b = Err e" by (cases "de_logid cdc b") simp_all
    then show ?thesis
      using None row by (cases "get_log_state ops cdc d'") (auto simp: get_log_state_def rbind_eq_Ok_iff Let_def)
  next
    case (Some l)
    then have eq: "b = 1 # logid_bytes l" using b(1) assms(2) by (simp add: bincode_laws_def)
    obtain p r where p: "1 # logid_bytes l = logid_bytes p @ r" "li_term p = push_bit 8 (li_term l) OR 1"
      using misread_bytes by blast
    have "de_logid cdc b = Ok p" using assms(2) unfolding eq p(1) by (simp add: bincode_laws_def)
    then show ?thesis
      using Some p(2) row by (auto simp: get_log_state_def rbind_eq_Ok_iff Let_def split: sum.splits)
  qed
qed

lemma save_vote_view:
  assumes "redb_laws ops view xview" "save_vote ops cdc v d = (Ok (), d')"
  shows "\<exists>b. ser (lc_vote cdc) v = Ok b \<and> view d' = (view d)(VOTE := (view d VOTE)(SINGLE_ROW_KEY \<mapsto> b))"
proof (cases "ser (lc_vote cdc) v")
  case (Inr b)
  with assms(2) have w: "write_txn ops (io_error ''begin_write'' VerbWrite) (io_error ''commit VOTE'' VerbWrite)
      (\<lambda>x. rbind (map_err (io_error ''open_table VOTE'' VerbWrite) (write_table ops VOTE x)) (\<lambda>x.
        map_err (io_error ''insert VOTE'' VerbWrite) (tx_insert ops VOTE SINGLE_ROW_KEY b x))) d = (Ok (), d')"
    by (simp add: save_vote_def)
  from assms(1) w show ?thesis
    by (rule write_txn_cases) (auto simp: Inr rbind_eq_Ok_iff redb_lawsD(2,3) [OF assms(1)])
qed (use assms(2) in \<open>simp add: save_vote_def\<close>)

text \<open>
  A saved vote is durable and does not touch the log: once \<open>save_vote\<close> has succeeded, the vote is
  what \<open>read_vote\<close> returns from the database, and the abstract log is the one before.
\<close>

theorem vote_durable:
  assumes "redb_laws ops view xview" "serde_laws (lc_vote cdc)" "save_vote ops cdc v d = (Ok (), d')"
    "redb_laws ops' view xview'" "redb_reliable ops'"
  shows "read_vote ops' cdc d' = Ok (Some v) \<and> log_abs view cdc d' = log_abs view cdc d"
proof -
  obtain b where b: "ser (lc_vote cdc) v = Ok b" "view d' = (view d)(VOTE := (view d VOTE)(SINGLE_ROW_KEY \<mapsto> b))"
    using save_vote_view [OF assms(1,3)] by blast
  obtain r where r: "read_get ops' VOTE SINGLE_ROW_KEY d' = Ok r" using redb_reliableD(4) [OF assms(5)] by blast
  then have "r = Some b" using redb_lawsD(9) [OF assms(4) r] b(2) by simp
  moreover have "de (lc_vote cdc) b = Ok v" using b(1) assms(2) by (simp add: serde_laws_def)
  moreover have "LOGS \<noteq> VOTE" by (simp add: LOGS_def VOTE_def)
  ultimately show ?thesis
    using r b(2) by (simp add: read_vote_def read_txn_reliable [OF assms(5)] log_abs_def)
qed

section \<open>Examples\<close>

text \<open>The documented layout as a codec; of the entries, only blank ones are encoded.\<close>

fun from_le64 :: "bytes \<Rightarrow> u64" where
  "from_le64 [a, b, c, d, e, f, g, h] = from_be64 h g f e d c b a"
| "from_le64 _ = 0"

definition demo_de_logid :: "bytes \<Rightarrow> string + LogId" where
  "demo_de_logid b =
     (if length b < 24 then Err ''unexpected end of file''
      else Ok \<lparr>li_term = from_le64 (take 8 b), li_node = from_le64 (take 8 (drop 8 b)),
               li_index = from_le64 (take 8 (drop 16 b))\<rparr>)"

definition demo_codecs :: "(unit, u8) log_codecs" where
  "demo_codecs =
     \<lparr>lc_entry = \<lparr>ser = (\<lambda>e. if e_payload e = Blank then Ok (logid_bytes (e_log_id e)) else Err ''payload''),
                  de = (\<lambda>b. rbind (demo_de_logid b) (\<lambda>l. Ok \<lparr>e_log_id = l, e_payload = Blank\<rparr>))\<rparr>,
      lc_vote = \<lparr>ser = (\<lambda>v. Ok [v]), de = (\<lambda>b. case b of [v] \<Rightarrow> Ok v | _ \<Rightarrow> Err ''vote'')\<rparr>,
      lc_committed = \<lparr>ser = (\<lambda>c. case c of None \<Rightarrow> Ok [0] | Some l \<Rightarrow> Ok (1 # logid_bytes l)),
                      de = (\<lambda>b. if b = [0] then Ok None else map_err id (rbind (demo_de_logid (tl b)) (\<lambda>l. Ok (Some l))))\<rparr>,
      de_logid = demo_de_logid\<rparr>"

lemma to_le64_rev: "to_le64 w = rev (to_be64 w)"
proof -
  have "[0..<8] = [0, 1, 2, 3, 4, 5, 6, 7 :: nat]" by (simp add: upt_rec)
  then show ?thesis
    by (simp add: to_le64_def to_be64_def to_be32_def)
      (intro conjI bit_word_eqI; simp add: bit_simps)
qed

lemma from_to_le64: "from_le64 (to_le64 w) = w"
proof -
  obtain a b c d e f g h where "to_be64 w = [a, b, c, d, e, f, g, h]" "from_be64 a b c d e f g h = w"
    by (rule to_be64_ex)
  then show ?thesis by (simp add: to_le64_rev)
qed

lemma demo_de_logid_bytes: "demo_de_logid (logid_bytes l @ r) = Ok l"
  by (simp add: demo_de_logid_def logid_bytes_def from_to_le64)

lemma demo_codecs_laws:
  "serde_laws (lc_entry demo_codecs)" "serde_laws (lc_vote demo_codecs)" "bincode_laws demo_codecs"
proof -
  show "serde_laws (lc_entry demo_codecs)"
    using demo_de_logid_bytes [where r = "[]"] by (auto simp: serde_laws_def demo_codecs_def)
  show "serde_laws (lc_vote demo_codecs)" by (auto simp: serde_laws_def demo_codecs_def)
  show "bincode_laws demo_codecs"
    using demo_de_logid_bytes by (simp add: bincode_laws_def demo_codecs_def demo_de_logid_def)
qed

definition demo_entry :: "u64 \<Rightarrow> unit Entry" where
  "demo_entry i = \<lparr>e_log_id = \<lparr>li_term = 1, li_node = 1, li_index = i\<rparr>, e_payload = Blank\<rparr>"

lemma demo_entry_index [simp]: "entry_index (demo_entry i) = i"
  by (simp add: demo_entry_def entry_index_def)

definition demo_log :: memdb where
  "demo_log = (\<lambda>n. if n = LOGS then map (\<lambda>i. (i, logid_bytes (e_log_id (demo_entry i)))) [1, 2, 3] else [])"

lemma demo_log_inv: "log_inv memdb_ops memdb_view memdb_view demo_codecs demo_log"
  using memdb_laws demo_codecs_laws(1) demo_de_logid_bytes [where r = "[]"]
  by (auto simp: log_inv_def rows_ok_def memdb_view_def demo_log_def demo_codecs_def demo_entry_def entry_index_def
      split: if_splits)

theorem log_replace_suffix_witness:
  "\<exists>d1 d2 old. truncate_log memdb_ops \<lparr>li_term = 1, li_node = 1, li_index = 2\<rparr> demo_log = (Ok (), d1) \<and>
    log_append memdb_ops demo_codecs [demo_entry 2, demo_entry 3, demo_entry 4] d1 = (Ok (), d2) \<and>
    try_get_log_entries memdb_ops demo_codecs Unbounded (Excluded 2) demo_log = Ok old \<and>
    try_get_log_entries memdb_ops demo_codecs Unbounded Unbounded d2 =
      Ok (old @ [demo_entry 2, demo_entry 3, demo_entry 4])"
  using log_replace_suffix [OF demo_log_inv memdb_reliable, of "[demo_entry 2, demo_entry 3, demo_entry 4]"
      "\<lparr>li_term = 1, li_node = 1, li_index = 2\<rparr>"]
  by (simp add: serializes_def demo_codecs_def demo_entry_def [THEN arg_cong [where f = e_payload]])

theorem log_state_misreads_committed_witness:
  "\<exists>d' s p. save_committed memdb_ops demo_codecs (Some \<lparr>li_term = 1, li_node = 0, li_index = 5\<rparr>) (\<lambda>_. []) = (Ok (), d') \<and>
     get_log_state memdb_ops demo_codecs d' = Ok s \<and> last_purged_log_id s = Some p \<and> li_term p = 257"
proof -
  let ?l = "\<lparr>li_term = 1, li_node = 0, li_index = 5\<rparr>" and ?d = "(\<lambda>_. []) :: memdb"
  obtain d' where d': "save_committed memdb_ops demo_codecs (Some ?l) ?d = (Ok (), d')" and
    e: "d' = (\<lambda>_. [])(COMMITTED := [(SINGLE_ROW_KEY, 1 # logid_bytes ?l)])"
    by (simp add: save_committed_def write_txn_def memdb_ops_def demo_codecs_def)
  obtain s where "get_log_state memdb_ops demo_codecs d' = Ok s"
    by (simp add: e get_log_state_def read_txn_def memdb_ops_def demo_codecs_def select_rows_def LOGS_def COMMITTED_def
        demo_de_logid_def logid_bytes_def Let_def)
  with log_state_misreads_committed [OF memdb_laws demo_codecs_laws(3) d'] d' show ?thesis by auto
qed

theorem vote_durable_witness:
  "\<exists>d'. save_vote memdb_ops demo_codecs 7 demo_log = (Ok (), d') \<and>
     read_vote memdb_ops demo_codecs d' = Ok (Some 7) \<and>
     log_abs memdb_view demo_codecs d' = log_abs memdb_view demo_codecs demo_log"
proof -
  obtain d' where d': "save_vote memdb_ops demo_codecs 7 demo_log = (Ok (), d')"
    by (simp add: save_vote_def write_txn_def memdb_ops_def demo_codecs_def)
  from vote_durable [OF memdb_laws demo_codecs_laws(2) this memdb_laws memdb_reliable] d' show ?thesis by blast
qed

end
