(* ===== verification/Raft_State_Machine.thy ===== *)
theory Raft_State_Machine
  imports Raft_Types
begin

text \<open>
  The replicated store's state machine (\<open>session-store/src/raft_state_machine.rs\<close>): the applied
  topology, the last applied log id and membership and the mutation counter in one row of a database,
  the current snapshot in another. The codecs are parameters with round-trip laws.
\<close>

section \<open>Data\<close>

record 'mem StoredMembership =
  sm_log_id :: "LogId option"
  sm_membership :: 'mem

record 'mem PersistedState =
  topology :: TopologySnapshot
  last_applied :: "LogId option"
  last_membership :: "'mem StoredMembership"
  next_mutation_id :: u64

record 'mem SnapshotMeta =
  meta_last_log_id :: "LogId option"
  meta_last_membership :: "'mem StoredMembership"
  snapshot_id :: string

record 'mem PersistedSnapshot =
  snap_meta :: "'mem SnapshotMeta"
  snap_payload :: bytes

record 'mem sm_codecs =
  sc_state :: "'mem PersistedState serde"
  sc_snapshot :: "'mem PersistedSnapshot serde"
  sc_topology :: "TopologySnapshot serde"

definition STATE :: string where "STATE = ''raft_sm_state''"
definition SNAPSHOT :: string where "SNAPSHOT = ''raft_sm_snapshot''"

text \<open>\<open>PersistedState::default\<close>; \<open>m0\<close> is the default membership.\<close>

definition PersistedState_default :: "'mem \<Rightarrow> 'mem PersistedState" where
  "PersistedState_default m0 =
     \<lparr>topology = topology_empty, last_applied = None,
      last_membership = \<lparr>sm_log_id = None, sm_membership = m0\<rparr>, next_mutation_id = 0\<rparr>"

section \<open>Rows\<close>

definition StateMachine_open ::
  "('d, 'x) redb_ops \<Rightarrow> 'mem sm_codecs \<Rightarrow> 'mem \<Rightarrow> string + 'd \<Rightarrow> StorageError + 'd" where
  "StateMachine_open ops cdc m0 created =
     rbind (map_err (io_error ''open redb'' VerbWrite) created) (\<lambda>d.
     let (r, d) =
       write_txn ops (io_error ''begin_write table init'' VerbWrite) (io_error ''commit table init'' VerbWrite)
         (\<lambda>x. rbind (map_err (io_error ''open STATE'' VerbWrite) (write_table ops STATE x)) (\<lambda>x.
              rbind (map_err (io_error ''get STATE'' VerbRead) (tx_get ops STATE 0 x)) (\<lambda>row.
              rbind (case row of
                       None \<Rightarrow>
                         rbind (map_err (io_error ''serialize init state'' VerbWrite)
                                  (ser (sc_state cdc) (PersistedState_default m0))) (\<lambda>b.
                         map_err (io_error ''insert init STATE'' VerbWrite) (tx_insert ops STATE 0 b x))
                     | Some _ \<Rightarrow> Ok x) (\<lambda>x.
              map_err (io_error ''open SNAPSHOT'' VerbWrite) (write_table ops SNAPSHOT x))))) d
     in rbind r (\<lambda>_. Ok d))"

definition read_state :: "('d, 'x) redb_ops \<Rightarrow> 'mem sm_codecs \<Rightarrow> 'd \<Rightarrow> StorageError + 'mem PersistedState" where
  "read_state ops cdc d =
     rbind (read_txn ops (io_error ''begin_read STATE'' VerbRead) (io_error ''open_table STATE'' VerbRead) STATE d) (\<lambda>_.
     rbind (map_err (io_error ''get STATE'' VerbRead) (read_get ops STATE 0 d)) (\<lambda>row.
     rbind (ok_or (io_error ''STATE row missing'' VerbRead ''STATE row missing'') row) (\<lambda>b.
     map_err (io_error ''deserialize STATE'' VerbRead) (de (sc_state cdc) b))))"

definition write_state ::
  "('d, 'x) redb_ops \<Rightarrow> 'mem sm_codecs \<Rightarrow> 'mem PersistedState \<Rightarrow> 'd \<Rightarrow> (StorageError + unit) \<times> 'd" where
  "write_state ops cdc st d =
     (case ser (sc_state cdc) st of
        Inl e \<Rightarrow> (Err (io_error ''serialize STATE'' VerbWrite e), d)
      | Inr b \<Rightarrow>
          write_txn ops (io_error ''begin_write STATE'' VerbWrite) (io_error ''commit STATE'' VerbWrite)
            (\<lambda>x. rbind (map_err (io_error ''open_table STATE'' VerbWrite) (write_table ops STATE x)) (\<lambda>x.
                 map_err (io_error ''insert STATE'' VerbWrite) (tx_insert ops STATE 0 b x))) d)"

definition read_snapshot ::
  "('d, 'x) redb_ops \<Rightarrow> 'mem sm_codecs \<Rightarrow> 'd \<Rightarrow> StorageError + 'mem PersistedSnapshot option" where
  "read_snapshot ops cdc d =
     rbind (read_txn ops (io_error ''begin_read SNAPSHOT'' VerbRead) (io_error ''open_table SNAPSHOT'' VerbRead) SNAPSHOT d) (\<lambda>_.
     rbind (map_err (io_error ''get SNAPSHOT'' VerbRead) (read_get ops SNAPSHOT 0 d)) (\<lambda>row.
     case row of
       None \<Rightarrow> Ok None
     | Some b \<Rightarrow>
         rbind (map_err (io_error ''deserialize SNAPSHOT'' VerbRead) (de (sc_snapshot cdc) b)) (\<lambda>s. Ok (Some s))))"

definition write_snapshot ::
  "('d, 'x) redb_ops \<Rightarrow> 'mem sm_codecs \<Rightarrow> 'mem PersistedSnapshot \<Rightarrow> 'd \<Rightarrow> (StorageError + unit) \<times> 'd" where
  "write_snapshot ops cdc snap d =
     (case ser (sc_snapshot cdc) snap of
        Inl e \<Rightarrow> (Err (io_error ''serialize SNAPSHOT'' VerbWrite e), d)
      | Inr b \<Rightarrow>
          write_txn ops (io_error ''begin_write SNAPSHOT'' VerbWrite) (io_error ''commit SNAPSHOT'' VerbWrite)
            (\<lambda>x. rbind (map_err (io_error ''open_table SNAPSHOT'' VerbWrite) (write_table ops SNAPSHOT x)) (\<lambda>x.
                 map_err (io_error ''insert SNAPSHOT'' VerbWrite) (tx_insert ops SNAPSHOT 0 b x))) d)"

definition reader_topology ::
  "('d, 'x) redb_ops \<Rightarrow> 'mem sm_codecs \<Rightarrow> 'd \<Rightarrow> StorageError + TopologySnapshot" where
  "reader_topology ops cdc d =
     rbind (read_txn ops (io_error ''begin_read reader'' VerbRead) (io_error ''open_table STATE reader'' VerbRead) STATE d) (\<lambda>_.
     rbind (map_err (io_error ''get STATE reader'' VerbRead) (read_get ops STATE 0 d)) (\<lambda>row.
     case row of
       None \<Rightarrow> Ok topology_empty
     | Some b \<Rightarrow>
         rbind (map_err (io_error ''deserialize STATE reader'' VerbRead) (de (sc_state cdc) b)) (\<lambda>st. Ok (topology st))))"

section \<open>Applying entries\<close>

definition applied_state where
  "applied_state ops cdc d = rbind (read_state ops cdc d) (\<lambda>st. Ok (last_applied st, last_membership st))"

definition apply_entry ::
  "(TopologySnapshot \<Rightarrow> Mutation \<Rightarrow> TopologySnapshot) \<Rightarrow> 'mem Entry \<Rightarrow> 'mem PersistedState
   \<Rightarrow> ClientWriteResponse \<times> 'mem PersistedState" where
  "apply_entry app entry st =
     (let st = st\<lparr>last_applied := Some (e_log_id entry)\<rparr>
      in case e_payload entry of
           Blank \<Rightarrow> (ClientWriteResponse_default, st)
         | Normal m \<Rightarrow>
             (\<lparr>mutation_id = next_mutation_id st\<rparr>,
              st\<lparr>next_mutation_id := next_mutation_id st + 1, topology := app (topology st) m\<rparr>)
         | Membership mem \<Rightarrow>
             (ClientWriteResponse_default,
              st\<lparr>last_membership := \<lparr>sm_log_id = Some (e_log_id entry), sm_membership = mem\<rparr>\<rparr>))"

primrec apply_entries ::
  "(TopologySnapshot \<Rightarrow> Mutation \<Rightarrow> TopologySnapshot) \<Rightarrow> 'mem Entry list \<Rightarrow> 'mem PersistedState
   \<Rightarrow> ClientWriteResponse list \<times> 'mem PersistedState" where
  "apply_entries app [] st = ([], st)"
| "apply_entries app (e # es) st =
     (let (r, st) = apply_entry app e st; (rs, st) = apply_entries app es st in (r # rs, st))"

definition StateMachine_apply ::
  "('d, 'x) redb_ops \<Rightarrow> 'mem sm_codecs \<Rightarrow> (TopologySnapshot \<Rightarrow> Mutation \<Rightarrow> TopologySnapshot) \<Rightarrow> 'mem Entry list
   \<Rightarrow> 'd \<Rightarrow> (StorageError + ClientWriteResponse list) \<times> 'd" where
  "StateMachine_apply ops cdc app es d =
     (case read_state ops cdc d of
        Inl e \<Rightarrow> (Err e, d)
      | Inr st \<Rightarrow>
          let (rs, st) = apply_entries app es st;
              (r, d) = write_state ops cdc st d
          in (rbind r (\<lambda>_. Ok rs), d))"

section \<open>Snapshots\<close>

definition install_snapshot ::
  "('d, 'x) redb_ops \<Rightarrow> 'mem sm_codecs \<Rightarrow> 'mem SnapshotMeta \<Rightarrow> bytes \<Rightarrow> 'd \<Rightarrow> (StorageError + unit) \<times> 'd" where
  "install_snapshot ops cdc meta snap d =
     (case de (sc_topology cdc) snap of
        Inl e \<Rightarrow> (Err (io_error ''deserialize install payload'' VerbRead e), d)
      | Inr topo \<Rightarrow>
          let st = \<lparr>topology = topo, last_applied = meta_last_log_id meta,
                    last_membership = meta_last_membership meta, next_mutation_id = 0\<rparr>
          in case write_state ops cdc st d of
               (Inl e, d) \<Rightarrow> (Err e, d)
             | (Inr _, d) \<Rightarrow> write_snapshot ops cdc \<lparr>snap_meta = meta, snap_payload = snap\<rparr> d)"

definition get_current_snapshot ::
  "('d, 'x) redb_ops \<Rightarrow> 'mem sm_codecs \<Rightarrow> 'd \<Rightarrow> StorageError + ('mem SnapshotMeta \<times> bytes) option" where
  "get_current_snapshot ops cdc d =
     rbind (read_snapshot ops cdc d) (\<lambda>snap.
     Ok (case snap of None \<Rightarrow> None | Some p \<Rightarrow> Some (snap_meta p, snap_payload p)))"

text \<open>
  The builder reads under the database lock, releases it, and takes it again to store the snapshot:
  \<open>build_snapshot_read\<close> and \<open>build_snapshot_store\<close> are the two critical sections, between which the
  state machine may apply further entries.
\<close>

definition build_snapshot_read ::
  "('d, 'x) redb_ops \<Rightarrow> 'mem sm_codecs \<Rightarrow> 'd \<Rightarrow> StorageError + 'mem PersistedState" where
  "build_snapshot_read ops cdc d =
     rbind (read_txn ops (io_error ''begin_read build_snapshot'' VerbRead) (io_error ''open_table STATE'' VerbRead) STATE d) (\<lambda>_.
     rbind (map_err (io_error ''get STATE'' VerbRead) (read_get ops STATE 0 d)) (\<lambda>row.
     rbind (ok_or (io_error ''STATE missing'' VerbRead ''STATE row missing'') row) (\<lambda>b.
     map_err (io_error ''deserialize STATE'' VerbRead) (de (sc_state cdc) b))))"

definition build_snapshot_store ::
  "('d, 'x) redb_ops \<Rightarrow> 'mem sm_codecs \<Rightarrow> 'mem PersistedState \<Rightarrow> 'd
   \<Rightarrow> (StorageError + 'mem SnapshotMeta \<times> bytes) \<times> 'd" where
  "build_snapshot_store ops cdc st d =
     (case ser (sc_topology cdc) (topology st) of
        Inl e \<Rightarrow> (Err (io_error ''serialize topology'' VerbWrite e), d)
      | Inr p \<Rightarrow>
          let meta = \<lparr>meta_last_log_id = last_applied st, meta_last_membership = last_membership st,
                      snapshot_id = show_word (case last_applied st of Some l \<Rightarrow> li_index l | None \<Rightarrow> 0)
                        @ ''-'' @ show_nat (length p)\<rparr>;
              (r, d) = write_snapshot ops cdc \<lparr>snap_meta = meta, snap_payload = p\<rparr> d
          in (rbind r (\<lambda>_. Ok (meta, p)), d))"

definition build_snapshot ::
  "('d, 'x) redb_ops \<Rightarrow> 'mem sm_codecs \<Rightarrow> 'd \<Rightarrow> (StorageError + 'mem SnapshotMeta \<times> bytes) \<times> 'd" where
  "build_snapshot ops cdc d =
     (case build_snapshot_read ops cdc d of
        Inl e \<Rightarrow> (Err e, d)
      | Inr st \<Rightarrow> build_snapshot_store ops cdc st d)"

section \<open>The row of the state\<close>

definition holds :: "('d \<Rightarrow> tables) \<Rightarrow> 'mem sm_codecs \<Rightarrow> 'd \<Rightarrow> 'mem PersistedState \<Rightarrow> bool" where
  "holds view cdc d st \<longleftrightarrow> (\<exists>b. view d STATE 0 = Some b \<and> de (sc_state cdc) b = Ok st)"

lemma holds_unique: "holds view cdc d st \<Longrightarrow> holds view cdc d st' \<Longrightarrow> st = st'"
  by (auto simp: holds_def)

lemma read_state_holds:
  assumes "redb_laws ops view xview" "read_state ops cdc d = Ok st"
  shows "holds view cdc d st"
  using assms(2) redb_lawsD(9) [OF assms(1)] by (auto simp: read_state_def rbind_eq_Ok_iff holds_def)

lemma write_state_view:
  assumes "redb_laws ops view xview" "write_state ops cdc st d = (r, d')"
  shows "if is_err r then view d' = view d
    else \<exists>b. ser (sc_state cdc) st = Ok b \<and> view d' = (view d)(STATE := (view d STATE)(0 \<mapsto> b))"
proof (cases "ser (sc_state cdc) st")
  case (Inr b)
  with assms(2) have w: "write_txn ops (io_error ''begin_write STATE'' VerbWrite) (io_error ''commit STATE'' VerbWrite)
      (\<lambda>x. rbind (map_err (io_error ''open_table STATE'' VerbWrite) (write_table ops STATE x)) (\<lambda>x.
        map_err (io_error ''insert STATE'' VerbWrite) (tx_insert ops STATE 0 b x))) d = (r, d')"
    by (simp add: write_state_def)
  from assms(1) w show ?thesis
    by (rule write_txn_cases) (auto simp: Inr rbind_eq_Ok_iff redb_lawsD(2,3) [OF assms(1)])
qed (use assms(2) in \<open>auto simp: write_state_def\<close>)

lemma write_state_holds:
  assumes "redb_laws ops view xview" "serde_laws (sc_state cdc)" "write_state ops cdc st d = (Ok (), d')"
  shows "holds view cdc d' st"
  using write_state_view [OF assms(1,3)] assms(2) by (auto simp: holds_def serde_laws_def)

lemma write_snapshot_view:
  assumes "redb_laws ops view xview" "write_snapshot ops cdc snap d = (r, d')"
  shows "if is_err r then view d' = view d
    else \<exists>b. ser (sc_snapshot cdc) snap = Ok b \<and> view d' = (view d)(SNAPSHOT := (view d SNAPSHOT)(0 \<mapsto> b))"
proof (cases "ser (sc_snapshot cdc) snap")
  case (Inr b)
  with assms(2) have w: "write_txn ops (io_error ''begin_write SNAPSHOT'' VerbWrite) (io_error ''commit SNAPSHOT'' VerbWrite)
      (\<lambda>x. rbind (map_err (io_error ''open_table SNAPSHOT'' VerbWrite) (write_table ops SNAPSHOT x)) (\<lambda>x.
        map_err (io_error ''insert SNAPSHOT'' VerbWrite) (tx_insert ops SNAPSHOT 0 b x))) d = (r, d')"
    by (simp add: write_snapshot_def)
  from assms(1) w show ?thesis
    by (rule write_txn_cases) (auto simp: Inr rbind_eq_Ok_iff redb_lawsD(2,3) [OF assms(1)])
qed (use assms(2) in \<open>auto simp: write_snapshot_def\<close>)

lemma STATE_SNAPSHOT [simp]: "STATE \<noteq> SNAPSHOT" "SNAPSHOT \<noteq> STATE"
  by (simp_all add: STATE_def SNAPSHOT_def)

lemma build_snapshot_read_holds:
  assumes "redb_laws ops view xview" "build_snapshot_read ops cdc d = Ok st"
  shows "holds view cdc d st"
  using assms(2) redb_lawsD(9) [OF assms(1)] by (auto simp: build_snapshot_read_def rbind_eq_Ok_iff holds_def)

lemma reader_topology_holds:
  assumes "redb_laws ops view xview" "holds view cdc d st" "reader_topology ops cdc d = Ok t"
  shows "t = topology st"
  using assms(2,3) redb_lawsD(9) [OF assms(1)]
  by (auto simp: reader_topology_def rbind_eq_Ok_iff holds_def split: option.splits)

section \<open>What a sequence of applied entries does\<close>

definition mutations_of :: "'mem Entry list \<Rightarrow> Mutation list" where
  "mutations_of es = concat (map (\<lambda>e. case e_payload e of Normal m \<Rightarrow> [m] | _ \<Rightarrow> []) es)"

lemma apply_entries_append:
  "apply_entries app (es @ fs) st =
     (let (rs, st) = apply_entries app es st; (rs', st) = apply_entries app fs st in (rs @ rs', st))"
  by (induction es arbitrary: st) (auto split: prod.splits)

lemma apply_entries_topology:
  "topology (snd (apply_entries app es st)) = foldl app (topology st) (mutations_of es)"
proof (induction es arbitrary: st)
  case (Cons e es)
  then show ?case
    by (cases "e_payload e") (simp_all add: mutations_of_def apply_entry_def Let_def split_beta)
qed (simp add: mutations_of_def)

lemma length_apply_entries: "length (fst (apply_entries app es st)) = length es"
  by (induction es arbitrary: st) (simp_all add: Let_def split_beta)

text \<open>Two states that differ in the mutation counter only stay so.\<close>

definition same_but_counter :: "'mem PersistedState \<Rightarrow> 'mem PersistedState \<Rightarrow> bool" where
  "same_but_counter s t \<longleftrightarrow>
     topology s = topology t \<and> last_applied s = last_applied t \<and> last_membership s = last_membership t"

lemma same_but_counter_apply:
  "same_but_counter s t \<Longrightarrow> same_but_counter (snd (apply_entries app es s)) (snd (apply_entries app es t))"
proof (induction es arbitrary: s t)
  case (Cons e es)
  have "same_but_counter (snd (apply_entry app e s)) (snd (apply_entry app e t))"
    using Cons.prems by (cases "e_payload e") (auto simp: same_but_counter_def apply_entry_def)
  from Cons.IH [OF this] show ?case by (simp add: split_beta Let_def)
qed simp

lemma StateMachine_apply_Ok:
  assumes "redb_laws ops view xview" "serde_laws (sc_state cdc)" "holds view cdc d st"
    "StateMachine_apply ops cdc app es d = (Ok rs, d')"
  shows "rs = fst (apply_entries app es st)" "holds view cdc d' (snd (apply_entries app es st))"
proof -
  obtain st0 where r: "read_state ops cdc d = Ok st0"
  proof (cases "read_state ops cdc d")
    case (Inl e)
    with assms(4) show ?thesis by (simp add: StateMachine_apply_def)
  qed
  then have "st0 = st" by (rule holds_unique [OF read_state_holds [OF assms(1)] assms(3)])
  with r have "rbind (fst (write_state ops cdc (snd (apply_entries app es st)) d)) (\<lambda>_. Ok (fst (apply_entries app es st))) = Ok rs"
    and d': "d' = snd (write_state ops cdc (snd (apply_entries app es st)) d)"
    using assms(4) by (simp_all add: StateMachine_apply_def split_beta Let_def)
  then have "rs = fst (apply_entries app es st)"
    and "fst (write_state ops cdc (snd (apply_entries app es st)) d) = Ok ()"
    by (simp_all add: rbind_eq_Ok_iff)
  moreover from this d' have w: "write_state ops cdc (snd (apply_entries app es st)) d = (Ok (), d')"
    by (simp add: prod_eq_iff)
  ultimately have "rs = fst (apply_entries app es st)" by simp
  then show "rs = fst (apply_entries app es st)" by simp
  show "holds view cdc d' (snd (apply_entries app es st))" by (rule write_state_holds [OF assms(1,2) w])
qed

text \<open>An apply that reports an error has left the database as it was.\<close>

lemma StateMachine_apply_Err:
  assumes "redb_laws ops view xview" "StateMachine_apply ops cdc app es d = (Err e, d')"
  shows "view d' = view d"
proof (cases "read_state ops cdc d")
  case (Inr st)
  obtain r where r: "write_state ops cdc (snd (apply_entries app es st)) d = (r, d')"
    and "rbind r (\<lambda>_. Ok (fst (apply_entries app es st))) = Err e"
    using assms(2) Inr by (simp add: StateMachine_apply_def split_beta Let_def prod_eq_iff)
  then have "is_err r" by (cases r) simp_all
  with write_state_view [OF assms(1) r] show ?thesis by simp
qed (use assms(2) in \<open>simp add: StateMachine_apply_def\<close>)

text \<open>The Raft core hands the committed entries over in batches.\<close>

primrec apply_batches ::
  "('d, 'x) redb_ops \<Rightarrow> 'mem sm_codecs \<Rightarrow> (TopologySnapshot \<Rightarrow> Mutation \<Rightarrow> TopologySnapshot) \<Rightarrow> 'mem Entry list list
   \<Rightarrow> 'd \<Rightarrow> (StorageError + ClientWriteResponse list) \<times> 'd" where
  "apply_batches ops cdc app [] d = (Ok [], d)"
| "apply_batches ops cdc app (b # bs) d =
     (case StateMachine_apply ops cdc app b d of
        (Inl e, d) \<Rightarrow> (Err e, d)
      | (Inr rs, d) \<Rightarrow> (let (r, d) = apply_batches ops cdc app bs d in (rbind r (\<lambda>rs'. Ok (rs @ rs')), d)))"

lemma apply_batches_Ok:
  assumes "redb_laws ops view xview" "serde_laws (sc_state cdc)"
  shows "holds view cdc d st \<Longrightarrow> apply_batches ops cdc app bs d = (Ok rs, d') \<Longrightarrow>
    rs = fst (apply_entries app (concat bs) st) \<and> holds view cdc d' (snd (apply_entries app (concat bs) st))"
proof (induction bs arbitrary: d st rs)
  case (Cons b bs)
  then obtain rs1 d1 rs2 where a: "StateMachine_apply ops cdc app b d = (Ok rs1, d1)"
    and "apply_batches ops cdc app bs d1 = (Ok rs2, d')" "rs = rs1 @ rs2"
    by (auto simp: Let_def rbind_eq_Ok_iff split: prod.splits sum.splits)
  with StateMachine_apply_Ok [OF assms Cons.prems(1) a] Cons.IH
  show ?case by (simp add: apply_entries_append split_beta Let_def)
qed simp

lemma build_snapshot_store_Ok:
  assumes "build_snapshot_store ops cdc st d = (Ok (meta, p), d')"
  shows "ser (sc_topology cdc) (topology st) = Ok p" "meta_last_log_id meta = last_applied st"
    "meta_last_membership meta = last_membership st"
    "write_snapshot ops cdc \<lparr>snap_meta = meta, snap_payload = p\<rparr> d = (Ok (), d')"
proof -
  obtain q where q: "ser (sc_topology cdc) (topology st) = Ok q"
  proof (cases "ser (sc_topology cdc) (topology st)")
    case (Inl e)
    with assms show ?thesis by (simp add: build_snapshot_store_def)
  qed
  with assms show "ser (sc_topology cdc) (topology st) = Ok p" "meta_last_log_id meta = last_applied st"
    "meta_last_membership meta = last_membership st"
    "write_snapshot ops cdc \<lparr>snap_meta = meta, snap_payload = p\<rparr> d = (Ok (), d')"
    by (auto simp: build_snapshot_store_def Let_def split_beta rbind_eq_Ok_iff prod_eq_iff)
qed

lemma install_snapshot_Ok:
  assumes "redb_laws ops view xview" "serde_laws (sc_state cdc)" "install_snapshot ops cdc meta p d = (Ok (), d')"
    "de (sc_topology cdc) p = Ok topo"
  shows "holds view cdc d' \<lparr>topology = topo, last_applied = meta_last_log_id meta,
      last_membership = meta_last_membership meta, next_mutation_id = 0\<rparr>"
proof -
  let ?st = "\<lparr>topology = topo, last_applied = meta_last_log_id meta,
      last_membership = meta_last_membership meta, next_mutation_id = 0\<rparr>"
  obtain r d1 where r: "write_state ops cdc ?st d = (r, d1)" by (cases "write_state ops cdc ?st d")
  obtain w: "write_state ops cdc ?st d = (Ok (), d1)"
    and s: "write_snapshot ops cdc \<lparr>snap_meta = meta, snap_payload = p\<rparr> d1 = (Ok (), d')"
  proof (cases r)
    case (Inl e)
    with assms(3,4) r show ?thesis by (simp add: install_snapshot_def)
  next
    case (Inr u)
    with assms(3,4) r that show ?thesis by (simp add: install_snapshot_def)
  qed
  have "view d' STATE = view d1 STATE" using write_snapshot_view [OF assms(1) s] by auto
  with write_state_holds [OF assms(1,2) w] show ?thesis by (simp add: holds_def)
qed

text \<open>
  C14: replicas agree. Two replicas, each on its own database, that start from the same persisted state
  and are handed the same committed entries, batched in any way, give the same responses, and the topology
  either of them then serves to its readers is the starting topology with the entries' mutations applied
  in log order.\<close>

theorem replicas_agree:
  assumes "redb_laws ops1 view1 xview1" "redb_laws ops2 view2 xview2" "serde_laws (sc_state cdc)"
    "holds view1 cdc d1 st" "holds view2 cdc d2 st" "concat bs = concat cs"
    "apply_batches ops1 cdc app bs d1 = (Ok rs1, e1)" "apply_batches ops2 cdc app cs d2 = (Ok rs2, e2)"
    "reader_topology ops1 cdc e1 = Ok t1" "reader_topology ops2 cdc e2 = Ok t2"
  shows "rs1 = rs2 \<and> t1 = foldl app (topology st) (mutations_of (concat bs)) \<and> t2 = t1"
proof -
  note a = apply_batches_Ok [OF assms(1,3,4,7)] and b = apply_batches_Ok [OF assms(2,3,5,8)]
  have "t1 = topology (snd (apply_entries app (concat bs) st))"
    by (rule reader_topology_holds [OF assms(1) conjunct2 [OF a] assms(9)])
  moreover have "t2 = topology (snd (apply_entries app (concat cs) st))"
    by (rule reader_topology_holds [OF assms(2) conjunct2 [OF b] assms(10)])
  ultimately show ?thesis using a b assms(6) by (simp add: apply_entries_topology)
qed


text \<open>
  The counter does not follow: the first mutation applied after an install is answered with id 0, whatever
  ids the replica, or the one that built the snapshot, has already given out.\<close>

theorem install_restarts_ids:
  assumes "redb_laws ops view xview" "serde_laws (sc_state cdc)" "de (sc_topology cdc) p = Ok topo"
    "install_snapshot ops cdc meta p d = (Ok (), d1)" "e_payload entry = Normal m"
    "StateMachine_apply ops cdc app [entry] d1 = (Ok rs, d2)"
  shows "rs = [\<lparr>mutation_id = 0\<rparr>]"
  using StateMachine_apply_Ok(1) [OF assms(1,2) install_snapshot_Ok [OF assms(1,2,4,3)] assms(6)] assms(5)
  by (simp add: apply_entry_def)

text \<open>
  The current snapshot. The snapshot the state machine reports as current is the one it last built,
  with its metadata and payload, also from a database opened anew over the same tables; building it has
  not touched the applied state.\<close>

theorem snapshot_roundtrip:
  assumes "redb_laws ops view xview" "serde_laws (sc_snapshot cdc)"
    "build_snapshot ops cdc d = (Ok (meta, payload), d')" "redb_laws ops' view xview'" "redb_reliable ops'"
  shows "get_current_snapshot ops' cdc d' = Ok (Some (meta, payload)) \<and> view d' STATE = view d STATE"
proof -
  obtain st where st: "build_snapshot_store ops cdc st d = (Ok (meta, payload), d')"
  proof (cases "build_snapshot_read ops cdc d")
    case (Inl e)
    with assms(3) show ?thesis by (simp add: build_snapshot_def)
  next
    case (Inr st)
    with assms(3) that show ?thesis by (simp add: build_snapshot_def)
  qed
  let ?snap = "\<lparr>snap_meta = meta, snap_payload = payload\<rparr>"
  obtain b where b: "ser (sc_snapshot cdc) ?snap = Ok b" "view d' = (view d)(SNAPSHOT := (view d SNAPSHOT)(0 \<mapsto> b))"
    using write_snapshot_view [OF assms(1) build_snapshot_store_Ok(4) [OF st]] by auto
  obtain r where r: "read_get ops' SNAPSHOT 0 d' = Ok r" using redb_reliableD(4) [OF assms(5)] by blast
  then have "r = Some b" using redb_lawsD(9) [OF assms(4) r] b(2) by simp
  moreover have "de (sc_snapshot cdc) b = Ok ?snap" using b(1) assms(2) by (simp add: serde_laws_def)
  ultimately show ?thesis
    using r b(2) by (simp add: get_current_snapshot_def read_snapshot_def read_txn_reliable [OF assms(5)])
qed

section \<open>Examples\<close>

text \<open>A codec for the values of a list: a value is written as its position in unary.\<close>

primrec table_ser :: "'m list \<Rightarrow> 'm \<Rightarrow> string + bytes" where
  "table_ser [] m = Err ''unknown value''"
| "table_ser (x # xs) m = (if x = m then Ok [] else rbind (table_ser xs m) (\<lambda>b. Ok (0 # b)))"

definition table_serde :: "'m list \<Rightarrow> 'm serde" where
  "table_serde xs = \<lparr>ser = table_ser xs, de = (\<lambda>b. if length b < length xs then Ok (xs ! length b) else Err ''truncated'')\<rparr>"

lemma table_ser_Ok: "table_ser xs m = Ok b \<Longrightarrow> length b < length xs \<and> xs ! length b = m"
  by (induction xs arbitrary: b) (auto simp: rbind_eq_Ok_iff split: if_splits)

lemma table_serde_laws: "serde_laws (table_serde xs)"
  by (auto simp: serde_laws_def table_serde_def dest: table_ser_Ok)

definition demo_id :: "u64 \<Rightarrow> LogId" where
  "demo_id i = \<lparr>li_term = 1, li_node = 1, li_index = i\<rparr>"

definition demo_log_entries :: "unit Entry list" where
  "demo_log_entries =
     [\<lparr>e_log_id = demo_id 0, e_payload = Membership ()\<rparr>,
      \<lparr>e_log_id = demo_id 1, e_payload = Normal (AddNode (bare_node 1))\<rparr>,
      \<lparr>e_log_id = demo_id 2, e_payload = Normal (AddNode (bare_node 2))\<rparr>]"

definition demo_states :: "unit PersistedState list" where
  "demo_states =
     map (\<lambda>n. snd (apply_entries plain_apply (take n demo_log_entries) (PersistedState_default ()))) [0, 1, 2, 3] @
     [(snd (apply_entries plain_apply (take 2 demo_log_entries) (PersistedState_default ())))\<lparr>next_mutation_id := 0\<rparr>,
      (snd (apply_entries plain_apply demo_log_entries (PersistedState_default ())))\<lparr>next_mutation_id := 1\<rparr>]"

definition demo_snapshot :: "unit PersistedSnapshot" where
  "demo_snapshot =
     \<lparr>snap_meta = \<lparr>meta_last_log_id = Some (demo_id 1),
        meta_last_membership = \<lparr>sm_log_id = Some (demo_id 0), sm_membership = ()\<rparr>, snapshot_id = ''1-0''\<rparr>,
      snap_payload = []\<rparr>"

definition demo_sm :: "unit sm_codecs" where
  "demo_sm = \<lparr>sc_state = table_serde demo_states, sc_snapshot = table_serde [demo_snapshot],
     sc_topology = table_serde [\<lparr>t_nodes = [bare_node 1], t_edges = []\<rparr>]\<rparr>"

lemma demo_sm_laws: "serde_laws (sc_state demo_sm)" "serde_laws (sc_topology demo_sm)" "serde_laws (sc_snapshot demo_sm)"
  by (simp_all add: demo_sm_def table_serde_laws)

definition demo_db :: memdb where
  "demo_db = (\<lambda>n. if n = STATE then [(0, [])] else [])"

lemma demo_db_open: "StateMachine_open memdb_ops demo_sm () (Ok (\<lambda>_. [])) = Ok demo_db"
  by (simp add: StateMachine_open_def write_txn_def memdb_ops_def demo_sm_def table_serde_def demo_states_def
      demo_db_def fun_eq_iff)

lemma demo_db_holds: "holds memdb_view demo_sm demo_db (PersistedState_default ())"
  by (simp add: holds_def memdb_view_def demo_db_def demo_sm_def table_serde_def demo_states_def)

abbreviation demo_run :: "nat list \<Rightarrow> memdb \<Rightarrow> (StorageError + ClientWriteResponse list) \<times> memdb" where
  "demo_run ns d \<equiv> apply_batches memdb_ops demo_sm plain_apply (map (\<lambda>i. [demo_log_entries ! i]) ns) d"

abbreviation demo_whole :: "(StorageError + ClientWriteResponse list) \<times> memdb" where
  "demo_whole \<equiv> apply_batches memdb_ops demo_sm plain_apply [demo_log_entries] demo_db"

lemma demo_runs:
  "fst demo_whole = Ok [\<lparr>mutation_id = 0\<rparr>, \<lparr>mutation_id = 0\<rparr>, \<lparr>mutation_id = 1\<rparr>]"
  "fst (demo_run [0, 1, 2] demo_db) = Ok [\<lparr>mutation_id = 0\<rparr>, \<lparr>mutation_id = 0\<rparr>, \<lparr>mutation_id = 1\<rparr>]"
  "reader_topology memdb_ops demo_sm (snd demo_whole) = Ok \<lparr>t_nodes = [bare_node 1, bare_node 2], t_edges = []\<rparr>"
  "reader_topology memdb_ops demo_sm (snd (demo_run [0, 1, 2] demo_db)) =
     Ok \<lparr>t_nodes = [bare_node 1, bare_node 2], t_edges = []\<rparr>"
  by code_simp+

lemma split_Ok: "fst p = Ok r \<Longrightarrow> p = (Ok r, snd p)"
  by (simp add: prod_eq_iff)

theorem replicas_agree_witness:
  "\<exists>rs e1 e2 t. demo_whole = (Ok rs, e1) \<and> demo_run [0, 1, 2] demo_db = (Ok rs, e2) \<and>
     reader_topology memdb_ops demo_sm e1 = Ok t \<and> reader_topology memdb_ops demo_sm e2 = Ok t \<and>
     t = foldl plain_apply topology_empty [AddNode (bare_node 1), AddNode (bare_node 2)]"
proof -
  have c: "concat [demo_log_entries] = concat (map (\<lambda>i. [demo_log_entries ! i]) [0, 1, 2])"
    by (simp add: demo_log_entries_def)
  have m: "mutations_of (concat [demo_log_entries]) = [AddNode (bare_node 1), AddNode (bare_node 2)]"
    "topology (PersistedState_default ()) = topology_empty"
    by (simp_all add: mutations_of_def demo_log_entries_def PersistedState_default_def)
  from replicas_agree [OF memdb_laws memdb_laws demo_sm_laws(1) demo_db_holds demo_db_holds c
      split_Ok [OF demo_runs(1)] split_Ok [OF demo_runs(2)] demo_runs(3,4)]
    split_Ok [OF demo_runs(1)] split_Ok [OF demo_runs(2)] demo_runs(3,4)
  show ?thesis unfolding m by blast
qed

abbreviation demo_prefix :: memdb where
  "demo_prefix \<equiv> snd (demo_run [0, 1] demo_db)"

abbreviation demo_installed :: "(StorageError + unit) \<times> memdb" where
  "demo_installed \<equiv> install_snapshot memdb_ops demo_sm (snap_meta demo_snapshot) [] demo_db"

lemma demo_snapshot_steps:
  "fst (demo_run [0, 1] demo_db) = Ok [\<lparr>mutation_id = 0\<rparr>, \<lparr>mutation_id = 0\<rparr>]"
  "build_snapshot_read memdb_ops demo_sm demo_prefix = Ok (demo_states ! 2)"
  "fst (build_snapshot_store memdb_ops demo_sm (demo_states ! 2) demo_prefix) = Ok (snap_meta demo_snapshot, [])"
  "fst (build_snapshot memdb_ops demo_sm demo_prefix) = Ok (snap_meta demo_snapshot, [])"
  "fst demo_installed = Ok ()"
  "fst (demo_run [2] (snd demo_installed)) = Ok [\<lparr>mutation_id = 0\<rparr>]"
  by code_simp+


theorem snapshot_roundtrip_witness:
  "\<exists>d'. build_snapshot memdb_ops demo_sm demo_prefix = (Ok (snap_meta demo_snapshot, []), d') \<and>
     get_current_snapshot memdb_ops demo_sm d' = Ok (Some (snap_meta demo_snapshot, [])) \<and>
     memdb_view d' STATE = memdb_view demo_prefix STATE"
  using snapshot_roundtrip [OF memdb_laws demo_sm_laws(3) split_Ok [OF demo_snapshot_steps(4)] memdb_laws memdb_reliable]
    split_Ok [OF demo_snapshot_steps(4)] by blast

end
