(* ===== verification/Raft_Cluster.thy ===== *)
theory Raft_Cluster
  imports Raft_State_Machine
begin

text \<open>
  The replicated session store (\<open>session-store/src/distributed.rs\<close>) and the in-process network of its
  nodes (\<open>raft_network.rs\<close>). The Raft core is a third-party package: a handle has some type \<open>'r\<close>, the
  state of the cores some type \<open>'w\<close>, and the calls on a handle are parameters.
\<close>

section \<open>The loopback network\<close>

type_synonym 'r registry = "u64 \<rightharpoonup> 'r"

datatype 'e RPCError = Unreachable string | RemoteError u64 'e

definition register :: "u64 \<Rightarrow> 'r \<Rightarrow> 'r registry \<Rightarrow> 'r registry" where
  "register i raft reg = reg(i \<mapsto> raft)"

definition deregister :: "u64 \<Rightarrow> 'r registry \<Rightarrow> 'r registry" where
  "deregister i reg = reg(i := None)"

record LoopbackNetwork =
  target :: u64

definition new_client :: "u64 \<Rightarrow> LoopbackNetwork" where
  "new_client i = \<lparr>target = i\<rparr>"

text \<open>A network shares the factory's registry, which every lookup reads as it then is.\<close>

definition lookup_raft :: "LoopbackNetwork \<Rightarrow> 'r registry \<Rightarrow> 'e RPCError + 'r" where
  "lookup_raft net reg =
     ok_or (Unreachable (''node '' @ show_word (target net) @ '' not registered'')) (reg (target net))"

text \<open>
  The three calls of \<open>RaftNetwork\<close> forward to the target's core: \<open>call\<close> is the core's \<open>append_entries\<close>,
  \<open>install_snapshot\<close> or \<open>vote\<close>.
\<close>

definition forward_rpc ::
  "('r \<Rightarrow> 'req \<Rightarrow> 'w \<Rightarrow> ('e + 'resp) \<times> 'w) \<Rightarrow> LoopbackNetwork \<Rightarrow> 'r registry \<Rightarrow> 'req \<Rightarrow> 'w
   \<Rightarrow> ('e RPCError + 'resp) \<times> 'w" where
  "forward_rpc call net reg rpc w =
     (case lookup_raft net reg of
        Inl e \<Rightarrow> (Err e, w)
      | Inr raft \<Rightarrow> (let (r, w) = call raft rpc w in (map_err (RemoteError (target net)) r, w)))"

text \<open>What a call meets depends only on the last registration or removal of its target.\<close>

datatype 'r reg_op = Reg u64 'r | Dereg u64

primrec reg_step :: "'r reg_op \<Rightarrow> 'r registry \<Rightarrow> 'r registry" where
  "reg_step (Reg i r) = register i r"
| "reg_step (Dereg i) = deregister i"

primrec reg_target :: "'r reg_op \<Rightarrow> u64" where
  "reg_target (Reg i r) = i"
| "reg_target (Dereg i) = i"

lemma reg_step_other: "reg_target op \<noteq> i \<Longrightarrow> reg_step op reg i = reg i"
  by (cases op) (auto simp: register_def deregister_def)

lemma reg_fold_other: "i \<notin> reg_target ` set ops \<Longrightarrow> fold reg_step ops reg i = reg i"
  by (induction ops arbitrary: reg) (auto simp: reg_step_other)

lemma forward_after_register:
  assumes "i \<notin> reg_target ` set later"
  shows "forward_rpc call (new_client i) (fold reg_step (earlier @ Reg i raft # later) reg) rpc w =
      (let (r, w) = call raft rpc w in (map_err (RemoteError i) r, w))"
    and "forward_rpc call (new_client i) (fold reg_step (earlier @ Dereg i # later) reg) rpc w =
      (Err (Unreachable (''node '' @ show_word i @ '' not registered'')), w)"
  using reg_fold_other [OF assms]
  by (simp_all add: forward_rpc_def lookup_raft_def new_client_def register_def deregister_def)

section \<open>The distributed engine\<close>

text \<open>
  \<open>client_write\<close> is what waiting for the spawned task gives: nothing when the task is dropped before it
  answers, otherwise the core's answer, an error already rendered as text. The local node's database is
  part of the state \<open>'w\<close>; \<open>db\<close> reads it.
\<close>

record 'w DistributedRaftEngine =
  cores :: 'w
  dr_events :: "TopologyEvent list"

definition Distributed_get_topology ::
  "('d, 'x) redb_ops \<Rightarrow> 'mem sm_codecs \<Rightarrow> ('w \<Rightarrow> 'd) \<Rightarrow> 'w DistributedRaftEngine \<Rightarrow> TopologySnapshot" where
  "Distributed_get_topology ops cdc db s =
     (case reader_topology ops cdc (db (cores s)) of Inl _ \<Rightarrow> topology_empty | Inr t \<Rightarrow> t)"

definition Distributed_apply_mutation ::
  "(Mutation \<Rightarrow> 'w \<Rightarrow> (string + ClientWriteResponse) option \<times> 'w) \<Rightarrow> Mutation \<Rightarrow> 'w DistributedRaftEngine
   \<Rightarrow> (StoreError + MutationId) \<times> 'w DistributedRaftEngine" where
  "Distributed_apply_mutation client_write m s =
     (case client_write m (cores s) of
        (None, w) \<Rightarrow> (Err (Persistence ''raft client_write task dropped''), s\<lparr>cores := w\<rparr>)
      | (Some (Inl e), w) \<Rightarrow> (Err (Persistence (''raft client_write: '' @ e)), s\<lparr>cores := w\<rparr>)
      | (Some (Inr r), w) \<Rightarrow>
          (Ok (mutation_id r), s\<lparr>cores := w, dr_events := dr_events s @ [mutation_to_event m]\<rparr>))"

definition distributed_store where
  "distributed_store ops cdc db client_write =
     \<lparr>get_topology = Distributed_get_topology ops cdc db, apply_mutation = Distributed_apply_mutation client_write\<rparr>"

text \<open>
  What the Raft core documents of \<open>client_write\<close>: it answers with the response of the state machine once
  the entry is committed and applied on the local node, after whatever other entries precede it in the log.
\<close>

definition client_write_laws ::
  "('d, 'x) redb_ops \<Rightarrow> 'mem sm_codecs \<Rightarrow> ('w \<Rightarrow> 'd) \<Rightarrow> (TopologySnapshot \<Rightarrow> Mutation \<Rightarrow> TopologySnapshot)
   \<Rightarrow> (Mutation \<Rightarrow> 'w \<Rightarrow> (string + ClientWriteResponse) option \<times> 'w) \<Rightarrow> bool" where
  "client_write_laws ops cdc db app client_write \<longleftrightarrow>
     (\<forall>m w resp w'. client_write m w = (Some (Inr resp), w') \<longrightarrow>
        (\<exists>bs es entry rs. concat bs = es @ [entry] \<and> e_payload entry = Normal m \<and>
           apply_batches ops cdc app bs (db w) = (Ok (rs @ [resp]), db w')))"

lemma mutations_of_snoc:
  "e_payload entry = Normal m \<Longrightarrow> mutations_of (es @ [entry]) = mutations_of es @ [m]"
  by (simp add: mutations_of_def)

lemma reader_topology_reliable:
  assumes "redb_laws ops view xview" "redb_reliable ops" "holds view cdc d st"
  shows "reader_topology ops cdc d = Ok (topology st)"
proof -
  obtain b where b: "view d STATE 0 = Some b" "de (sc_state cdc) b = Ok st" using assms(3) by (auto simp: holds_def)
  obtain r where r: "read_get ops STATE 0 d = Ok r" using redb_reliableD(4) [OF assms(2)] by blast
  then have "r = Some b" using redb_lawsD(9) [OF assms(1) r] b(1) by simp
  then show ?thesis using r b(2) by (simp add: reader_topology_def read_txn_reliable [OF assms(2)])
qed


section \<open>Bootstrapping\<close>

text \<open>
  \<open>raft_new\<close> is \<open>Raft::new\<close> over the ephemeral stores of a node, with the handle of its core and a reader
  of its database; \<open>initialize\<close> starts an election among the members. A panic is the value \<open>None\<close>.
\<close>

record ('r, 'd) ClusterNode =
  cn_id :: u64
  cn_raft :: 'r
  cn_reader :: 'd

primrec spawn_nodes ::
  "(u64 \<Rightarrow> 'w \<Rightarrow> ('r \<times> 'd) option \<times> 'w) \<Rightarrow> u64 list \<Rightarrow> 'r registry \<Rightarrow> 'w
   \<Rightarrow> (('r, 'd) ClusterNode list \<times> 'r registry) option \<times> 'w" where
  "spawn_nodes raft_new [] reg w = (Some ([], reg), w)"
| "spawn_nodes raft_new (i # ids) reg w =
     (case raft_new i w of
        (None, w) \<Rightarrow> (None, w)
      | (Some (raft, reader), w) \<Rightarrow>
          (case spawn_nodes raft_new ids (register i raft reg) w of
             (None, w) \<Rightarrow> (None, w)
           | (Some (nodes, reg), w) \<Rightarrow> (Some (\<lparr>cn_id = i, cn_raft = raft, cn_reader = reader\<rparr> # nodes, reg), w)))"

definition spawn_cluster ::
  "(u64 \<Rightarrow> 'w \<Rightarrow> ('r \<times> 'd) option \<times> 'w) \<Rightarrow> ('r \<Rightarrow> (u64 \<times> string) list \<Rightarrow> 'w \<Rightarrow> unit option \<times> 'w) \<Rightarrow> u64 list
   \<Rightarrow> 'w \<Rightarrow> (('r, 'd) ClusterNode list \<times> 'r registry) option \<times> 'w" where
  "spawn_cluster raft_new initialize ids w =
     (if ids = [] then (None, w)
      else case spawn_nodes raft_new ids Map.empty w of
             (None, w) \<Rightarrow> (None, w)
           | (Some (nodes, reg), w) \<Rightarrow>
               (let members = map (\<lambda>i. (i, ''inproc://'' @ show_word i)) (sort (remdups ids))
                in case initialize (cn_raft (hd nodes)) members w of
                     (None, w) \<Rightarrow> (None, w)
                   | (Some _, w) \<Rightarrow> (Some (nodes, reg), w)))"

text \<open>The nodes come in the order of their ids, and every one of them can be reached by the others.\<close>

lemma spawn_nodes_reg:
  "spawn_nodes raft_new ids reg w = (Some (nodes, reg'), w') \<Longrightarrow>
     map cn_id nodes = ids \<and> (\<forall>i. i \<notin> set ids \<longrightarrow> reg' i = reg i) \<and>
     (distinct ids \<longrightarrow> (\<forall>n \<in> set nodes. reg' (cn_id n) = Some (cn_raft n)))"
proof (induction ids arbitrary: reg w nodes)
  case (Cons i ids)
  from Cons.prems obtain raft reader w1 nodes1 where
    r: "spawn_nodes raft_new ids (register i raft reg) w1 = (Some (nodes1, reg'), w')"
    and n: "nodes = \<lparr>cn_id = i, cn_raft = raft, cn_reader = reader\<rparr> # nodes1"
    by (auto split: prod.splits option.splits)
  from Cons.IH [OF r] show ?case by (auto simp: n register_def)
qed auto

lemma spawn_cluster_reachable:
  assumes "spawn_cluster raft_new initialize ids w = (Some (nodes, reg), w')" "distinct ids" "n \<in> set nodes"
  shows "ids \<noteq> []" "map cn_id nodes = ids" "lookup_raft (new_client (cn_id n)) reg = Ok (cn_raft n)"
proof -
  obtain w1 where "ids \<noteq> []" "spawn_nodes raft_new ids Map.empty w = (Some (nodes, reg), w1)"
    using assms(1) by (auto simp: spawn_cluster_def Let_def split: prod.splits option.splits if_splits)
  with spawn_nodes_reg [OF this(2)] assms(2,3)
  show "ids \<noteq> []" "map cn_id nodes = ids" "lookup_raft (new_client (cn_id n)) reg = Ok (cn_raft n)"
    by (auto simp: lookup_raft_def new_client_def)
qed

section \<open>Examples\<close>

text \<open>A one-node cluster: the core applies a write to its own state machine and answers.\<close>

definition solo_entry :: "Mutation \<Rightarrow> unit Entry" where
  "solo_entry m = \<lparr>e_log_id = demo_id 1, e_payload = Normal m\<rparr>"

definition solo_write :: "Mutation \<Rightarrow> memdb \<Rightarrow> (string + ClientWriteResponse) option \<times> memdb" where
  "solo_write m d =
     (case StateMachine_apply memdb_ops demo_sm plain_apply [solo_entry m] d of
        (Inl _, d) \<Rightarrow> (Some (Err ''storage''), d)
      | (Inr rs, d) \<Rightarrow> (if rs = [] then (None, d) else (Some (Ok (last rs)), d)))"

lemma solo_write_laws: "client_write_laws memdb_ops demo_sm id plain_apply solo_write"
proof (unfold client_write_laws_def, intro allI impI)
  fix m w resp w'
  assume "solo_write m w = (Some (Inr resp), w')"
  then obtain rs where "StateMachine_apply memdb_ops demo_sm plain_apply [solo_entry m] w = (Ok rs, w')" "rs \<noteq> []" "last rs = resp"
    by (auto simp: solo_write_def split: prod.splits sum.splits if_splits)
  then have "apply_batches memdb_ops demo_sm plain_apply [[solo_entry m]] (id w) = (Ok (butlast rs @ [resp]), id w')"
    by (auto simp: append_butlast_last_id)
  moreover have "concat [[solo_entry m]] = [] @ [solo_entry m]" "e_payload (solo_entry m) = Normal m"
    by (simp_all add: solo_entry_def)
  ultimately show "\<exists>bs es entry rs. concat bs = es @ [entry] \<and> e_payload entry = Normal m \<and>
      apply_batches memdb_ops demo_sm plain_apply bs (id w) = (Ok (rs @ [resp]), id w')" by blast
qed

definition solo_node :: "memdb DistributedRaftEngine" where
  "solo_node = \<lparr>cores = (\<lambda>n. if n = STATE then [(0, [0])] else []), dr_events = []\<rparr>"

lemma solo_node_holds: "holds memdb_view demo_sm (id (cores solo_node)) (demo_states ! 1)"
  by (simp add: holds_def memdb_view_def solo_node_def demo_sm_def table_serde_def demo_states_def)

lemma solo_accepts: "fst (Distributed_apply_mutation solo_write (AddNode (bare_node 1)) solo_node) = Ok 0"
  by code_simp


end
