(* ===== verification/Node_Params.thy ===== *)
theory Node_Params
  imports Float32
begin

text \<open>
  The typed node parameters of the control API (\<open>control-api/src/lib.rs\<close>): the variants with their
  fields in source order, the kind each belongs to and the default of each field.
\<close>

section \<open>Decimal literals\<close>

text \<open>The \<open>f32\<close> nearest to \<open>n / d\<close>, as the compiler reads a literal.\<close>

definition f32_lit :: "int \<Rightarrow> int \<Rightarrow> f32" where
  "f32_lit n d = f_pack (n < 0) (\<bar>n\<bar> * f_unit) d"

section \<open>Variants\<close>

datatype NodeParams =
    Gain f32
  | Mixer u64 "f32 list"
  | Eq string f32 f32 f32
  | Compressor f32 f32 f32 f32 f32
  | Limiter f32
  | Meter
  | ChannelMap string "f32 option"
  | Delay f32 f32 f32 f32
  | NoiseGate f32 f32 f32 f32
  | Noise string f32 u64
  | Tone string f32 f32
  | Reverb f32 f32 f32 f32
  | Chorus f32 f32 f32 f32
  | Distortion string f32 f32 f32
  | Flanger f32 f32 f32 f32 f32
  | AuxSend f32
  | Phaser f32 f32 f32 f32 f32 u32
  | Bitcrusher u32 u32
  | Tremolo f32 f32
  | StereoWidener f32

fun kind_name :: "NodeParams \<Rightarrow> string" where
  "kind_name (Gain _) = ''gain''"
| "kind_name (Mixer _ _) = ''mixer''"
| "kind_name (Eq _ _ _ _) = ''eq''"
| "kind_name (Compressor _ _ _ _ _) = ''compressor''"
| "kind_name (Limiter _) = ''limiter''"
| "kind_name Meter = ''meter''"
| "kind_name (ChannelMap _ _) = ''channel_map''"
| "kind_name (Delay _ _ _ _) = ''delay''"
| "kind_name (NoiseGate _ _ _ _) = ''noise_gate''"
| "kind_name (Noise _ _ _) = ''noise''"
| "kind_name (Tone _ _ _) = ''tone''"
| "kind_name (Reverb _ _ _ _) = ''reverb''"
| "kind_name (Chorus _ _ _ _) = ''chorus''"
| "kind_name (Distortion _ _ _ _) = ''distortion''"
| "kind_name (Flanger _ _ _ _ _) = ''flanger''"
| "kind_name (AuxSend _) = ''aux_send''"
| "kind_name (Phaser _ _ _ _ _ _) = ''phaser''"
| "kind_name (Bitcrusher _ _) = ''bitcrusher''"
| "kind_name (Tremolo _ _) = ''tremolo''"
| "kind_name (StereoWidener _) = ''stereo_widener''"

section \<open>Defaults\<close>

definition default_gain :: f32 where "default_gain = f32_lit 1 1"
definition default_mixer_inputs :: u64 where "default_mixer_inputs = 2"
definition default_mixer_gains :: "f32 list" where "default_mixer_gains = [f32_lit 5 10, f32_lit 5 10]"
definition default_filter_type :: string where "default_filter_type = ''peaking''"
definition default_freq :: f32 where "default_freq = f32_lit 1000 1"
definition default_q :: f32 where "default_q = f32_lit 707 1000"
definition default_threshold :: f32 where "default_threshold = f32_lit (- 12) 1"
definition default_ratio :: f32 where "default_ratio = f32_lit 4 1"
definition default_attack :: f32 where "default_attack = f32_lit 1 1"
definition default_release :: f32 where "default_release = f32_lit 50 1"
definition default_limiter_threshold :: f32 where "default_limiter_threshold = f32_lit (- 1) 1"
definition default_channel_mode :: string where "default_channel_mode = ''passthrough''"
definition default_delay_max_ms :: f32 where "default_delay_max_ms = f32_lit 500 1"
definition default_delay_ms :: f32 where "default_delay_ms = f32_lit 250 1"
definition default_feedback :: f32 where "default_feedback = f32_lit 3 10"
definition default_mix :: f32 where "default_mix = f32_lit 3 10"
definition default_gate_threshold :: f32 where "default_gate_threshold = f32_lit (- 50) 1"
definition default_gate_attack :: f32 where "default_gate_attack = f32_lit 1 1"
definition default_gate_hold :: f32 where "default_gate_hold = f32_lit 50 1"
definition default_gate_release :: f32 where "default_gate_release = f32_lit 100 1"
definition default_noise_color :: string where "default_noise_color = ''white''"
definition default_noise_amp :: f32 where "default_noise_amp = f32_lit 5 10"
definition default_seed :: u64 where "default_seed = 12345"
definition default_waveform :: string where "default_waveform = ''sine''"
definition default_tone_freq :: f32 where "default_tone_freq = f32_lit 440 1"
definition default_tone_amp :: f32 where "default_tone_amp = f32_lit 5 10"
definition default_room_size :: f32 where "default_room_size = f32_lit 5 10"
definition default_damping :: f32 where "default_damping = f32_lit 5 10"
definition default_wet :: f32 where "default_wet = f32_lit 3 10"
definition default_dry :: f32 where "default_dry = f32_lit 7 10"
definition default_chorus_rate :: f32 where "default_chorus_rate = f32_lit 15 10"
definition default_chorus_depth :: f32 where "default_chorus_depth = f32_lit 3 1"
definition default_chorus_center :: f32 where "default_chorus_center = f32_lit 20 1"
definition default_chorus_mix :: f32 where "default_chorus_mix = f32_lit 5 10"
definition default_distortion_mode :: string where "default_distortion_mode = ''soft_clip''"
definition default_drive :: f32 where "default_drive = f32_lit 3 1"
definition default_distortion_threshold :: f32 where "default_distortion_threshold = f32_lit 7 10"
definition default_output_level :: f32 where "default_output_level = f32_lit 1 1"
definition default_flanger_rate :: f32 where "default_flanger_rate = f32_lit 5 10"
definition default_flanger_depth :: f32 where "default_flanger_depth = f32_lit 2 1"
definition default_flanger_center :: f32 where "default_flanger_center = f32_lit 3 1"
definition default_flanger_feedback :: f32 where "default_flanger_feedback = f32_lit 5 10"
definition default_flanger_mix :: f32 where "default_flanger_mix = f32_lit 5 10"
definition default_send_level :: f32 where "default_send_level = f32_lit 5 10"
definition default_phaser_rate :: f32 where "default_phaser_rate = f32_lit 5 10"
definition default_phaser_base :: f32 where "default_phaser_base = f32_lit 800 1"
definition default_phaser_depth :: f32 where "default_phaser_depth = f32_lit 5 10"
definition default_phaser_feedback :: f32 where "default_phaser_feedback = f32_lit 3 10"
definition default_phaser_mix :: f32 where "default_phaser_mix = f32_lit 5 10"
definition default_phaser_stages :: u32 where "default_phaser_stages = 4"
definition default_bits :: u32 where "default_bits = 8"
definition default_hold_factor :: u32 where "default_hold_factor = 1"
definition default_tremolo_rate :: f32 where "default_tremolo_rate = f32_lit 5 1"
definition default_tremolo_depth :: f32 where "default_tremolo_depth = f32_lit 5 10"
definition default_width :: f32 where "default_width = f32_lit 1 1"

text \<open>The variants as decoded from objects without any field.\<close>

definition all_defaults :: "NodeParams list" where
  "all_defaults =
     [Gain default_gain,
      Mixer default_mixer_inputs default_mixer_gains,
      Eq default_filter_type default_freq (f32_lit 0 1) default_q,
      Compressor default_threshold default_ratio default_attack default_release (f32_lit 0 1),
      Limiter default_limiter_threshold,
      Meter,
      ChannelMap default_channel_mode None,
      Delay default_delay_max_ms default_delay_ms default_feedback default_mix,
      NoiseGate default_gate_threshold default_gate_attack default_gate_hold default_gate_release,
      Noise default_noise_color default_noise_amp default_seed,
      Tone default_waveform default_tone_freq default_tone_amp,
      Reverb default_room_size default_damping default_wet default_dry,
      Chorus default_chorus_rate default_chorus_depth default_chorus_center default_chorus_mix,
      Distortion default_distortion_mode default_drive default_distortion_threshold default_output_level,
      Flanger default_flanger_rate default_flanger_depth default_flanger_center default_flanger_feedback default_flanger_mix,
      AuxSend default_send_level,
      Phaser default_phaser_rate default_phaser_base default_phaser_depth default_phaser_feedback default_phaser_mix default_phaser_stages,
      Bitcrusher default_bits default_hold_factor,
      Tremolo default_tremolo_rate default_tremolo_depth,
      StereoWidener default_width]"

definition params_default :: "string \<Rightarrow> NodeParams option" where
  "params_default kind = find (\<lambda>p. kind_name p = kind) all_defaults"

text \<open>Every variant has its own kind: the defaults hold one value per variant.\<close>

lemma kind_names_distinct: "distinct (map kind_name all_defaults)"
  by (simp add: all_defaults_def)

lemma kind_name_in: "kind_name p \<in> set (map kind_name all_defaults)"
  by (cases p) (simp_all add: all_defaults_def)

lemma params_default_kind: "params_default kind = Some p \<Longrightarrow> kind_name p = kind"
  by (auto simp: params_default_def find_Some_iff)

lemma params_default_exists: "\<exists>q. params_default (kind_name p) = Some q"
  using kind_name_in [of p] by (auto simp: params_default_def find_None_iff simp flip: not_None_eq)

end
