(* ===== verification/Control_Api.thy ===== *)
theory Control_Api
  imports Session_Store Node_Params
begin

text \<open>
  The control API (\<open>control-api/src/lib.rs\<close>): the graph controller over a session store, presets, and
  the REST handlers. The store is any provider of the \<open>session_store\<close> interface; looking a node up in
  a snapshot (\<open>lookup\<close>) is a parameter of the graph crate. The registries are maps; their locks are
  held for single operations only, and requests are handled one at a time. The web framework, which
  decodes paths and bodies, is not modelled: a request is its decoded form. Text is ASCII.
\<close>

section \<open>Data\<close>

record NodeInfo =
  ni_id :: NodeId
  ni_label :: string
  ni_inputs :: u16
  ni_outputs :: u16
  ni_kind :: "string option"
  ni_params :: "NodeParams option"

record NodeSpec =
  sp_label :: string
  sp_inputs :: u16
  sp_outputs :: u16
  sp_kind :: "string option"
  sp_params :: "NodeParams option"

record LinkRequest =
  lr_from :: NodeId
  lr_from_port :: "u16 option"
  lr_to :: NodeId
  lr_to_port :: "u16 option"

record LinkInfo =
  lk_id :: LinkId
  lk_from :: NodeId
  lk_from_port :: u16
  lk_to :: NodeId
  lk_to_port :: u16

record TopologyInfo =
  ti_nodes :: "NodeInfo list"
  ti_links :: "LinkInfo list"

record PresetNode =
  pn_id :: NodeId
  pn_label :: string
  pn_inputs :: u16
  pn_outputs :: u16
  pn_kind :: "string option"
  pn_params :: "NodeParams option"

record PresetLink =
  pl_from :: NodeId
  pl_from_port :: u16
  pl_to :: NodeId
  pl_to_port :: u16

record Preset =
  version :: u32
  pr_nodes :: "PresetNode list"
  pr_links :: "PresetLink list"

definition PRESET_VERSION :: u32 where "PRESET_VERSION = 1"

datatype ControlError = Unimplemented string | BadRequest string | Graph string | NotFound string

definition ControlError_to_string :: "ControlError \<Rightarrow> string" where
  "ControlError_to_string e =
     (case e of
        Unimplemented m \<Rightarrow> ''not implemented: '' @ m
      | BadRequest m \<Rightarrow> ''bad request: '' @ m
      | Graph m \<Rightarrow> ''graph: '' @ m
      | NotFound m \<Rightarrow> ''not found: '' @ m)"

definition store_err_to_control :: "StoreError \<Rightarrow> ControlError" where
  "store_err_to_control e =
     (case e of
        InvalidMutation msg \<Rightarrow> Graph msg
      | Persistence msg \<Rightarrow> Graph msg
      | StoreUnimplemented msg \<Rightarrow> Graph (''store: '' @ msg))"

record 's GraphController =
  store :: 's
  labels :: "NodeId \<rightharpoonup> string"
  kinds :: "NodeId \<rightharpoonup> string"
  params :: "NodeId \<rightharpoonup> NodeParams"

definition new_with_registries :: "'s \<Rightarrow> (NodeId \<rightharpoonup> string) \<Rightarrow> (NodeId \<rightharpoonup> NodeParams) \<Rightarrow> 's GraphController" where
  "new_with_registries s ks ps = \<lparr>store = s, labels = Map.empty, kinds = ks, params = ps\<rparr>"

definition GraphController_new :: "'s \<Rightarrow> 's GraphController" where
  "GraphController_new s = new_with_registries s Map.empty Map.empty"

section \<open>Listing\<close>

definition node_label :: "'s GraphController \<Rightarrow> NodeId \<Rightarrow> string" where
  "node_label c i = (case labels c i of Some l \<Rightarrow> l | None \<Rightarrow> ''node-'' @ show_word i)"

definition node_info :: "'s GraphController \<Rightarrow> NodeSnapshot \<Rightarrow> NodeInfo" where
  "node_info c ns =
     \<lparr>ni_id = ns_id ns, ni_label = node_label c (ns_id ns),
      ni_inputs = of_nat (length (ns_inputs ns)), ni_outputs = of_nat (length (ns_outputs ns)),
      ni_kind = kinds c (ns_id ns), ni_params = params c (ns_id ns)\<rparr>"

definition list_nodes :: "'s store_ops \<Rightarrow> 's GraphController \<Rightarrow> NodeInfo list" where
  "list_nodes st c = map (node_info c) (t_nodes (get_topology st (store c)))"

definition link_info :: "nat \<times> SnapshotEdge \<Rightarrow> LinkInfo" where
  "link_info = (\<lambda>(i, edge).
     \<lparr>lk_id = of_nat i, lk_from = fst (se_from edge), lk_from_port = ucast (snd (se_from edge)),
      lk_to = fst (se_to edge), lk_to_port = ucast (snd (se_to edge))\<rparr>)"

definition list_links :: "'s store_ops \<Rightarrow> 's GraphController \<Rightarrow> LinkInfo list" where
  "list_links st c = (let es = t_edges (get_topology st (store c)) in map link_info (zip [0..<length es] es))"

section \<open>Creating and deleting\<close>

definition is_whitespace :: "char \<Rightarrow> bool" where
  "is_whitespace ch \<longleftrightarrow> ch \<in> set [CHR '' '', CHR 0x09, CHR 0x0A, CHR 0x0B, CHR 0x0C, CHR 0x0D]"

definition trim :: "string \<Rightarrow> string" where
  "trim s = rev (dropWhile is_whitespace (rev (dropWhile is_whitespace s)))"

definition resolve_kind :: "NodeSpec \<Rightarrow> ControlError + NodeSpec" where
  "resolve_kind spec =
     (case sp_params spec of
        None \<Rightarrow> Ok spec
      | Some ps \<Rightarrow>
          let actual = kind_name ps in
          case sp_kind spec of
            Some expected \<Rightarrow>
              if expected \<noteq> actual
              then Err (BadRequest (''params variant '' @ [CHR 0x27] @ actual @ [CHR 0x27] @ '' does not match kind '' @
                                    [CHR 0x27] @ expected @ [CHR 0x27]))
              else Ok spec
          | None \<Rightarrow> Ok (spec\<lparr>sp_kind := Some actual\<rparr>))"

definition build_ports :: "u16 \<Rightarrow> PortDir \<Rightarrow> PortMeta list" where
  "build_ports count dir = replicate (unat count) \<lparr>direction = dir, pm_channels = 1, sample_format = SampleF32\<rparr>"

definition next_node_id :: "TopologySnapshot \<Rightarrow> NodeId" where
  "next_node_id topo = saturating_add (fold max (node_ids topo) 0) 1"

definition set_entry :: "('a \<rightharpoonup> 'b) \<Rightarrow> 'a \<Rightarrow> 'b option \<Rightarrow> ('a \<rightharpoonup> 'b)" where
  "set_entry m k v = (case v of None \<Rightarrow> m | Some x \<Rightarrow> m(k \<mapsto> x))"

definition create_node ::
  "'s store_ops \<Rightarrow> NodeSpec \<Rightarrow> 's GraphController \<Rightarrow> (ControlError + NodeId) \<times> 's GraphController" where
  "create_node st spec c =
     (if trim (sp_label spec) = [] then (Err (BadRequest ''node label must not be empty''), c)
      else case resolve_kind spec of
        Inl e \<Rightarrow> (Err e, c)
      | Inr spec \<Rightarrow>
          let new_id = next_node_id (get_topology st (store c));
              node = \<lparr>ns_id = new_id, ns_inputs = build_ports (sp_inputs spec) Input,
                      ns_outputs = build_ports (sp_outputs spec) Output\<rparr>
          in case apply_mutation st (AddNode node) (store c) of
               (Inl e, s) \<Rightarrow> (Err (store_err_to_control e), c\<lparr>store := s\<rparr>)
             | (Inr _, s) \<Rightarrow>
                 (Ok new_id,
                  c\<lparr>store := s, labels := (labels c)(new_id \<mapsto> sp_label spec),
                    kinds := set_entry (kinds c) new_id (sp_kind spec),
                    params := set_entry (params c) new_id (sp_params spec)\<rparr>))"

definition forget :: "NodeId \<Rightarrow> 's GraphController \<Rightarrow> 's GraphController" where
  "forget i c = c\<lparr>labels := (labels c)(i := None), kinds := (kinds c)(i := None), params := (params c)(i := None)\<rparr>"

definition delete_node ::
  "(TopologySnapshot \<Rightarrow> NodeId \<Rightarrow> NodeSnapshot option) \<Rightarrow> 's store_ops \<Rightarrow> NodeId \<Rightarrow> 's GraphController
   \<Rightarrow> (ControlError + unit) \<times> 's GraphController" where
  "delete_node lookup st i c =
     (if lookup (get_topology st (store c)) i = None then (Err (NotFound (''node '' @ show_word i)), c)
      else case apply_mutation st (RemoveNode i) (store c) of
             (Inl e, s) \<Rightarrow> (Err (store_err_to_control e), c\<lparr>store := s\<rparr>)
           | (Inr _, s) \<Rightarrow> (Ok (), forget i (c\<lparr>store := s\<rparr>)))"

definition delete_link ::
  "'s store_ops \<Rightarrow> LinkId \<Rightarrow> 's GraphController \<Rightarrow> (ControlError + unit) \<times> 's GraphController" where
  "delete_link st i c =
     (if length (t_edges (get_topology st (store c))) \<le> unat i then (Err (NotFound (''link '' @ show_word i)), c)
      else case apply_mutation st (RemoveLink i) (store c) of
             (Inl e, s) \<Rightarrow> (Err (store_err_to_control e), c\<lparr>store := s\<rparr>)
           | (Inr _, s) \<Rightarrow> (Ok (), c\<lparr>store := s\<rparr>))"

definition load_module :: "string \<Rightarrow> ControlError + u64" where
  "load_module path = Err (Unimplemented ''hot plugin loading is M15 (P1); MVP is static-link only'')"

section \<open>Linking\<close>

definition check_link ::
  "(TopologySnapshot \<Rightarrow> NodeId \<Rightarrow> NodeSnapshot option) \<Rightarrow> TopologySnapshot
   \<Rightarrow> NodeId \<Rightarrow> u16 \<Rightarrow> NodeId \<Rightarrow> u16 \<Rightarrow> ControlError + SnapshotEdge" where
  "check_link lookup topo from from_port to to_port =
     rbind (ok_or (NotFound (''source node '' @ show_word from)) (lookup topo from)) (\<lambda>src.
     if length (ns_outputs src) \<le> unat from_port
     then Err (BadRequest (''source node '' @ show_word from @ '' has '' @ show_nat (length (ns_outputs src)) @
                           '' output port(s); from_port '' @ show_word from_port @ '' is out of range''))
     else
     rbind (ok_or (NotFound (''destination node '' @ show_word to)) (lookup topo to)) (\<lambda>dst.
     if length (ns_inputs dst) \<le> unat to_port
     then Err (BadRequest (''destination node '' @ show_word to @ '' has '' @ show_nat (length (ns_inputs dst)) @
                           '' input port(s); to_port '' @ show_word to_port @ '' is out of range''))
     else Ok \<lparr>se_from = (from, ucast from_port), se_to = (to, ucast to_port)\<rparr>))"

definition link_ports ::
  "(TopologySnapshot \<Rightarrow> NodeId \<Rightarrow> NodeSnapshot option) \<Rightarrow> 's store_ops \<Rightarrow> NodeId \<Rightarrow> u16 \<Rightarrow> NodeId \<Rightarrow> u16 \<Rightarrow> 's GraphController
   \<Rightarrow> (ControlError + LinkId) \<times> 's GraphController" where
  "link_ports lookup st from from_port to to_port c =
     (case check_link lookup (get_topology st (store c)) from from_port to to_port of
        Inl e \<Rightarrow> (Err e, c)
      | Inr edge \<Rightarrow>
          (case apply_mutation st (AddLink edge) (store c) of
             (Inl e, s) \<Rightarrow> (Err (store_err_to_control e), c\<lparr>store := s\<rparr>)
           | (Inr _, s) \<Rightarrow>
               (let n = length (t_edges (get_topology st s))
                in (if n = 0 then Err (Graph ''link mutation did not persist'') else Ok (of_nat (n - 1) :: LinkId),
                    c\<lparr>store := s\<rparr>))))"

definition link ::
  "(TopologySnapshot \<Rightarrow> NodeId \<Rightarrow> NodeSnapshot option) \<Rightarrow> 's store_ops \<Rightarrow> NodeId \<Rightarrow> NodeId \<Rightarrow> 's GraphController
   \<Rightarrow> (ControlError + LinkId) \<times> 's GraphController" where
  "link lookup st from to c = link_ports lookup st from 0 to 0 c"

section \<open>Presets\<close>

definition export_preset :: "'s store_ops \<Rightarrow> 's GraphController \<Rightarrow> Preset" where
  "export_preset st c =
     \<lparr>version = PRESET_VERSION,
      pr_nodes = map (\<lambda>n. \<lparr>pn_id = ni_id n, pn_label = ni_label n, pn_inputs = ni_inputs n, pn_outputs = ni_outputs n,
                          pn_kind = ni_kind n, pn_params = ni_params n\<rparr>) (list_nodes st c),
      pr_links = map (\<lambda>l. \<lparr>pl_from = lk_from l, pl_from_port = lk_from_port l, pl_to = lk_to l,
                          pl_to_port = lk_to_port l\<rparr>) (list_links st c)\<rparr>"

primrec import_clear ::
  "'s store_ops \<Rightarrow> NodeId list \<Rightarrow> 's GraphController \<Rightarrow> (ControlError + unit) \<times> 's GraphController" where
  "import_clear st [] c = (Ok (), c)"
| "import_clear st (i # ids) c =
     (case apply_mutation st (RemoveNode i) (store c) of
        (Inl e, s) \<Rightarrow> (Err (store_err_to_control e), c\<lparr>store := s\<rparr>)
      | (Inr _, s) \<Rightarrow> import_clear st ids (forget i (c\<lparr>store := s\<rparr>)))"

definition preset_node :: "PresetNode \<Rightarrow> NodeSnapshot" where
  "preset_node n =
     \<lparr>ns_id = pn_id n, ns_inputs = build_ports (pn_inputs n) Input, ns_outputs = build_ports (pn_outputs n) Output\<rparr>"

primrec import_nodes ::
  "'s store_ops \<Rightarrow> PresetNode list \<Rightarrow> 's GraphController \<Rightarrow> (ControlError + unit) \<times> 's GraphController" where
  "import_nodes st [] c = (Ok (), c)"
| "import_nodes st (n # ns) c =
     (case apply_mutation st (AddNode (preset_node n)) (store c) of
        (Inl e, s) \<Rightarrow> (Err (store_err_to_control e), c\<lparr>store := s\<rparr>)
      | (Inr _, s) \<Rightarrow>
          import_nodes st ns
            (c\<lparr>store := s, labels := (labels c)(pn_id n \<mapsto> pn_label n),
               kinds := set_entry (kinds c) (pn_id n) (pn_kind n),
               params := set_entry (params c) (pn_id n) (pn_params n)\<rparr>))"

definition preset_edge :: "PresetLink \<Rightarrow> SnapshotEdge" where
  "preset_edge l = \<lparr>se_from = (pl_from l, ucast (pl_from_port l)), se_to = (pl_to l, ucast (pl_to_port l))\<rparr>"

primrec import_links ::
  "'s store_ops \<Rightarrow> PresetLink list \<Rightarrow> 's GraphController \<Rightarrow> (ControlError + unit) \<times> 's GraphController" where
  "import_links st [] c = (Ok (), c)"
| "import_links st (l # ls) c =
     (case apply_mutation st (AddLink (preset_edge l)) (store c) of
        (Inl e, s) \<Rightarrow> (Err (store_err_to_control e), c\<lparr>store := s\<rparr>)
      | (Inr _, s) \<Rightarrow> import_links st ls (c\<lparr>store := s\<rparr>))"

definition import_preset ::
  "'s store_ops \<Rightarrow> Preset \<Rightarrow> 's GraphController \<Rightarrow> (ControlError + unit) \<times> 's GraphController" where
  "import_preset st preset c =
     (case import_clear st (node_ids (get_topology st (store c))) c of
        (Inl e, c) \<Rightarrow> (Err e, c)
      | (Inr _, c) \<Rightarrow>
          (case import_nodes st (pr_nodes preset) c of
             (Inl e, c) \<Rightarrow> (Err e, c)
           | (Inr _, c) \<Rightarrow> import_links st (pr_links preset) c))"

section \<open>REST\<close>

datatype Request =
    GetNodes | PostNodes NodeSpec | DeleteNode NodeId
  | GetLinks | PostLinks LinkRequest | DeleteLink LinkId
  | GetTopology | GetPreset | PostPreset Preset

datatype Body =
    Empty | Text string | NodesBody "NodeInfo list" | LinksBody "LinkInfo list" | TopologyBody TopologyInfo
  | PresetBody Preset | CreateNodeResponse NodeId | LinkResponse LinkId

definition status_for :: "ControlError \<Rightarrow> nat" where
  "status_for e =
     (case e of BadRequest _ \<Rightarrow> 400 | Graph _ \<Rightarrow> 422 | NotFound _ \<Rightarrow> 404 | Unimplemented _ \<Rightarrow> 501)"

definition no_content :: "(ControlError + unit) \<times> 'c \<Rightarrow> (nat \<times> Body) \<times> 'c" where
  "no_content = (\<lambda>(r, c). (case r of Inl e \<Rightarrow> (status_for e, Text (ControlError_to_string e)) | Inr _ \<Rightarrow> (204, Empty), c))"

definition create_node_handler :: "'s store_ops \<Rightarrow> NodeSpec \<Rightarrow> 's GraphController \<Rightarrow> (nat \<times> Body) \<times> 's GraphController" where
  "create_node_handler st spec c =
     (case create_node st spec c of
        (Inl e, c) \<Rightarrow> ((status_for e, Empty), c)
      | (Inr i, c) \<Rightarrow> ((201, CreateNodeResponse i), c))"

definition create_link ::
  "(TopologySnapshot \<Rightarrow> NodeId \<Rightarrow> NodeSnapshot option) \<Rightarrow> 's store_ops \<Rightarrow> LinkRequest \<Rightarrow> 's GraphController \<Rightarrow> (nat \<times> Body) \<times> 's GraphController" where
  "create_link lookup st req c =
     (case link_ports lookup st (lr_from req) (case lr_from_port req of None \<Rightarrow> 0 | Some p \<Rightarrow> p)
             (lr_to req) (case lr_to_port req of None \<Rightarrow> 0 | Some p \<Rightarrow> p) c of
        (Inl e, c) \<Rightarrow> ((status_for e, Empty), c)
      | (Inr i, c) \<Rightarrow> ((201, LinkResponse i), c))"

definition delete_node_handler ::
  "(TopologySnapshot \<Rightarrow> NodeId \<Rightarrow> NodeSnapshot option) \<Rightarrow> 's store_ops \<Rightarrow> NodeId \<Rightarrow> 's GraphController \<Rightarrow> (nat \<times> Body) \<times> 's GraphController" where
  "delete_node_handler lookup st i c = no_content (delete_node lookup st i c)"

definition delete_link_handler ::
  "'s store_ops \<Rightarrow> LinkId \<Rightarrow> 's GraphController \<Rightarrow> (nat \<times> Body) \<times> 's GraphController" where
  "delete_link_handler st i c = no_content (delete_link st i c)"

definition import_preset_handler ::
  "'s store_ops \<Rightarrow> Preset \<Rightarrow> 's GraphController \<Rightarrow> (nat \<times> Body) \<times> 's GraphController" where
  "import_preset_handler st p c = no_content (import_preset st p c)"

definition get_topology_handler ::
  "'s store_ops \<Rightarrow> 's GraphController \<Rightarrow> TopologyInfo" where
  "get_topology_handler st c = \<lparr>ti_nodes = list_nodes st c, ti_links = list_links st c\<rparr>"

fun route ::
  "(TopologySnapshot \<Rightarrow> NodeId \<Rightarrow> NodeSnapshot option) \<Rightarrow> 's store_ops \<Rightarrow> Request \<Rightarrow> 's GraphController
   \<Rightarrow> (nat \<times> Body) \<times> 's GraphController" where
  "route lookup st GetNodes c = ((200, NodesBody (list_nodes st c)), c)"
| "route lookup st (PostNodes spec) c = create_node_handler st spec c"
| "route lookup st (DeleteNode i) c = delete_node_handler lookup st i c"
| "route lookup st GetLinks c = ((200, LinksBody (list_links st c)), c)"
| "route lookup st (PostLinks req) c = create_link lookup st req c"
| "route lookup st (DeleteLink i) c = delete_link_handler st i c"
| "route lookup st GetTopology c = ((200, TopologyBody (get_topology_handler st c)), c)"
| "route lookup st GetPreset c = ((200, PresetBody (export_preset st c)), c)"
| "route lookup st (PostPreset p) c = import_preset_handler st p c"

primrec serve_requests where
  "serve_requests lookup st [] c = ([], c)"
| "serve_requests lookup st (req # reqs) c =
     (let (resp, c) = route lookup st req c; (resps, c) = serve_requests lookup st reqs c in (resp # resps, c))"

section \<open>The invariant of the controller\<close>

text \<open>
  The topology is well formed, its nodes are built by this API, their ids are at most \<open>k\<close>; the registries
  know only nodes of the topology, and registered parameters agree with the registered kind.
\<close>

definition built_node :: "NodeSnapshot \<Rightarrow> bool" where
  "built_node n \<longleftrightarrow> ns_inputs n = build_ports (of_nat (length (ns_inputs n))) Input \<and>
     ns_outputs n = build_ports (of_nat (length (ns_outputs n))) Output"

definition api_inv ::
  "nat \<Rightarrow> TopologySnapshot \<Rightarrow> (NodeId \<rightharpoonup> string) \<Rightarrow> (NodeId \<rightharpoonup> string) \<Rightarrow> (NodeId \<rightharpoonup> NodeParams) \<Rightarrow> bool" where
  "api_inv k t ls ks ps \<longleftrightarrow>
     graph_wf t \<and> (\<forall>n \<in> set (t_nodes t). built_node n) \<and> (\<forall>i \<in> set (node_ids t). unat i \<le> k) \<and>
     dom ls \<subseteq> set (node_ids t) \<and> dom ks \<subseteq> set (node_ids t) \<and> (\<forall>i p. ps i = Some p \<longrightarrow> ks i = Some (kind_name p))"

definition ctl_inv :: "'s store_ops \<Rightarrow> nat \<Rightarrow> 's GraphController \<Rightarrow> bool" where
  "ctl_inv st k c \<longleftrightarrow> api_inv k (get_topology st (store c)) (labels c) (kinds c) (params c)"

lemma api_inv_mono: "api_inv k t ls ks ps \<Longrightarrow> k \<le> k' \<Longrightarrow> api_inv k' t ls ks ps"
  by (auto simp: api_inv_def)

lemma length_build_ports [simp]: "length (build_ports n d) = unat n"
  by (simp add: build_ports_def)

lemma built_node_make: "built_node \<lparr>ns_id = i, ns_inputs = build_ports a Input, ns_outputs = build_ports b Output\<rparr>"
  by (simp add: built_node_def)

lemma set_entry_None [simp]: "set_entry m k None = m"
  and set_entry_Some [simp]: "set_entry m k (Some v) = m(k \<mapsto> v)"
  by (simp_all add: set_entry_def)

lemma dom_set_entry: "dom (set_entry m k v) \<subseteq> insert k (dom m)"
  by (cases v) auto

lemma api_inv_add_node:
  assumes "topo_laws app" "api_inv k t ls ks ps" "ns_id n \<notin> set (node_ids t)" "built_node n" "unat (ns_id n) \<le> k"
    "\<forall>p. pr = Some p \<longrightarrow> kd = Some (kind_name p)"
  shows "api_inv k (app t (AddNode n)) (ls(ns_id n \<mapsto> l)) (set_entry ks (ns_id n) kd) (set_entry ps (ns_id n) pr)"
proof -
  have t: "app t (AddNode n) = t\<lparr>t_nodes := t_nodes t @ [n]\<rparr>" by (rule topo_lawsD(1) [OF assms(1,3)])
  have wf: "graph_wf (app t (AddNode n))"
    using graph_wf_add_node [OF assms(1) _ assms(3)] assms(2) by (simp add: api_inv_def)
  have "ks (ns_id n) = None" using assms(2,3) by (auto simp: api_inv_def)
  then have ps: "ps (ns_id n) = None" using assms(2) by (cases "ps (ns_id n)") (auto simp: api_inv_def)
  have ids: "set (node_ids (app t (AddNode n))) = insert (ns_id n) (set (node_ids t))"
    by (simp add: t node_ids_def)
  have "set_entry ps (ns_id n) pr i = Some p \<longrightarrow> set_entry ks (ns_id n) kd i = Some (kind_name p)" for i p
  proof (cases "i = ns_id n")
    case True
    then show ?thesis using assms(6) ps by (cases pr) auto
  next
    case False
    then show ?thesis using assms(2) by (cases pr; cases kd) (auto simp: api_inv_def)
  qed
  moreover have "dom (set_entry ks (ns_id n) kd) \<subseteq> set (node_ids (app t (AddNode n)))"
    using dom_set_entry [of ks "ns_id n" kd] assms(2) unfolding ids api_inv_def by blast
  ultimately show ?thesis
    using wf assms(2,4,5) unfolding api_inv_def ids by (auto simp: t)
qed

lemma node_ids_remove:
  assumes "topo_laws app"
  shows "node_ids (app t (RemoveNode i)) = filter (\<lambda>j. j \<noteq> i) (node_ids t)"
  using assms by (simp add: topo_lawsD node_ids_def filter_map comp_def)

lemma api_inv_remove_node:
  assumes "topo_laws app" "api_inv k t ls ks ps"
  shows "api_inv k (app t (RemoveNode i)) (ls(i := None)) (ks(i := None)) (ps(i := None))"
proof -
  have n: "t_nodes (app t (RemoveNode i)) = filter (\<lambda>n. ns_id n \<noteq> i) (t_nodes t)"
    using assms(1) by (simp add: topo_lawsD)
  have "graph_wf (app t (RemoveNode i))"
    using assms(2) graph_wf_remove_node [OF assms(1)] by (simp add: api_inv_def)
  then show ?thesis using assms(2) unfolding api_inv_def node_ids_remove [OF assms(1)] n by auto
qed

lemma api_inv_add_link:
  assumes "topo_laws app" "api_inv k t ls ks ps" "edge_ok t e"
  shows "api_inv k (app t (AddLink e)) ls ks ps"
  using assms(2) graph_wf_add_link [OF assms(1) _ assms(3)]
  by (auto simp: api_inv_def topo_lawsD(3) [OF assms(1)] node_ids_def)

lemma api_inv_remove_link:
  assumes "topo_laws app" "api_inv k t ls ks ps"
  shows "api_inv k (app t (RemoveLink i)) ls ks ps"
  using assms(2) graph_wf_remove_link [OF assms(1)]
  by (auto simp: api_inv_def topo_lawsD(4) [OF assms(1)] node_ids_def)

text \<open>The next id is new as long as the ids stay below the largest word.\<close>

lemma fold_max_ge: "x \<in> insert a (set xs) \<Longrightarrow> x \<le> fold max xs (a :: 'a :: linorder)"
proof (induction xs arbitrary: a x)
  case (Cons y ys)
  have "max y a \<le> fold max ys (max y a)" by (rule Cons.IH) simp
  then have "y \<le> fold max ys (max y a)" "a \<le> fold max ys (max y a)" by simp_all
  moreover have "z \<le> fold max ys (max y a)" if "z \<in> set ys" for z using Cons.IH [of z "max y a"] that by simp
  ultimately show ?case using Cons.prems by auto
qed simp

lemma fold_max_in: "fold max xs a \<in> insert a (set xs)" for a :: "'a :: linorder"
proof (induction xs arbitrary: a)
  case (Cons y ys)
  then show ?case using Cons.IH [of "max y a"] by (auto simp: max_def split: if_splits)
qed simp

lemma next_node_id_fresh:
  assumes "\<forall>i \<in> set (node_ids t). unat i \<le> k" "Suc k < 2 ^ 64"
  shows "next_node_id t \<notin> set (node_ids t)" "unat (next_node_id t) \<le> Suc k" "0 < unat (next_node_id t)"
proof -
  let ?m = "fold max (node_ids t) 0"
  have m: "unat ?m \<le> k" using fold_max_in [of "node_ids t" 0] assms(1) by auto
  have n: "unat (next_node_id t) = unat ?m + 1"
    using m assms(2) by (simp add: next_node_id_def unat_saturating_add)
  show "next_node_id t \<notin> set (node_ids t)"
  proof
    assume "next_node_id t \<in> set (node_ids t)"
    then have "next_node_id t \<le> ?m" using fold_max_ge by blast
    then show False using n by (simp add: word_le_nat_alt)
  qed
  show "unat (next_node_id t) \<le> Suc k" "0 < unat (next_node_id t)" using n m by simp_all
qed

lemma unat_port: "unat (ucast p :: u64) = unat p" for p :: u16
  using unsigned_less [of p, where ?'a = nat] by (simp add: unsigned_ucast_eq take_bit_nat_eq_self)

text \<open>An accepted link connects existing ports.\<close>

lemma lookup_Some:
  assumes "lookup_laws lookup" "lookup t i = Some n"
  shows "n \<in> set (t_nodes t)" "ns_id n = i"
  using assms by (auto simp: lookup_laws_def find_Some_iff)

lemma check_link_ok:
  assumes "lookup_laws lookup" "check_link lookup t from fp to tp = Ok e"
  shows "edge_ok t e" "e = \<lparr>se_from = (from, ucast fp), se_to = (to, ucast tp)\<rparr>"
proof -
  obtain src dst where src: "lookup t from = Some src" "unat fp < length (ns_outputs src)"
    and dst: "lookup t to = Some dst" "unat tp < length (ns_inputs dst)"
    and e: "e = \<lparr>se_from = (from, ucast fp), se_to = (to, ucast tp)\<rparr>"
    using assms(2) by (auto simp: check_link_def rbind_eq_Ok_iff ok_or_eq_Ok_iff not_le split: if_splits)
  show "edge_ok t e"
    using lookup_Some [OF assms(1) src(1)] lookup_Some [OF assms(1) dst(1)] src(2) dst(2)
    by (auto simp: e edge_ok_def port_of_def unat_port)
  show "e = \<lparr>se_from = (from, ucast fp), se_to = (to, ucast tp)\<rparr>" by (rule e)
qed

section \<open>Operations over any session store\<close>

definition unchanged :: "'s store_ops \<Rightarrow> 's GraphController \<Rightarrow> 's GraphController \<Rightarrow> bool" where
  "unchanged st c c' \<longleftrightarrow>
     get_topology st (store c') = get_topology st (store c) \<and> labels c' = labels c \<and> kinds c' = kinds c \<and> params c' = params c"

lemma unchanged_inv: "unchanged st c c' \<Longrightarrow> ctl_inv st k c' = ctl_inv st k c"
  by (simp add: unchanged_def ctl_inv_def)

definition spec_node :: "NodeId \<Rightarrow> NodeSpec \<Rightarrow> NodeSnapshot" where
  "spec_node i spec = \<lparr>ns_id = i, ns_inputs = build_ports (sp_inputs spec) Input, ns_outputs = build_ports (sp_outputs spec) Output\<rparr>"

lemma resolve_kind_Ok:
  assumes "resolve_kind spec = Ok spec'"
  shows "sp_label spec' = sp_label spec" "sp_inputs spec' = sp_inputs spec" "sp_outputs spec' = sp_outputs spec"
    "sp_params spec' = sp_params spec" "\<forall>p. sp_params spec = Some p \<longrightarrow> sp_kind spec' = Some (kind_name p)"
    "sp_kind spec \<noteq> None \<or> sp_params spec = None \<Longrightarrow> sp_kind spec' = sp_kind spec"
  using assms by (auto simp: resolve_kind_def Let_def split: option.splits if_splits)

definition node_ok :: "nat \<Rightarrow> PresetNode \<Rightarrow> bool" where
  "node_ok k n \<longleftrightarrow> unat (pn_id n) \<le> k \<and> (\<forall>q. pn_params n = Some q \<longrightarrow> pn_kind n = Some (kind_name q))"

definition preset_ok :: "nat \<Rightarrow> Preset \<Rightarrow> bool" where
  "preset_ok k p \<longleftrightarrow>
     distinct (map pn_id (pr_nodes p)) \<and>
     (\<forall>n \<in> set (pr_nodes p). node_ok k n) \<and>
     (\<forall>l \<in> set (pr_links p).
        (\<exists>n \<in> set (pr_nodes p). pn_id n = pl_from l \<and> pl_from_port l < pn_outputs n) \<and>
        (\<exists>n \<in> set (pr_nodes p). pn_id n = pl_to l \<and> pl_to_port l < pn_inputs n))"

fun request_ok :: "nat \<Rightarrow> Request \<Rightarrow> bool" where
  "request_ok k (PostPreset p) = preset_ok k p"
| "request_ok k _ = True"

text \<open>What the registries hold of a preset's node.\<close>

definition recorded :: "'s GraphController \<Rightarrow> PresetNode \<Rightarrow> bool" where
  "recorded c n \<longleftrightarrow> labels c (pn_id n) = Some (pn_label n) \<and> kinds c (pn_id n) = pn_kind n \<and> params c (pn_id n) = pn_params n"

lemma api_inv_no_nodes:
  assumes "api_inv k t ls ks ps" "node_ids t = []"
  shows "t = topology_empty" "ls = Map.empty" "ks = Map.empty" "ps = Map.empty"
proof -
  have "t_nodes t = []" using assms(2) by (simp add: node_ids_def)
  moreover from this have "t_edges t = []"
    using assms(1) by (cases "t_edges t") (auto simp: api_inv_def graph_wf_def edge_ok_def port_of_def)
  ultimately show "t = topology_empty" by (simp add: topology_empty_def)
  show "ls = Map.empty" "ks = Map.empty" using assms by (auto simp: api_inv_def)
  then show "ps = Map.empty" using assms(1) by (auto simp: api_inv_def intro!: ext)
qed

text \<open>The topology a preset describes.\<close>

definition preset_topology :: "Preset \<Rightarrow> TopologySnapshot" where
  "preset_topology p = \<lparr>t_nodes = map preset_node (pr_nodes p), t_edges = map preset_edge (pr_links p)\<rparr>"

lemma preset_edges_ok:
  assumes "preset_ok k p" "l \<in> set (pr_links p)" "t_nodes t = map preset_node (pr_nodes p)"
  shows "edge_ok t (preset_edge l)"
  using assms
  by (auto simp: preset_ok_def edge_ok_def port_of_def preset_edge_def preset_node_def unat_port word_less_nat_alt)

context session_store
begin

lemma mutation_cases:
  obtains (failed) e s' where "apply_mutation st m s = (Inl e, s')" "get_topology st s' = get_topology st s"
  | (accepted) i s' where "apply_mutation st m s = (Inr i, s')" "get_topology st s' = app (get_topology st s) m"
  using applied [where m = m and s = s] rejected [where m = m and s = s] by (cases "apply_mutation st m s"; cases "fst (apply_mutation st m s)") auto

lemma create_node_cases:
  assumes "create_node st spec c = (r, c')"
  obtains (refused) e where "r = Err e" "unchanged st c c'"
  | (created) spec' i where "trim (sp_label spec) \<noteq> []" "resolve_kind spec = Ok spec'"
      "i = next_node_id (get_topology st (store c))" "r = Ok i"
      "get_topology st (store c') = app (get_topology st (store c)) (AddNode (spec_node i spec'))"
      "labels c' = (labels c)(i \<mapsto> sp_label spec)" "kinds c' = set_entry (kinds c) i (sp_kind spec')"
      "params c' = set_entry (params c) i (sp_params spec)"
proof (cases "trim (sp_label spec) = [] \<or> is_err (resolve_kind spec)")
  case True
  then show ?thesis
    using assms refused by (cases "resolve_kind spec") (auto simp: create_node_def unchanged_def split: if_splits)
next
  case False
  then obtain spec' where spec': "resolve_kind spec = Ok spec'" by (cases "resolve_kind spec") auto
  let ?i = "next_node_id (get_topology st (store c))"
  show ?thesis
  proof (cases rule: mutation_cases [of "AddNode (spec_node ?i spec')" "store c"])
    case (failed e s')
    then show ?thesis
      using assms False spec' refused by (auto simp: create_node_def Let_def spec_node_def unchanged_def)
  next
    case (accepted j s')
    then show ?thesis
      using assms False spec' created [of spec' ?i] resolve_kind_Ok [OF spec']
      by (auto simp: create_node_def Let_def spec_node_def)
  qed
qed

lemma delete_node_cases:
  assumes "delete_node lookup st i c = (r, c')"
  obtains (refused) e where "r = Err e" "unchanged st c c'"
  | (deleted) n where "lookup (get_topology st (store c)) i = Some n" "r = Ok ()"
      "get_topology st (store c') = app (get_topology st (store c)) (RemoveNode i)"
      "labels c' = (labels c)(i := None)" "kinds c' = (kinds c)(i := None)" "params c' = (params c)(i := None)"
proof (cases "lookup (get_topology st (store c)) i")
  case None
  then show ?thesis using assms refused by (auto simp: delete_node_def unchanged_def)
next
  case (Some n)
  show ?thesis
  proof (cases rule: mutation_cases [of "RemoveNode i" "store c"])
    case (failed e s')
    then show ?thesis using assms Some refused by (auto simp: delete_node_def unchanged_def)
  next
    case (accepted j s')
    then show ?thesis using assms Some deleted by (auto simp: delete_node_def forget_def)
  qed
qed

lemma delete_link_cases:
  assumes "delete_link st i c = (r, c')"
  obtains (refused) e where "r = Err e" "unchanged st c c'"
  | (deleted) "unat i < length (t_edges (get_topology st (store c)))" "r = Ok ()"
      "get_topology st (store c') = app (get_topology st (store c)) (RemoveLink i)"
      "labels c' = labels c" "kinds c' = kinds c" "params c' = params c"
proof (cases "length (t_edges (get_topology st (store c))) \<le> unat i")
  case True
  then show ?thesis using assms refused by (auto simp: delete_link_def unchanged_def)
next
  case False
  show ?thesis
  proof (cases rule: mutation_cases [of "RemoveLink i" "store c"])
    case (failed e s')
    then show ?thesis using assms False refused by (auto simp: delete_link_def unchanged_def)
  next
    case (accepted j s')
    then show ?thesis using assms False deleted by (auto simp: delete_link_def)
  qed
qed

lemma link_ports_cases:
  assumes "topo_laws app" "lookup_laws lookup" "link_ports lookup st from fp to tp c = (r, c')"
  obtains (refused) e where "r = Err e" "unchanged st c c'"
  | (linked) e where "e = \<lparr>se_from = (from, ucast fp), se_to = (to, ucast tp)\<rparr>"
      "check_link lookup (get_topology st (store c)) from fp to tp = Ok e"
      "edge_ok (get_topology st (store c)) e" "r = Ok (of_nat (length (t_edges (get_topology st (store c)))))"
      "get_topology st (store c') = app (get_topology st (store c)) (AddLink e)"
      "labels c' = labels c" "kinds c' = kinds c" "params c' = params c"
proof (cases "check_link lookup (get_topology st (store c)) from fp to tp")
  case (Inl e)
  then show ?thesis using assms(3) refused by (auto simp: link_ports_def unchanged_def)
next
  case (Inr e)
  show ?thesis
  proof (cases rule: mutation_cases [of "AddLink e" "store c"])
    case (failed x s')
    then show ?thesis using assms(3) Inr refused by (auto simp: link_ports_def unchanged_def)
  next
    case (accepted j s')
    have "length (t_edges (get_topology st s')) = Suc (length (t_edges (get_topology st (store c))))"
      using assms(1) accepted(2) by (simp add: topo_lawsD)
    then have "(if length (t_edges (get_topology st s')) = 0 then Err (Graph ''link mutation did not persist'')
        else Ok (of_nat (length (t_edges (get_topology st s')) - 1) :: LinkId)) =
      Ok (of_nat (length (t_edges (get_topology st (store c)))))" by simp
    then have "r = Ok (of_nat (length (t_edges (get_topology st (store c)))))" "c' = c\<lparr>store := s'\<rparr>"
      using assms(3) Inr accepted(1) by (simp_all only: link_ports_def sum.case prod.case Let_def prod.inject)
    then show ?thesis using linked [OF _ Inr] check_link_ok [OF assms(2) Inr] accepted(2) by simp
  qed
qed

lemma create_node_inv:
  assumes "topo_laws app" "ctl_inv st k c" "Suc k < 2 ^ 64"
  shows "ctl_inv st (Suc k) (snd (create_node st spec c))"
proof -
  have inv: "api_inv (Suc k) (get_topology st (store c)) (labels c) (kinds c) (params c)"
    and ids: "\<forall>i \<in> set (node_ids (get_topology st (store c))). unat i \<le> k"
    using assms(2) api_inv_mono [of k _ _ _ _ "Suc k"] by (auto simp: ctl_inv_def api_inv_def)
  obtain r c' where c': "create_node st spec c = (r, c')" by fastforce
  then show ?thesis
  proof (cases rule: create_node_cases)
    case (refused e)
    then show ?thesis using inv c' unchanged_inv [OF refused(2)] by (simp add: ctl_inv_def)
  next
    case (created spec' i)
    note fresh = next_node_id_fresh [OF ids assms(3), folded created(3)]
    have "api_inv (Suc k) (app (get_topology st (store c)) (AddNode (spec_node i spec')))
        ((labels c)(i \<mapsto> sp_label spec)) (set_entry (kinds c) i (sp_kind spec')) (set_entry (params c) i (sp_params spec))"
      using api_inv_add_node [OF assms(1) inv, of "spec_node i spec'"] fresh resolve_kind_Ok(5) [OF created(2)]
      by (simp add: spec_node_def built_node_make)
    then show ?thesis using c' created(5-8) by (simp add: ctl_inv_def)
  qed
qed

lemma delete_node_inv:
  assumes "topo_laws app" "ctl_inv st k c"
  shows "ctl_inv st k (snd (delete_node lookup st i c))"
proof -
  obtain r c' where c': "delete_node lookup st i c = (r, c')" by fastforce
  then show ?thesis
    using api_inv_remove_node [OF assms(1)] assms(2)
    by (cases rule: delete_node_cases) (simp_all add: ctl_inv_def c' unchanged_def)
qed

lemma delete_link_inv:
  assumes "topo_laws app" "ctl_inv st k c"
  shows "ctl_inv st k (snd (delete_link st i c))"
proof -
  obtain r c' where c': "delete_link st i c = (r, c')" by fastforce
  then show ?thesis
    using api_inv_remove_link [OF assms(1)] assms(2)
    by (cases rule: delete_link_cases) (simp_all add: ctl_inv_def c' unchanged_def)
qed

lemma link_ports_inv:
  assumes "topo_laws app" "lookup_laws lookup" "ctl_inv st k c"
  shows "ctl_inv st k (snd (link_ports lookup st from fp to tp c))"
proof -
  obtain r c' where c': "link_ports lookup st from fp to tp c = (r, c')" by fastforce
  from assms(1,2) c' show ?thesis
    using api_inv_add_link [OF assms(1)] assms(3)
    by (cases rule: link_ports_cases) (simp_all add: ctl_inv_def c' unchanged_def)
qed

lemma import_clear_cases:
  assumes "topo_laws app"
  shows "ctl_inv st k c \<Longrightarrow> import_clear st ids c = (r, c') \<Longrightarrow>
    ctl_inv st k c' \<and> (\<not> is_err r \<longrightarrow>
      node_ids (get_topology st (store c')) = filter (\<lambda>i. i \<notin> set ids) (node_ids (get_topology st (store c))))"
proof (induction ids arbitrary: c)
  case (Cons i ids)
  show ?case
  proof (cases rule: mutation_cases [of "RemoveNode i" "store c"])
    case (failed e s')
    then show ?thesis using Cons.prems by (auto simp: ctl_inv_def)
  next
    case (accepted j s')
    let ?c = "forget i (c\<lparr>store := s'\<rparr>)"
    have "ctl_inv st k ?c"
      using api_inv_remove_node [OF assms, of k] Cons.prems(1) accepted(2) by (simp add: ctl_inv_def forget_def)
    moreover have "import_clear st ids ?c = (r, c')" using Cons.prems(2) accepted(1) by simp
    ultimately have "ctl_inv st k c' \<and> (\<not> is_err r \<longrightarrow>
        node_ids (get_topology st (store c')) = filter (\<lambda>i. i \<notin> set ids) (node_ids (get_topology st (store ?c))))"
      by (rule Cons.IH)
    then show ?thesis
      by (auto simp: forget_def accepted(2) node_ids_remove [OF assms] intro!: filter_cong)
  qed
qed simp

lemma import_links_cases:
  assumes "topo_laws app"
  shows "ctl_inv st k c \<Longrightarrow> \<forall>l \<in> set ls. edge_ok (get_topology st (store c)) (preset_edge l) \<Longrightarrow>
    import_links st ls c = (r, c') \<Longrightarrow>
    ctl_inv st k c' \<and> (\<not> is_err r \<longrightarrow>
      get_topology st (store c') = (get_topology st (store c))\<lparr>t_edges := t_edges (get_topology st (store c)) @ map preset_edge ls\<rparr> \<and>
      labels c' = labels c \<and> kinds c' = kinds c \<and> params c' = params c)"
proof (induction ls arbitrary: c)
  case (Cons l ls)
  show ?case
  proof (cases rule: mutation_cases [of "AddLink (preset_edge l)" "store c"])
    case (failed e s')
    then show ?thesis using Cons.prems by (auto simp: ctl_inv_def)
  next
    case (accepted j s')
    let ?c = "c\<lparr>store := s'\<rparr>" and ?t = "get_topology st (store c)"
    have t: "get_topology st s' = ?t\<lparr>t_edges := t_edges ?t @ [preset_edge l]\<rparr>"
      using accepted(2) assms by (simp add: topo_lawsD)
    have "ctl_inv st k ?c"
      using api_inv_add_link [OF assms, of k ?t _ _ _ "preset_edge l"] Cons.prems(1,2) accepted(2) by (simp add: ctl_inv_def)
    moreover have "\<forall>l \<in> set ls. edge_ok (get_topology st (store ?c)) (preset_edge l)"
      using Cons.prems(2) by (simp add: t edge_ok_def port_of_def)
    moreover have "import_links st ls ?c = (r, c')" using Cons.prems(3) accepted(1) by simp
    ultimately have "ctl_inv st k c' \<and> (\<not> is_err r \<longrightarrow>
        get_topology st (store c') = (get_topology st (store ?c))\<lparr>t_edges := t_edges (get_topology st (store ?c)) @ map preset_edge ls\<rparr> \<and>
        labels c' = labels ?c \<and> kinds c' = kinds ?c \<and> params c' = params ?c)"
      by (rule Cons.IH)
    then show ?thesis by (auto simp: t)
  qed
qed (auto simp: ctl_inv_def)

lemma import_nodes_cases:
  assumes "topo_laws app"
  shows "ctl_inv st k c \<Longrightarrow> distinct (map pn_id ns) \<Longrightarrow>
    \<forall>n \<in> set ns. pn_id n \<notin> set (node_ids (get_topology st (store c))) \<and> node_ok k n \<Longrightarrow>
    import_nodes st ns c = (r, c') \<Longrightarrow>
    ctl_inv st k c' \<and> (\<not> is_err r \<longrightarrow>
      get_topology st (store c') = (get_topology st (store c))\<lparr>t_nodes := t_nodes (get_topology st (store c)) @ map preset_node ns\<rparr> \<and>
      (\<forall>n \<in> set ns. recorded c' n) \<and>
      (\<forall>i. i \<notin> pn_id ` set ns \<longrightarrow> labels c' i = labels c i \<and> kinds c' i = kinds c i \<and> params c' i = params c i))"
proof (induction ns arbitrary: c)
  case (Cons n ns)
  show ?case
  proof (cases rule: mutation_cases [of "AddNode (preset_node n)" "store c"])
    case (failed e s')
    then show ?thesis using Cons.prems by (auto simp: ctl_inv_def)
  next
    case (accepted j s')
    let ?t = "get_topology st (store c)"
    let ?c = "c\<lparr>store := s', labels := (labels c)(pn_id n \<mapsto> pn_label n),
               kinds := set_entry (kinds c) (pn_id n) (pn_kind n), params := set_entry (params c) (pn_id n) (pn_params n)\<rparr>"
    have id: "ns_id (preset_node n) = pn_id n" by (simp add: preset_node_def)
    have fresh: "pn_id n \<notin> set (node_ids ?t)" using Cons.prems(3) by simp
    have t: "get_topology st s' = ?t\<lparr>t_nodes := t_nodes ?t @ [preset_node n]\<rparr>"
      using accepted(2) topo_lawsD(1) [OF assms, of "preset_node n" ?t] fresh by (simp add: id)
    have none: "kinds c (pn_id n) = None" "params c (pn_id n) = None"
    proof -
      show k: "kinds c (pn_id n) = None" using Cons.prems(1) fresh by (auto simp: ctl_inv_def api_inv_def)
      show "params c (pn_id n) = None"
        using Cons.prems(1) k by (cases "params c (pn_id n)") (auto simp: ctl_inv_def api_inv_def)
    qed
    have rec: "recorded ?c n" using none by (cases "pn_kind n"; cases "pn_params n") (simp_all add: recorded_def)
    have "ctl_inv st k ?c"
      using api_inv_add_node [OF assms, of k ?t _ _ _ "preset_node n" "pn_params n" "pn_kind n"] Cons.prems(1,3) accepted(2)
      by (simp add: ctl_inv_def id node_ok_def) (simp add: preset_node_def built_node_make)
    moreover have "distinct (map pn_id ns)" using Cons.prems(2) by simp
    moreover have "\<forall>n \<in> set ns. pn_id n \<notin> set (node_ids (get_topology st (store ?c))) \<and> node_ok k n"
    proof
      fix x
      assume x: "x \<in> set ns"
      then have "pn_id x \<noteq> pn_id n" using Cons.prems(2) by (metis distinct.simps(2) image_eqI list.set_map list.simps(9))
      moreover have "node_ids (get_topology st s') = node_ids ?t @ [pn_id n]" by (simp add: t node_ids_def id)
      ultimately show "pn_id x \<notin> set (node_ids (get_topology st (store ?c))) \<and> node_ok k x"
        using x Cons.prems(3) by simp
    qed
    moreover have "import_nodes st ns ?c = (r, c')" using Cons.prems(4) accepted(1) by simp
    ultimately have ih: "ctl_inv st k c' \<and> (\<not> is_err r \<longrightarrow>
        get_topology st (store c') = (get_topology st (store ?c))\<lparr>t_nodes := t_nodes (get_topology st (store ?c)) @ map preset_node ns\<rparr> \<and>
        (\<forall>n \<in> set ns. recorded c' n) \<and>
        (\<forall>i. i \<notin> pn_id ` set ns \<longrightarrow> labels c' i = labels ?c i \<and> kinds c' i = kinds ?c i \<and> params c' i = params ?c i))"
      by (rule Cons.IH)
    show ?thesis
    proof (intro conjI impI ballI allI)
      show "ctl_inv st k c'" using ih by simp
    next
      assume "\<not> is_err r"
      with ih show "get_topology st (store c') = ?t\<lparr>t_nodes := t_nodes ?t @ map preset_node (n # ns)\<rparr>" by (simp add: t)
    next
      fix x
      assume "\<not> is_err r" "x \<in> set (n # ns)"
      moreover have "pn_id n \<notin> pn_id ` set ns" using Cons.prems(2) by simp
      ultimately show "recorded c' x" using ih rec by (cases "x = n") (simp_all add: recorded_def)
    next
      fix i
      assume "\<not> is_err r" "i \<notin> pn_id ` set (n # ns)"
      with ih have "labels c' i = labels ?c i \<and> kinds c' i = kinds ?c i \<and> params c' i = params ?c i" "i \<noteq> pn_id n" by auto
      then show "labels c' i = labels c i" "kinds c' i = kinds c i" "params c' i = params c i"
        by (cases "pn_kind n"; cases "pn_params n"; simp)+
    qed
  qed
qed (auto simp: ctl_inv_def)

lemma import_preset_cases:
  assumes "topo_laws app" "ctl_inv st k c" "preset_ok k p" "import_preset st p c = (r, c')"
  shows "ctl_inv st k c' \<and> (\<not> is_err r \<longrightarrow>
    get_topology st (store c') = preset_topology p \<and> (\<forall>n \<in> set (pr_nodes p). recorded c' n))"
proof -
  obtain r1 c1 where c1: "import_clear st (node_ids (get_topology st (store c))) c = (r1, c1)" by fastforce
  note clear = import_clear_cases [OF assms(1,2) c1]
  show ?thesis
  proof (cases r1)
    case (Inl e)
    then show ?thesis using assms(4) clear c1 by (auto simp: import_preset_def)
  next
    case (Inr u)
    with clear have "node_ids (get_topology st (store c1)) = []" by simp
    from api_inv_no_nodes [OF clear [THEN conjunct1, unfolded ctl_inv_def] this]
    have empty: "get_topology st (store c1) = topology_empty" by simp
    obtain r2 c2 where c2: "import_nodes st (pr_nodes p) c1 = (r2, c2)" by fastforce
    have nodes: "ctl_inv st k c2 \<and> (\<not> is_err r2 \<longrightarrow>
        get_topology st (store c2) = topology_empty\<lparr>t_nodes := map preset_node (pr_nodes p)\<rparr> \<and>
        (\<forall>n \<in> set (pr_nodes p). recorded c2 n))"
      using import_nodes_cases [OF assms(1) conjunct1 [OF clear], of "pr_nodes p" r2 c2] assms(3) c2
      by (simp add: empty preset_ok_def topology_empty_def node_ids_def)
    show ?thesis
    proof (cases r2)
      case (Inl e)
      then show ?thesis using assms(4) nodes c1 c2 Inr by (auto simp: import_preset_def)
    next
      case r2: (Inr u)
      have t: "get_topology st (store c2) = topology_empty\<lparr>t_nodes := map preset_node (pr_nodes p)\<rparr>"
        using nodes r2 by simp
      have e: "\<forall>l \<in> set (pr_links p). edge_ok (get_topology st (store c2)) (preset_edge l)"
        using preset_edges_ok [OF assms(3)] by (simp add: t)
      have "import_links st (pr_links p) c2 = (r, c')" using assms(4) c1 c2 Inr r2 by (simp add: import_preset_def)
      from import_links_cases [OF assms(1) conjunct1 [OF nodes] e this] nodes r2
      show ?thesis by (auto simp: t recorded_def topology_empty_def preset_topology_def)
    qed
  qed
qed

lemma route_inv:
  assumes "topo_laws app" "lookup_laws lookup" "ctl_inv st k c" "request_ok k req" "Suc k < 2 ^ 64"
  shows "ctl_inv st (Suc k) (snd (route lookup st req c))"
proof -
  have up: "ctl_inv st k c' \<Longrightarrow> ctl_inv st (Suc k) c'" for c'
    using api_inv_mono [of k _ _ _ _ "Suc k"] by (simp add: ctl_inv_def)
  show ?thesis
  proof (cases req)
    case (PostNodes spec)
    then show ?thesis
      using create_node_inv [OF assms(1,3,5), of spec]
      by (cases "create_node st spec c") (simp add: create_node_handler_def split: sum.split)
  next
    case (DeleteNode i)
    then show ?thesis
      using up delete_node_inv [OF assms(1,3)] by (simp add: delete_node_handler_def no_content_def split_beta)
  next
    case (PostLinks req')
    let ?r = "link_ports lookup st (lr_from req') (case lr_from_port req' of None \<Rightarrow> 0 | Some p \<Rightarrow> p)
             (lr_to req') (case lr_to_port req' of None \<Rightarrow> 0 | Some p \<Rightarrow> p) c"
    have "ctl_inv st (Suc k) (snd ?r)" by (rule up) (rule link_ports_inv [OF assms(1-3)])
    then show ?thesis using PostLinks by (cases ?r) (simp add: create_link_def split: sum.split)
  next
    case (DeleteLink i)
    then show ?thesis
      using up delete_link_inv [OF assms(1,3)] by (simp add: delete_link_handler_def no_content_def split_beta)
  next
    case (PostPreset p)
    have "ctl_inv st k (snd (import_preset st p c))"
      using import_preset_cases [OF assms(1,3), of p] assms(4) PostPreset by (cases "import_preset st p c") simp
    then show ?thesis using up PostPreset by (simp add: import_preset_handler_def no_content_def split_beta)
  qed (use up assms(3) in simp_all)
qed

lemma serve_requests_inv:
  assumes "topo_laws app" "lookup_laws lookup"
  shows "ctl_inv st k c \<Longrightarrow> list_all (request_ok k) reqs \<Longrightarrow> k + length reqs < 2 ^ 64 \<Longrightarrow>
    ctl_inv st (k + length reqs) (snd (serve_requests lookup st reqs c))"
proof (induction reqs arbitrary: k c)
  case (Cons req reqs)
  have "request_ok (Suc k) x" if "request_ok k x" for x
    using that by (cases x) (auto simp: preset_ok_def node_ok_def)
  then have "list_all (request_ok (Suc k)) reqs" using Cons.prems(2) by (auto simp: list_all_iff)
  moreover have "ctl_inv st (Suc k) (snd (route lookup st req c))"
    using route_inv [OF assms Cons.prems(1)] Cons.prems(2,3) by simp
  ultimately show ?case using Cons.IH [of "Suc k"] Cons.prems(3) by (simp add: split_beta Let_def)
qed simp

text \<open>Only importing a preset may both fail and have changed something.\<close>

lemma route_error_unchanged:
  assumes "topo_laws app" "lookup_laws lookup" "\<forall>p. req \<noteq> PostPreset p" "route lookup st req c = ((code, body), c')" "400 \<le> code"
  shows "unchanged st c c'"
proof (cases req)
  case (PostNodes spec)
  obtain r c1 where r: "create_node st spec c = (r, c1)" by fastforce
  then have "r = Err e \<Longrightarrow> unchanged st c c1" for e by (cases rule: create_node_cases) auto
  then show ?thesis
    using assms(4,5) PostNodes r by (cases r) (simp_all add: create_node_handler_def)
next
  case (DeleteNode i)
  obtain r c1 where r: "delete_node lookup st i c = (r, c1)" by fastforce
  then have "r = Err e \<Longrightarrow> unchanged st c c1" for e by (cases rule: delete_node_cases) auto
  then show ?thesis
    using assms(4,5) DeleteNode r by (cases r) (simp_all add: delete_node_handler_def no_content_def)
next
  case (PostLinks req')
  obtain r c1 where r: "link_ports lookup st (lr_from req') (case lr_from_port req' of None \<Rightarrow> 0 | Some p \<Rightarrow> p)
             (lr_to req') (case lr_to_port req' of None \<Rightarrow> 0 | Some p \<Rightarrow> p) c = (r, c1)" by fastforce
  from assms(1,2) r have "r = Err e \<Longrightarrow> unchanged st c c1" for e by (cases rule: link_ports_cases) auto
  then show ?thesis
    using assms(4,5) PostLinks r by (cases r) (simp_all add: create_link_def)
next
  case (DeleteLink i)
  obtain r c1 where r: "delete_link st i c = (r, c1)" by fastforce
  then have "r = Err e \<Longrightarrow> unchanged st c c1" for e by (cases rule: delete_link_cases) auto
  then show ?thesis
    using assms(4,5) DeleteLink r by (cases r) (simp_all add: delete_link_handler_def no_content_def)
qed (use assms(3-5) in \<open>auto simp: unchanged_def\<close>)

lemma create_node_listed:
  assumes "topo_laws app" "ctl_inv st k c" "Suc k < 2 ^ 64" "create_node st spec c = (Ok i, c')"
  shows "i \<notin> set (map ni_id (list_nodes st c)) \<and>
    list_nodes st c' = list_nodes st c @
      [\<lparr>ni_id = i, ni_label = sp_label spec, ni_inputs = sp_inputs spec, ni_outputs = sp_outputs spec,
        ni_kind = (case sp_kind spec of None \<Rightarrow> map_option kind_name (sp_params spec) | Some kd \<Rightarrow> Some kd),
        ni_params = sp_params spec\<rparr>] \<and>
    list_links st c' = list_links st c"
  using assms(4)
proof (cases rule: create_node_cases)
  case (created spec' j)
  let ?t = "get_topology st (store c)"
  have ids: "\<forall>i \<in> set (node_ids ?t). unat i \<le> k" using assms(2) by (auto simp: ctl_inv_def api_inv_def)
  have fresh: "i \<notin> set (node_ids ?t)" using next_node_id_fresh(1) [OF ids assms(3)] created(3,4) by simp
  have none: "kinds c i = None" "params c i = None"
  proof -
    show kd: "kinds c i = None" using assms(2) fresh by (auto simp: ctl_inv_def api_inv_def)
    show "params c i = None" using assms(2) kd by (cases "params c i") (auto simp: ctl_inv_def api_inv_def)
  qed
  have t: "get_topology st (store c') = ?t\<lparr>t_nodes := t_nodes ?t @ [spec_node i spec']\<rparr>"
    using topo_lawsD(1) [OF assms(1), of "spec_node i spec'" ?t] fresh created(4,5) by (simp add: spec_node_def)
  have old: "node_info c' n = node_info c n" if "n \<in> set (t_nodes ?t)" for n
  proof -
    have "ns_id n \<noteq> i" using that fresh by (auto simp: node_ids_def)
    then show ?thesis
      using created(4,6-8) by (cases "sp_kind spec'"; cases "sp_params spec") (simp_all add: node_info_def node_label_def)
  qed
  have "sp_kind spec' = (case sp_kind spec of None \<Rightarrow> map_option kind_name (sp_params spec) | Some kd \<Rightarrow> Some kd)"
    using resolve_kind_Ok(5,6) [OF created(2)] by (cases "sp_kind spec"; cases "sp_params spec") auto
  moreover have "node_info c' (spec_node i spec') =
      \<lparr>ni_id = i, ni_label = sp_label spec, ni_inputs = sp_inputs spec, ni_outputs = sp_outputs spec,
        ni_kind = sp_kind spec', ni_params = sp_params spec\<rparr>"
    using created(4,6-8) none resolve_kind_Ok(2,3) [OF created(2)]
    by (cases "sp_kind spec'"; cases "sp_params spec") (simp_all add: node_info_def node_label_def spec_node_def)
  ultimately show ?thesis
    using fresh old by (auto simp: list_nodes_def list_links_def t node_ids_def node_info_def comp_def)
qed simp

lemma import_preset_lists:
  assumes "topo_laws app" "ctl_inv st k c" "preset_ok k p" "import_preset st p c = (Ok (), c')"
  shows "pr_nodes (export_preset st c') = pr_nodes p \<and> pr_links (export_preset st c') = pr_links p \<and>
    get_topology st (store c') = preset_topology p"
proof -
  have t: "get_topology st (store c') = preset_topology p" and rec: "\<forall>n \<in> set (pr_nodes p). recorded c' n"
    using import_preset_cases [OF assms] by simp_all
  have "(\<lambda>n. \<lparr>pn_id = ni_id n, pn_label = ni_label n, pn_inputs = ni_inputs n, pn_outputs = ni_outputs n,
          pn_kind = ni_kind n, pn_params = ni_params n\<rparr>) (node_info c' (preset_node n)) = n"
    if "n \<in> set (pr_nodes p)" for n
    using that rec by (simp add: node_info_def node_label_def preset_node_def recorded_def)
  moreover have "(\<lambda>l. \<lparr>pl_from = lk_from l, pl_from_port = lk_from_port l, pl_to = lk_to l,
          pl_to_port = lk_to_port l\<rparr>) (link_info (i, preset_edge l)) = l" for i l
    by (simp add: link_info_def preset_edge_def ucast_down_ucast_id is_down)
  ultimately show ?thesis
    by (auto simp: export_preset_def list_nodes_def list_links_def t preset_topology_def Let_def
        intro!: nth_equalityI map_idI)
qed

end

section \<open>What an exported preset describes\<close>

lemma unat_to_u16: "unat p < 2 ^ 16 \<Longrightarrow> unat (ucast p :: u16) = unat p" for p :: u64
  by (simp add: unsigned_ucast_eq take_bit_nat_eq_self)

lemma u16_port_back: "unat p < 2 ^ 16 \<Longrightarrow> ucast (ucast p :: u16) = p" for p :: u64
  by (rule word_unat_eq_iff [THEN iffD2]) (simp add: unat_port unat_to_u16)

lemma unat_count:
  assumes "xs = build_ports (of_nat (length xs)) d"
  shows "unat (of_nat (length xs) :: u16) = length xs"
  using arg_cong [OF assms, of length] by simp

lemma built_port:
  assumes "port_of t ports q" "\<forall>n \<in> set (t_nodes t). ports n = build_ports (of_nat (length (ports n))) d"
  obtains n where "n \<in> set (t_nodes t)" "ns_id n = fst q" "unat (snd q) < 2 ^ 16"
    "(ucast (snd q) :: u16) < of_nat (length (ports n))"
proof -
  obtain n where n: "n \<in> set (t_nodes t)" "ns_id n = fst q" "unat (snd q) < length (ports n)"
    using assms(1) by (auto simp: port_of_def)
  have len: "unat (of_nat (length (ports n)) :: u16) = length (ports n)" using assms(2) n(1) by (blast intro: unat_count)
  then have "unat (snd q) < 2 ^ 16" using n(3) unsigned_less [of "of_nat (length (ports n)) :: u16", where ?'a = nat] by simp
  moreover from this have "(ucast (snd q) :: u16) < of_nat (length (ports n))"
    using n(3) len by (simp add: word_less_nat_alt unat_to_u16)
  ultimately show ?thesis using that n(1,2) by blast
qed

lemma export_preset_nodes:
  "pr_nodes (export_preset st c) =
     map (\<lambda>n. \<lparr>pn_id = ns_id n, pn_label = node_label c (ns_id n), pn_inputs = of_nat (length (ns_inputs n)),
              pn_outputs = of_nat (length (ns_outputs n)), pn_kind = kinds c (ns_id n), pn_params = params c (ns_id n)\<rparr>)
       (t_nodes (get_topology st (store c)))"
  by (simp add: export_preset_def list_nodes_def node_info_def)

lemma export_preset_links:
  "pr_links (export_preset st c) =
     map (\<lambda>e. \<lparr>pl_from = fst (se_from e), pl_from_port = ucast (snd (se_from e)), pl_to = fst (se_to e),
              pl_to_port = ucast (snd (se_to e))\<rparr>) (t_edges (get_topology st (store c)))"
  by (auto simp: export_preset_def list_links_def link_info_def Let_def intro!: nth_equalityI)

lemma export_preset_ok:
  assumes "ctl_inv st k c"
  shows "preset_ok k (export_preset st c)" "preset_topology (export_preset st c) = get_topology st (store c)"
proof -
  let ?t = "get_topology st (store c)"
  have wf: "graph_wf ?t" and built: "\<forall>n \<in> set (t_nodes ?t). built_node n"
    and ids: "\<forall>i \<in> set (node_ids ?t). unat i \<le> k" and agree: "\<forall>i p. params c i = Some p \<longrightarrow> kinds c i = Some (kind_name p)"
    using assms by (simp_all add: ctl_inv_def api_inv_def)
  have ins: "\<forall>n \<in> set (t_nodes ?t). ns_inputs n = build_ports (of_nat (length (ns_inputs n))) Input"
    and outs: "\<forall>n \<in> set (t_nodes ?t). ns_outputs n = build_ports (of_nat (length (ns_outputs n))) Output"
    using built by (auto simp: built_node_def)
  have e: "port_of ?t ns_outputs (se_from e)" "port_of ?t ns_inputs (se_to e)" if "e \<in> set (t_edges ?t)" for e
    using wf that by (auto simp: graph_wf_def edge_ok_def)
  have "\<exists>n \<in> set (t_nodes ?t). ns_id n = fst (se_from e) \<and> (ucast (snd (se_from e)) :: u16) < of_nat (length (ns_outputs n))"
    if "e \<in> set (t_edges ?t)" for e using e(1) [OF that] outs by (rule built_port) blast
  moreover have "\<exists>n \<in> set (t_nodes ?t). ns_id n = fst (se_to e) \<and> (ucast (snd (se_to e)) :: u16) < of_nat (length (ns_inputs n))"
    if "e \<in> set (t_edges ?t)" for e using e(2) [OF that] ins by (rule built_port) blast
  ultimately show "preset_ok k (export_preset st c)"
    using wf ids agree
    by (auto simp: preset_ok_def export_preset_nodes export_preset_links node_ok_def graph_wf_def node_ids_def comp_def)
  have "unat (snd (se_from e)) < 2 ^ 16" "unat (snd (se_to e)) < 2 ^ 16" if "e \<in> set (t_edges ?t)" for e
    using e(1) [OF that] outs e(2) [OF that] ins by (auto elim: built_port)
  then have "preset_edge \<lparr>pl_from = fst (se_from e), pl_from_port = ucast (snd (se_from e)), pl_to = fst (se_to e),
      pl_to_port = ucast (snd (se_to e))\<rparr> = e" if "e \<in> set (t_edges ?t)" for e
    using that by (simp add: preset_edge_def u16_port_back)
  then have "map preset_edge (pr_links (export_preset st c)) = t_edges ?t"
    unfolding export_preset_links by (simp add: map_idI)
  moreover have "map preset_node (pr_nodes (export_preset st c)) = t_nodes ?t"
    unfolding export_preset_nodes using ins outs by (simp add: preset_node_def map_idI)
  ultimately show "preset_topology (export_preset st c) = ?t" by (simp add: preset_topology_def)
qed

section \<open>The properties, on the single-node engine\<close>

lemma ctl_inv_new:
  assumes "graph_wf (get_topology st s)" "\<forall>n \<in> set (t_nodes (get_topology st s)). built_node n \<and> unat (ns_id n) \<le> k"
  shows "ctl_inv st k (GraphController_new s)"
  using assms by (auto simp: ctl_inv_def api_inv_def GraphController_new_def new_with_registries_def node_ids_def)


text \<open>
  Creating a node. When \<open>create_node\<close> succeeds, the returned id was not in use, and the listing of the
  nodes grows by exactly the requested node, with its label, port counts and parameters, its kind being the
  requested one or, when none is given, that of the parameters; the links are as before.\<close>

theorem create_node_adds:
  assumes "topo_laws app" "ctl_inv (engine_store ops cdc app) k c" "Suc k < 2 ^ 64"
    "create_node (engine_store ops cdc app) spec c = (Ok i, c')"
  shows "i \<notin> set (map ni_id (list_nodes (engine_store ops cdc app) c)) \<and>
    list_nodes (engine_store ops cdc app) c' = list_nodes (engine_store ops cdc app) c @
      [\<lparr>ni_id = i, ni_label = sp_label spec, ni_inputs = sp_inputs spec, ni_outputs = sp_outputs spec,
        ni_kind = (case sp_kind spec of None \<Rightarrow> map_option kind_name (sp_params spec) | Some kd \<Rightarrow> Some kd),
        ni_params = sp_params spec\<rparr>] \<and>
    list_links (engine_store ops cdc app) c' = list_links (engine_store ops cdc app) c"
  by (rule engine.create_node_listed [OF assms])


text \<open>
  C34: an error answer changes nothing. A request other than the import of a preset that is answered with
  an error status leaves the topology and the registries as they were.\<close>

theorem rest_error_no_change:
  assumes "topo_laws app" "lookup_laws lookup" "\<forall>p. req \<noteq> PostPreset p"
    "route lookup (engine_store ops cdc app) req c = ((code, body), c')" "400 \<le> code"
  shows "unchanged (engine_store ops cdc app) c c'"
  by (rule engine.route_error_unchanged [OF assms])

section \<open>Examples\<close>

text \<open>A store that accepts every mutation, and a controller on it.\<close>

definition blind_serde :: "Mutation serde" where
  "blind_serde = \<lparr>ser = (\<lambda>m. Ok []), de = (\<lambda>b. Err ''unreadable'')\<rparr>"

abbreviation demo_store :: "memdb EngineState store_ops" where
  "demo_store \<equiv> engine_store memdb_ops blind_serde plain_apply"

definition demo_spec :: "string \<Rightarrow> u16 \<Rightarrow> u16 \<Rightarrow> NodeParams option \<Rightarrow> NodeSpec" where
  "demo_spec l a b ps = \<lparr>sp_label = l, sp_inputs = a, sp_outputs = b, sp_kind = None, sp_params = ps\<rparr>"

definition demo_requests :: "Request list" where
  "demo_requests =
     [PostNodes (demo_spec ''mic'' 0 1 None), PostNodes (demo_spec ''level'' 1 1 (Some (Gain 0x3F000000))),
      PostLinks \<lparr>lr_from = 1, lr_from_port = None, lr_to = 2, lr_to_port = Some 0\<rparr>]"

abbreviation demo_ctl :: "memdb EngineState GraphController" where
  "demo_ctl \<equiv> GraphController_new fresh_engine"

lemma demo_ctl_inv: "ctl_inv demo_store k demo_ctl"
  by (rule ctl_inv_new) (simp_all add: engine_store_def fresh_engine_def graph_wf_empty, simp add: topology_empty_def)


text \<open>The engine's answer to a mutation, computed.\<close>

lemma demo_store_apply:
  "get_topology demo_store s = snapshot s"
  "\<exists>d. apply_mutation demo_store m s = (Ok (next_id s), s\<lparr>edb := d, snapshot := plain_apply (snapshot s) m,
     next_id := next_id s + 1, events := events s @ [mutation_to_event m]\<rparr>)"
  by (auto simp: engine_store_def RaftEngine_apply_mutation_def blind_serde_def persist_def write_txn_def memdb_ops_def
      Let_def)

lemma demo_create: "\<exists>c'. create_node demo_store (demo_spec ''level'' 1 1 (Some (Gain 0x3F000000))) demo_ctl = (Ok 1, c')"
proof -
  let ?n = "\<lparr>ns_id = 1, ns_inputs = build_ports 1 Input, ns_outputs = build_ports 1 Output\<rparr>"
  obtain d where "apply_mutation demo_store (AddNode ?n) fresh_engine = (Ok (next_id fresh_engine),
      fresh_engine\<lparr>edb := d, snapshot := plain_apply (snapshot fresh_engine) (AddNode ?n),
        next_id := next_id fresh_engine + 1, events := events fresh_engine @ [mutation_to_event (AddNode ?n)]\<rparr>)"
    using demo_store_apply(2) by blast
  moreover have "next_node_id (get_topology demo_store fresh_engine) = 1"
    by (simp add: demo_store_apply(1) fresh_engine_def topology_empty_def next_node_id_def node_ids_def saturating_add_def)
  ultimately show ?thesis
    by (simp add: create_node_def demo_spec_def trim_def is_whitespace_def resolve_kind_def GraphController_new_def
        new_with_registries_def)
qed

theorem create_node_adds_witness:
  "\<exists>c'. create_node demo_store (demo_spec ''level'' 1 1 (Some (Gain 0x3F000000))) demo_ctl = (Ok 1, c') \<and>
     list_nodes demo_store c' =
       [\<lparr>ni_id = 1, ni_label = ''level'', ni_inputs = 1, ni_outputs = 1, ni_kind = Some ''gain'', ni_params = Some (Gain 0x3F000000)\<rparr>]"
proof -
  obtain c' where c': "create_node demo_store (demo_spec ''level'' 1 1 (Some (Gain 0x3F000000))) demo_ctl = (Ok 1, c')"
    using demo_create by blast
  have "list_nodes demo_store demo_ctl = []"
    by (simp add: list_nodes_def demo_store_apply(1) GraphController_new_def new_with_registries_def fresh_engine_def topology_empty_def)
  with create_node_adds [OF plain_apply_laws demo_ctl_inv [of 0] _ c'] c' show ?thesis by (simp add: demo_spec_def)
qed

text \<open>A store that holds a topology, and a controller that serves a graph of two linked nodes.\<close>

definition held :: "TopologySnapshot store_ops" where
  "held = \<lparr>get_topology = id, apply_mutation = (\<lambda>m t. (Ok 0, plain_apply t m))\<rparr>"

definition linked :: "TopologySnapshot GraphController" where
  "linked =
     \<lparr>store = \<lparr>t_nodes = [\<lparr>ns_id = 1, ns_inputs = [], ns_outputs = build_ports 1 Output\<rparr>,
                         \<lparr>ns_id = 7, ns_inputs = build_ports 2 Input, ns_outputs = []\<rparr>],
              t_edges = [\<lparr>se_from = (1, 0), se_to = (7, 1)\<rparr>]\<rparr>,
      labels = [7 \<mapsto> ''out''], kinds = [7 \<mapsto> ''meter''], params = [7 \<mapsto> Meter]\<rparr>"

lemma linked_inv: "ctl_inv held 7 linked"
  by (simp add: ctl_inv_def api_inv_def held_def linked_def graph_wf_def node_ids_def edge_ok_def port_of_def
      built_node_def build_ports_def)

lemma demo_import: "\<exists>c'. import_preset demo_store (export_preset held linked) demo_ctl = (Ok (), c')"
proof -
  have acc: "\<exists>i s'. apply_mutation demo_store m s = (Inr i, s')" for m s using demo_store_apply(2) by blast
  have "\<exists>c'. import_nodes demo_store ns c = (Inr (), c')" for ns and c :: "memdb EngineState GraphController"
  proof (induction ns arbitrary: c)
    case (Cons n ns)
    then show ?case using acc [of "AddNode (preset_node n)" "store c"] by auto
  qed simp
  moreover have "\<exists>c'. import_links demo_store ls c = (Inr (), c')" for ls and c :: "memdb EngineState GraphController"
  proof (induction ls arbitrary: c)
    case (Cons l ls)
    then show ?case using acc [of "AddLink (preset_edge l)" "store c"] by auto
  qed simp
  moreover have "\<exists>c'. import_clear demo_store ids c = (Inr (), c')" for ids and c :: "memdb EngineState GraphController"
  proof (induction ids arbitrary: c)
    case (Cons i ids)
    then show ?case using acc [of "RemoveNode i" "store c"] by auto
  qed simp
  ultimately show ?thesis unfolding import_preset_def by (auto split: prod.split sum.split) (metis Pair_inject sum.distinct(1))+
qed


theorem rest_error_no_change_witness:
  "\<exists>body c'. route plain_lookup demo_store (DeleteNode 4) demo_ctl = ((404, body), c') \<and> unchanged demo_store demo_ctl c'"
proof -
  obtain body c' where c': "route plain_lookup demo_store (DeleteNode 4) demo_ctl = ((404, body), c')"
    by (simp add: delete_node_handler_def delete_node_def no_content_def status_for_def plain_lookup_def demo_store_apply(1)
        GraphController_new_def new_with_registries_def fresh_engine_def topology_empty_def)
  from rest_error_no_change [OF plain_apply_laws plain_lookup_laws _ c'] c' show ?thesis by simp
qed

end
