(* ===== verification/Audio_Engine.thy ===== *)
theory Audio_Engine
  imports Session_Store
begin

text \<open>
  The audio engine (\<open>audio-engine/src/lib.rs\<close>): building a graph from a topology snapshot and a node
  factory, the task that rebuilds it when the topology changes, and the engine that processes cycles and
  swaps a rebuilt graph in between them. The graph itself is another crate's: its operations are a
  parameter with the laws its callers rely on. The factory works on some state \<open>'w\<close> (the registries and
  the gateway bridge), which building a node may change.
\<close>

section \<open>Building a graph\<close>

datatype 'n BuiltNode = Plain 'n | Sink 'n

datatype EngineError = Build string

record ('g, 'n, 'c) graph_ops =
  g_new :: 'g
  g_add_node :: "'n \<Rightarrow> 'g \<Rightarrow> NodeId \<times> 'g"
  g_add_sink :: "'n \<Rightarrow> 'g \<Rightarrow> NodeId \<times> 'g"
  g_link :: "NodeId \<times> u64 \<Rightarrow> NodeId \<times> u64 \<Rightarrow> 'g \<Rightarrow> string + 'g"
  g_compile :: "'g \<Rightarrow> string + 'g"
  g_process_cycle :: "'c \<Rightarrow> 'g \<Rightarrow> string option \<times> 'c \<times> 'g"
  g_flush_sinks :: "'g \<Rightarrow> (nat \<times> string option) \<times> 'g"

type_synonym ('n, 'w) factory = "NodeId \<Rightarrow> 'w \<Rightarrow> 'n BuiltNode option \<times> 'w"

definition add_built :: "('g, 'n, 'c) graph_ops \<Rightarrow> 'n BuiltNode \<Rightarrow> 'g \<Rightarrow> NodeId \<times> 'g" where
  "add_built gops built g = (case built of Plain node \<Rightarrow> g_add_node gops node g | Sink sink \<Rightarrow> g_add_sink gops sink g)"

primrec build_nodes ::
  "('g, 'n, 'c) graph_ops \<Rightarrow> ('n, 'w) factory \<Rightarrow> NodeSnapshot list \<Rightarrow> 'g \<Rightarrow> (NodeId \<rightharpoonup> NodeId) \<Rightarrow> 'w
   \<Rightarrow> (EngineError + 'g \<times> (NodeId \<rightharpoonup> NodeId)) \<times> 'w" where
  "build_nodes gops factory [] g id_map w = (Ok (g, id_map), w)"
| "build_nodes gops factory (ns # nss) g id_map w =
     (case factory (ns_id ns) w of
        (None, w) \<Rightarrow> (Err (Build (''factory returned None for node '' @ show_word (ns_id ns))), w)
      | (Some built, w) \<Rightarrow>
          (let (new_id, g) = add_built gops built g
           in build_nodes gops factory nss g (id_map(ns_id ns \<mapsto> new_id)) w))"

primrec link_edges ::
  "('g, 'n, 'c) graph_ops \<Rightarrow> (NodeId \<rightharpoonup> NodeId) \<Rightarrow> SnapshotEdge list \<Rightarrow> 'g \<Rightarrow> EngineError + 'g" where
  "link_edges gops id_map [] g = Ok g"
| "link_edges gops id_map (edge # edges) g =
     rbind (ok_or (Build (''edge from unknown node '' @ show_word (fst (se_from edge)))) (id_map (fst (se_from edge)))) (\<lambda>from_node.
     rbind (ok_or (Build (''edge to unknown node '' @ show_word (fst (se_to edge)))) (id_map (fst (se_to edge)))) (\<lambda>to_node.
     rbind (map_err Build (g_link gops (from_node, snd (se_from edge)) (to_node, snd (se_to edge)) g)) (\<lambda>g.
     link_edges gops id_map edges g)))"

definition build_graph ::
  "('g, 'n, 'c) graph_ops \<Rightarrow> ('n, 'w) factory \<Rightarrow> TopologySnapshot \<Rightarrow> 'w \<Rightarrow> (EngineError + 'g) \<times> 'w" where
  "build_graph gops factory snap w =
     (case build_nodes gops factory (t_nodes snap) (g_new gops) Map.empty w of
        (Inl e, w) \<Rightarrow> (Err e, w)
      | (Inr (g, id_map), w) \<Rightarrow>
          (rbind (link_edges gops id_map (t_edges snap) g) (\<lambda>g. map_err Build (g_compile gops g)), w))"

section \<open>The engine\<close>

record 'g GraphEngine =
  graph :: 'g
  slot :: "'g option"

definition GraphEngine_step ::
  "('g, 'n, 'c) graph_ops \<Rightarrow> 'c \<Rightarrow> 'g GraphEngine \<Rightarrow> 'c \<times> 'g GraphEngine" where
  "GraphEngine_step gops ctx eng =
     (let (_, ctx, g) = g_process_cycle gops ctx (graph eng);
          (_, g) = g_flush_sinks gops g
      in (ctx, case slot eng of Some new_graph \<Rightarrow> \<lparr>graph = new_graph, slot = None\<rparr> | None \<Rightarrow> eng\<lparr>graph := g\<rparr>))"

definition rebuild_once ::
  "('g, 'n, 'c) graph_ops \<Rightarrow> 's store_ops \<Rightarrow> ('n, 'w) factory \<Rightarrow> 's \<Rightarrow> 'w \<Rightarrow> 'g option \<Rightarrow> 'g option \<times> 'w" where
  "rebuild_once gops st factory s w sl =
     (case build_graph gops factory (get_topology st s) w of
        (Inr g, w) \<Rightarrow> (Some g, w)
      | (Inl _, w) \<Rightarrow> (sl, w))"

definition mono_port :: "PortDir \<Rightarrow> PortMeta list" where
  "mono_port d = [\<lparr>direction = d, pm_channels = 1, sample_format = SampleF32\<rparr>]"

section \<open>What the graph promises\<close>

text \<open>
  Nodes are numbered from 0 in the order they are added; an accepted link is recorded; compiling changes
  neither.
\<close>

definition graph_laws ::
  "('g, 'n, 'c) graph_ops \<Rightarrow> ('g \<Rightarrow> 'n BuiltNode list) \<Rightarrow> ('g \<Rightarrow> ((NodeId \<times> u64) \<times> (NodeId \<times> u64)) list) \<Rightarrow> bool" where
  "graph_laws gops gnodes gedges \<longleftrightarrow>
     gnodes (g_new gops) = [] \<and> gedges (g_new gops) = [] \<and>
     (\<forall>n g. fst (g_add_node gops n g) = of_nat (length (gnodes g)) \<and>
        gnodes (snd (g_add_node gops n g)) = gnodes g @ [Plain n] \<and> gedges (snd (g_add_node gops n g)) = gedges g) \<and>
     (\<forall>n g. fst (g_add_sink gops n g) = of_nat (length (gnodes g)) \<and>
        gnodes (snd (g_add_sink gops n g)) = gnodes g @ [Sink n] \<and> gedges (snd (g_add_sink gops n g)) = gedges g) \<and>
     (\<forall>a b g g'. g_link gops a b g = Ok g' \<longrightarrow> gnodes g' = gnodes g \<and> gedges g' = gedges g @ [(a, b)]) \<and>
     (\<forall>g g'. g_compile gops g = Ok g' \<longrightarrow> gnodes g' = gnodes g \<and> gedges g' = gedges g)"

lemma graph_laws_add:
  assumes "graph_laws gops gnodes gedges" "add_built gops b g = (i, g')"
  shows "i = of_nat (length (gnodes g))" "gnodes g' = gnodes g @ [b]" "gedges g' = gedges g"
  using assms(1) arg_cong [OF assms(2), of fst] arg_cong [OF assms(2), of snd]
  by (cases b; auto simp: graph_laws_def add_built_def)+

text \<open>What the factory answers for a list of ids.\<close>

primrec factory_all :: "('n, 'w) factory \<Rightarrow> NodeId list \<Rightarrow> 'w \<Rightarrow> 'n BuiltNode list option \<times> 'w" where
  "factory_all factory [] w = (Some [], w)"
| "factory_all factory (i # ids) w =
     (case factory i w of
        (None, w) \<Rightarrow> (None, w)
      | (Some b, w) \<Rightarrow> (let (bs, w) = factory_all factory ids w in (map_option ((#) b) bs, w)))"

text \<open>The map of the ids sends the id of the \<open>j\<close>th node to \<open>j\<close>.\<close>

definition positions :: "NodeId list \<Rightarrow> (NodeId \<rightharpoonup> NodeId) \<Rightarrow> bool" where
  "positions ids f \<longleftrightarrow> dom f = set ids \<and> (\<forall>i k. f i = Some k \<longrightarrow> unat k < length ids \<and> ids ! unat k = i)"

lemma positions_Nil: "positions [] Map.empty"
  by (simp add: positions_def)

lemma build_nodes_Ok:
  assumes "graph_laws gops gnodes gedges"
  shows "build_nodes gops factory nss g f w = (Ok (g', f'), w') \<Longrightarrow> positions ids f \<Longrightarrow> length (gnodes g) = length ids \<Longrightarrow>
    distinct (ids @ map ns_id nss) \<Longrightarrow> length ids + length nss < 2 ^ 64 \<Longrightarrow>
    (\<exists>bs. factory_all factory (map ns_id nss) w = (Some bs, w') \<and> gnodes g' = gnodes g @ bs) \<and> gedges g' = gedges g \<and>
    positions (ids @ map ns_id nss) f'"
proof (induction nss arbitrary: g f w ids)
  case (Cons ns nss)
  obtain b w1 where b: "factory (ns_id ns) w = (Some b, w1)"
    using Cons.prems(1) by (auto split: prod.splits option.splits)
  obtain i g1 where i: "add_built gops b g = (i, g1)" by fastforce
  note add = graph_laws_add [OF assms i]
  have "unat i = length ids" using add(1) Cons.prems(3,5) by (simp add: unat_of_nat take_bit_nat_eq_self)
  then have pos: "positions (ids @ [ns_id ns]) (f(ns_id ns \<mapsto> i))"
    using Cons.prems(2,4) by (fastforce simp: positions_def nth_append less_Suc_eq split: if_splits)
  have step: "build_nodes gops factory nss g1 (f(ns_id ns \<mapsto> i)) w1 = (Ok (g', f'), w')"
    using Cons.prems(1) b i by simp
  have "(\<exists>bs. factory_all factory (map ns_id nss) w1 = (Some bs, w') \<and> gnodes g' = gnodes g1 @ bs) \<and>
      gedges g' = gedges g1 \<and> positions ((ids @ [ns_id ns]) @ map ns_id nss) f'"
    by (rule Cons.IH [OF step pos]) (use Cons.prems(3-5) add(2) in simp_all)
  then show ?case using b add(2,3) by auto
qed (auto simp: positions_def)

definition relocated :: "NodeId list \<Rightarrow> SnapshotEdge \<Rightarrow> (NodeId \<times> u64) \<times> (NodeId \<times> u64) \<Rightarrow> bool" where
  "relocated ids e = (\<lambda>((a, p), (b, q)).
     unat a < length ids \<and> ids ! unat a = fst (se_from e) \<and> p = snd (se_from e) \<and>
     unat b < length ids \<and> ids ! unat b = fst (se_to e) \<and> q = snd (se_to e))"

lemma link_edges_Ok:
  assumes "graph_laws gops gnodes gedges" "positions ids f"
  shows "link_edges gops f es g = Ok g' \<Longrightarrow>
    gnodes g' = gnodes g \<and> (\<exists>ls. gedges g' = gedges g @ ls \<and> list_all2 (relocated ids) es ls)"
proof (induction es arbitrary: g)
  case (Cons e es)
  obtain a b g1 where a: "f (fst (se_from e)) = Some a" "f (fst (se_to e)) = Some b"
    and g1: "g_link gops (a, snd (se_from e)) (b, snd (se_to e)) g = Ok g1" and r: "link_edges gops f es g1 = Ok g'"
    using Cons.prems by (auto simp: rbind_eq_Ok_iff ok_or_eq_Ok_iff map_err_eq_Ok_iff)
  have "relocated ids e ((a, snd (se_from e)), (b, snd (se_to e)))"
    using a assms(2) by (auto simp: relocated_def positions_def)
  moreover have "gnodes g1 = gnodes g" "gedges g1 = gedges g @ [((a, snd (se_from e)), (b, snd (se_to e)))]"
    using assms(1) g1 by (auto simp: graph_laws_def)
  ultimately show ?case using Cons.IH [OF r] by auto
qed simp

text \<open>
  C20: the built graph is the topology. When building succeeds on a topology with different node ids, the
  graph's nodes are what the factory gave for the ids, in order, and its links are the topology's, in order,
  every end moved to the position of its node and with its port kept.\<close>

theorem build_graph_faithful:
  assumes "graph_laws gops gnodes gedges" "distinct (node_ids snap)" "length (t_nodes snap) < 2 ^ 64"
    "build_graph gops factory snap w = (Ok g, w')"
  shows "(\<exists>bs. factory_all factory (node_ids snap) w = (Some bs, w') \<and> gnodes g = bs) \<and>
    list_all2 (relocated (node_ids snap)) (t_edges snap) (gedges g)"
proof -
  obtain g1 f where n: "build_nodes gops factory (t_nodes snap) (g_new gops) Map.empty w = (Ok (g1, f), w')"
    and l: "rbind (link_edges gops f (t_edges snap) g1) (\<lambda>g. map_err Build (g_compile gops g)) = Ok g"
    using assms(4) by (auto simp: build_graph_def split: prod.splits sum.splits)
  have new: "gnodes (g_new gops) = []" "gedges (g_new gops) = []" using assms(1) by (simp_all add: graph_laws_def)
  have nodes: "(\<exists>bs. factory_all factory (node_ids snap) w = (Some bs, w') \<and> gnodes g1 = bs) \<and> gedges g1 = []"
      "positions (node_ids snap) f"
    using build_nodes_Ok [OF assms(1) n positions_Nil] assms(2,3) new by (simp_all add: node_ids_def)
  obtain g2 where g2: "link_edges gops f (t_edges snap) g1 = Ok g2" "g_compile gops g2 = Ok g"
    using l by (auto simp: rbind_eq_Ok_iff map_err_eq_Ok_iff)
  have "gnodes g = gnodes g2" "gedges g = gedges g2" using assms(1) g2(2) by (auto simp: graph_laws_def)
  with link_edges_Ok [OF assms(1) nodes(2) g2(1)] nodes(1) show ?thesis by auto
qed

section \<open>The rebuild task beside the engine and the store\<close>

text \<open>
  The three threads take steps one at a time. A mutation first changes the topology and later hands its
  event to the channel (\<open>unsent\<close>, then \<open>pending\<close>); the task polls the channel (\<open>Poll\<close>), and on an event,
  or when told that events were dropped, reads the topology (\<open>Read\<close>), builds (\<open>Building\<close>) and stores the
  outcome (\<open>Storing\<close>); it starts with one rebuild. The engine takes the slot between cycles. \<open>built t k\<close> is
  the graph built from topology \<open>t\<close> when the factory finds the registries \<open>k\<close>, if building succeeds:
  \<open>built_from\<close> for the code's own builder.
  Closing the channel ends the task and is not a step.
\<close>

definition built_from :: "('g, 'n, 'c) graph_ops \<Rightarrow> ('n, 'w) factory \<Rightarrow> TopologySnapshot \<Rightarrow> 'w \<Rightarrow> 'g option" where
  "built_from gops factory t k = (case fst (build_graph gops factory t k) of Inl _ \<Rightarrow> None | Inr g \<Rightarrow> Some g)"

datatype ('t, 'g) task_pc = Poll | Read | Building 't | Storing "'g option"

record ('t, 'k, 'g) rebuild_state =
  rs_topo :: 't
  rs_regs :: 'k
  unsent :: nat
  pending :: nat
  task_pc :: "('t, 'g) task_pc"
  rs_slot :: "'g option"
  rs_live :: 'g

definition rebuild_start :: "'t \<Rightarrow> 'k \<Rightarrow> 'g \<Rightarrow> ('t, 'k, 'g) rebuild_state" where
  "rebuild_start t k g =
     \<lparr>rs_topo = t, rs_regs = k, unsent = 0, pending = 0, task_pc = Read, rs_slot = None, rs_live = g\<rparr>"

inductive work :: "('t \<Rightarrow> 'k \<Rightarrow> 'g option) \<Rightarrow> ('t, 'k, 'g) rebuild_state \<Rightarrow> ('t, 'k, 'g) rebuild_state \<Rightarrow> bool"
  for built where
  send: "unsent s = Suc n \<Longrightarrow> work built s (s\<lparr>unsent := n, pending := Suc (pending s)\<rparr>)"
| event: "task_pc s = Poll \<Longrightarrow> pending s = Suc n \<Longrightarrow> work built s (s\<lparr>pending := n, task_pc := Read\<rparr>)"
| lagged: "task_pc s = Poll \<Longrightarrow> n < pending s \<Longrightarrow> work built s (s\<lparr>pending := n, task_pc := Read\<rparr>)"
| read_topology: "task_pc s = Read \<Longrightarrow> work built s (s\<lparr>task_pc := Building (rs_topo s)\<rparr>)"
| build: "task_pc s = Building t \<Longrightarrow> work built s (s\<lparr>task_pc := Storing (built t (rs_regs s))\<rparr>)"
| store: "task_pc s = Storing r \<Longrightarrow>
    work built s (s\<lparr>rs_slot := (case r of None \<Rightarrow> rs_slot s | Some g \<Rightarrow> Some g), task_pc := Poll\<rparr>)"
| swap: "rs_slot s = Some g \<Longrightarrow> work built s (s\<lparr>rs_live := g, rs_slot := None\<rparr>)"

inductive tick :: "('t \<Rightarrow> 'k \<Rightarrow> 'g option) \<Rightarrow> ('t, 'k, 'g) rebuild_state \<Rightarrow> ('t, 'k, 'g) rebuild_state \<Rightarrow> bool"
  for built where
  "work built s s' \<Longrightarrow> tick built s s'"
| mutate: "tick built s (s\<lparr>rs_topo := t, unsent := Suc (unsent s)\<rparr>)"

text \<open>A registry write of the control API.\<close>

inductive note_kind :: "('t, 'k, 'g) rebuild_state \<Rightarrow> ('t, 'k, 'g) rebuild_state \<Rightarrow> bool" where
  "note_kind s (s\<lparr>rs_regs := k\<rparr>)"


text \<open>The graph that is live or about to be.\<close>

definition newest :: "('t, 'k, 'g) rebuild_state \<Rightarrow> 'g" where
  "newest s = (case rs_slot s of Some g \<Rightarrow> g | None \<Rightarrow> rs_live s)"

definition quiet :: "('t, 'k, 'g) rebuild_state \<Rightarrow> bool" where
  "quiet s \<longleftrightarrow> unsent s = 0 \<and> pending s = 0 \<and> task_pc s = Poll"

definition up_to_date :: "('t \<Rightarrow> 'k \<Rightarrow> 'g option) \<Rightarrow> ('t, 'k, 'g) rebuild_state \<Rightarrow> bool" where
  "up_to_date built s \<longleftrightarrow> (\<forall>g. built (rs_topo s) (rs_regs s) = Some g \<longrightarrow> newest s = g)"

text \<open>Unless an event is under way, what the task holds is of the current topology.\<close>

definition task_inv :: "('t \<Rightarrow> 'k \<Rightarrow> 'g option) \<Rightarrow> 'k \<Rightarrow> ('t, 'k, 'g) rebuild_state \<Rightarrow> bool" where
  "task_inv built k s \<longleftrightarrow> rs_regs s = k \<and>
     (unsent s = 0 \<and> pending s = 0 \<longrightarrow>
        (case task_pc s of
           Poll \<Rightarrow> up_to_date built s
         | Read \<Rightarrow> True
         | Building t \<Rightarrow> t = rs_topo s
         | Storing r \<Rightarrow> r = built (rs_topo s) (rs_regs s)))"

lemma task_inv_work: "work built s s' \<Longrightarrow> task_inv built k s \<Longrightarrow> task_inv built k s'"
  by (erule work.cases) (auto simp: task_inv_def up_to_date_def newest_def split: task_pc.splits option.splits)

lemma task_inv_tick: "tick built s s' \<Longrightarrow> task_inv built k s \<Longrightarrow> task_inv built k s'"
  by (erule tick.cases) (auto simp: task_inv_work, simp add: task_inv_def)

lemma task_inv_reachable:
  assumes "(tick built)\<^sup>*\<^sup>* (rebuild_start t k g) s"
  shows "task_inv built k s"
  using assms
proof (induction rule: rtranclp_induct)
  case base
  then show ?case by (simp add: task_inv_def rebuild_start_def)
next
  case (step s s')
  show ?case by (rule task_inv_tick [OF step.hyps(2) step.IH])
qed

text \<open>Every step but a mutation brings the threads closer to rest.\<close>

definition load :: "('t, 'k, 'g) rebuild_state \<Rightarrow> nat" where
  "load s = 6 * unsent s + 5 * pending s +
     (case task_pc s of Poll \<Rightarrow> 0 | Read \<Rightarrow> 4 | Building _ \<Rightarrow> 3 | Storing _ \<Rightarrow> 2) + (if rs_slot s = None then 0 else 1)"

lemma work_load: "work built s s' \<Longrightarrow> load s' < load s"
  by (erule work.cases) (auto simp: load_def split: option.splits)

lemma work_stuck:
  assumes "\<nexists>s'. work built s s'"
  shows "quiet s" "rs_slot s = None"
proof -
  have u: "unsent s = 0" using assms work.send [of s] by (cases "unsent s") blast+
  have "task_pc s = Poll"
    using assms work.read_topology [of s] work.build [of s] work.store [of s] by (cases "task_pc s") blast+
  moreover from this have "pending s = 0" using assms work.event [of s] by (cases "pending s") blast+
  ultimately show "quiet s" using u by (simp add: quiet_def)
  show "rs_slot s = None" using assms work.swap [of s] by (cases "rs_slot s") blast+
qed

lemma work_steps_load: "(work built ^^ n) s s' \<Longrightarrow> load s' + n \<le> load s"
  by (induction n arbitrary: s') (fastforce dest: work_load)+

lemma work_steps_tick: "(work built ^^ n) s s' \<Longrightarrow> (tick built)\<^sup>*\<^sup>* s s'"
proof (induction n arbitrary: s')
  case (Suc n)
  then obtain s1 where "(work built ^^ n) s s1" "work built s1 s'" by auto
  with Suc.IH show ?case by (meson rtranclp.rtrancl_into_rtrancl tick.intros(1))
qed simp

lemma work_settles:
  assumes "(tick built)\<^sup>*\<^sup>* (rebuild_start t k g) s" "(work built ^^ n) s s'"
  shows "n \<le> load s \<and> ((\<nexists>s''. work built s' s'') \<and> built (rs_topo s') k = Some g' \<longrightarrow> rs_live s' = g')"
proof -
  have "(tick built)\<^sup>*\<^sup>* (rebuild_start t k g) s'"
    using assms(1) work_steps_tick [OF assms(2)] by (rule rtranclp_trans)
  note inv = task_inv_reachable [OF this]
  have "rs_live s' = g'" if "\<nexists>s''. work built s' s''" "built (rs_topo s') k = Some g'"
    using inv work_stuck [OF that(1)] that(2)
    by (simp add: task_inv_def quiet_def up_to_date_def newest_def)
  then show ?thesis using work_steps_load [OF assms(2)] by auto
qed

text \<open>One whole rebuild.\<close>

lemma rebuild_pass:
  assumes "built t k = Some g"
  shows "(work built)\<^sup>*\<^sup>* \<lparr>rs_topo = t, rs_regs = k, unsent = u, pending = p, task_pc = Read, rs_slot = sl, rs_live = l\<rparr>
    \<lparr>rs_topo = t, rs_regs = k, unsent = u, pending = p, task_pc = Poll, rs_slot = Some g, rs_live = l\<rparr>"
proof -
  let ?s = "\<lambda>pc sl. \<lparr>rs_topo = t, rs_regs = k, unsent = u, pending = p, task_pc = pc, rs_slot = sl, rs_live = l\<rparr>"
  have "work built (?s Read sl) (?s (Building t) sl)"
    using work.read_topology [where built = built and s = "?s Read sl"] by simp
  moreover have "work built (?s (Building t) sl) (?s (Storing (Some g)) sl)"
    using work.build [where built = built and s = "?s (Building t) sl" and t = t] assms by simp
  moreover have "work built (?s (Storing (Some g)) sl) (?s Poll (Some g))"
    using work.store [where built = built and s = "?s (Storing (Some g)) sl" and r = "Some g"] by simp
  ultimately show ?thesis by (meson rtranclp.rtrancl_refl converse_rtranclp_into_rtranclp)
qed

lemma note_missed:
  assumes "built t1 k0 = Some g1" "built t1 k1 = Some g2" "g1 \<noteq> g2"
  shows "\<exists>s. (sup (tick built) note_kind)\<^sup>*\<^sup>* (rebuild_start t0 k0 g0) s \<and> (\<nexists>s'. work built s s') \<and>
    rs_topo s = t1 \<and> rs_regs s = k1 \<and> rs_live s = g1 \<and> built (rs_topo s) (rs_regs s) \<noteq> Some (rs_live s)"
proof -
  let ?s = "\<lambda>u p pc sl l. \<lparr>rs_topo = t1, rs_regs = k0, unsent = u, pending = p, task_pc = pc, rs_slot = sl, rs_live = l\<rparr>"
  have "tick built (rebuild_start t0 k0 g0) (?s 1 0 Read None g0)"
    using tick.mutate [of built "rebuild_start t0 k0 g0" t1] by (simp add: rebuild_start_def)
  moreover have "(work built)\<^sup>*\<^sup>* (?s 1 0 Read None g0) (?s 0 0 Poll None g1)"
  proof -
    have "work built (?s 1 0 Read None g0) (?s 0 1 Read None g0)"
      using work.send [where built = built and s = "?s 1 0 Read None g0" and n = 0] by simp
    moreover have "(work built)\<^sup>*\<^sup>* (?s 0 1 Read None g0) (?s 0 1 Poll (Some g1) g0)" by (rule rebuild_pass) (rule assms(1))
    moreover have "work built (?s 0 1 Poll (Some g1) g0) (?s 0 0 Read (Some g1) g0)"
      using work.event [where built = built and s = "?s 0 1 Poll (Some g1) g0" and n = 0] by simp
    moreover have "(work built)\<^sup>*\<^sup>* (?s 0 0 Read (Some g1) g0) (?s 0 0 Poll (Some g1) g0)" by (rule rebuild_pass) (rule assms(1))
    moreover have "work built (?s 0 0 Poll (Some g1) g0) (?s 0 0 Poll None g1)"
      using work.swap [where built = built and s = "?s 0 0 Poll (Some g1) g0" and g = g1] by simp
    ultimately show ?thesis
      by (meson converse_rtranclp_into_rtranclp rtranclp.rtrancl_into_rtrancl rtranclp_trans)
  qed
  moreover have "note_kind (?s 0 0 Poll None g1) ((?s 0 0 Poll None g1)\<lparr>rs_regs := k1\<rparr>)" by (rule note_kind.intros)
  moreover have "(sup (tick built) note_kind)\<^sup>*\<^sup>* a b" if "(work built)\<^sup>*\<^sup>* a b" for a b
    using that by (rule mono_rtranclp [rule_format, rotated]) (simp add: tick.intros(1))
  ultimately have r: "(sup (tick built) note_kind)\<^sup>*\<^sup>* (rebuild_start t0 k0 g0) ((?s 0 0 Poll None g1)\<lparr>rs_regs := k1\<rparr>)"
    by (meson converse_rtranclp_into_rtranclp rtranclp.rtrancl_into_rtrancl sup2I1 sup2I2)
  have "\<nexists>s'. work built ((?s 0 0 Poll None g1)\<lparr>rs_regs := k1\<rparr>) s'"
    by (auto elim: work.cases)
  with r assms(2,3) show ?thesis by (intro exI [of _ "(?s 0 0 Poll None g1)\<lparr>rs_regs := k1\<rparr>"]) auto
qed



section \<open>Examples\<close>

text \<open>A graph that is the list of its nodes and links, and a factory that looks the kind up.\<close>

type_synonym 'n list_graph = "'n BuiltNode list \<times> ((NodeId \<times> u64) \<times> (NodeId \<times> u64)) list"

definition list_graph_ops :: "('n list_graph, 'n, unit) graph_ops" where
  "list_graph_ops =
     \<lparr>g_new = ([], []),
      g_add_node = (\<lambda>n (ns, es). (of_nat (length ns), (ns @ [Plain n], es))),
      g_add_sink = (\<lambda>n (ns, es). (of_nat (length ns), (ns @ [Sink n], es))),
      g_link = (\<lambda>a b (ns, es). Ok (ns, es @ [(a, b)])),
      g_compile = Ok,
      g_process_cycle = (\<lambda>c g. (None, c, g)),
      g_flush_sinks = (\<lambda>g. ((0, None), g))\<rparr>"

lemma list_graph_laws: "graph_laws list_graph_ops fst snd"
  by (auto simp: graph_laws_def list_graph_ops_def)

definition kind_factory :: "(string, NodeId \<rightharpoonup> string) factory" where
  "kind_factory i k = (Some (Plain (case k i of None \<Rightarrow> ''passthrough'' | Some kd \<Rightarrow> kd)), k)"

definition demo_topo :: TopologySnapshot where
  "demo_topo = \<lparr>t_nodes = [bare_node 4, bare_node 9], t_edges = [\<lparr>se_from = (9, 0), se_to = (4, 1)\<rparr>]\<rparr>"

lemma demo_build:
  "build_graph list_graph_ops kind_factory demo_topo [9 \<mapsto> ''tone''] =
     (Ok ([Plain ''passthrough'', Plain ''tone''], [((1, 0), (0, 1))]), [9 \<mapsto> ''tone''])"
  "build_graph list_graph_ops kind_factory demo_topo Map.empty =
     (Ok ([Plain ''passthrough'', Plain ''passthrough''], [((1, 0), (0, 1))]), Map.empty)"
  by (simp_all add: build_graph_def demo_topo_def bare_node_def kind_factory_def list_graph_ops_def add_built_def)

theorem build_graph_faithful_witness:
  "\<exists>bs. factory_all kind_factory (node_ids demo_topo) [9 \<mapsto> ''tone''] = (Some bs, [9 \<mapsto> ''tone'']) \<and>
     [Plain ''passthrough'', Plain ''tone''] = bs \<and>
     list_all2 (relocated (node_ids demo_topo)) (t_edges demo_topo) [((1, 0), (0, 1))]"
  using build_graph_faithful [OF list_graph_laws _ _ demo_build(1)]
  by (simp add: demo_topo_def node_ids_def bare_node_def)

abbreviation demo_built :: "TopologySnapshot \<Rightarrow> (NodeId \<rightharpoonup> string) \<Rightarrow> string list_graph option" where
  "demo_built \<equiv> built_from list_graph_ops kind_factory"



end
