(* ===== verification/Dsp_Core.thy ===== *)
theory Dsp_Core
  imports Node_Params "HOL-Library.Monad_Syntax"
begin

text \<open>
  What the audio nodes (\<open>audio-engine/src/nodes\<close>) share: the remaining \<open>f32\<close> operations, frames, and the
  loop that most of them run over a planar frame, channel by channel. A computation that would panic, by an
  index out of range, is \<open>None\<close>. The mathematical functions whose results the language does not fix
  (\<open>sin\<close>, \<open>exp\<close>, \<open>powf\<close>, \<open>tanh\<close>) and the square root are parameters.
\<close>

section \<open>Numbers\<close>

definition f_max :: "f32 \<Rightarrow> f32 \<Rightarrow> f32" where
  "f_max a b = (if is_nan a then b else if is_nan b then a else if f_lt a b then b else a)"

definition f_signum :: "f32 \<Rightarrow> f32" where
  "f_signum x = (if is_nan x then x else f_of_int (if f_sign x then - 1 else 1))"

definition f_to_usize :: "f32 \<Rightarrow> nat" where
  "f_to_usize x =
     (if is_nan x \<or> f_sign x then 0
      else if is_inf x then 2 ^ 64 - 1
      else nat (min (2 ^ 64 - 1) (f_mag x div f_unit)))"

definition f_of_nat :: "nat \<Rightarrow> f32" where
  "f_of_nat n = f_of_int (int n)"

text \<open>The remainder is exact; the Euclidean one adds the divisor to a negative remainder, and rounds.\<close>

definition f_rem :: "f32 \<Rightarrow> f32 \<Rightarrow> f32" where
  "f_rem a b =
     (if is_nan a \<or> is_nan b \<or> is_inf a \<or> f_body b = 0 then f_nan
      else if is_inf b then a
      else f_pack (f_sign a) (f_mag a mod f_mag b) 1)"

definition f_rem_euclid :: "f32 \<Rightarrow> f32 \<Rightarrow> f32" where
  "f_rem_euclid a b = (let r = f_rem a b in if f_lt r (f_of_int 0) then f_add r (f_abs b) else r)"

record libm =
  m_sin :: "f32 \<Rightarrow> f32"
  m_cos :: "f32 \<Rightarrow> f32"
  m_exp :: "f32 \<Rightarrow> f32"
  m_tanh :: "f32 \<Rightarrow> f32"
  m_powf :: "f32 \<Rightarrow> f32 \<Rightarrow> f32"
  m_sqrt :: "f32 \<Rightarrow> f32"

text \<open>\<open>f32::consts\<close>.\<close>

definition PI :: f32 where "PI = 0x40490FDB"
definition TAU :: f32 where "TAU = 0x40C90FDB"
definition FRAC_PI_4 :: f32 where "FRAC_PI_4 = 0x3F490FDB"

abbreviation f_0 :: f32 where "f_0 \<equiv> f_of_int 0"
abbreviation f_1 :: f32 where "f_1 \<equiv> f_of_int 1"
abbreviation f_2 :: f32 where "f_2 \<equiv> f_of_int 2"

lemma f_body_abs [simp]: "f_body (f_abs x) = f_body x"
  and f_sign_abs [simp]: "\<not> f_sign (f_abs x)"
proof -
  have "f_abs x = take_bit 31 x" by (simp add: f_abs_def take_bit_eq_mask mask_eq_exp_minus_1)
  then have abs: "uint (f_abs x) = uint x mod 2 ^ 31" by (simp add: unsigned_take_bit_eq) (simp add: take_bit_eq_mod)
  show "f_body (f_abs x) = f_body x" "\<not> f_sign (f_abs x)"
    by (simp_all add: f_body_def f_sign_def abs not_le pos_mod_bound del: mod_by_Suc_0)
qed

lemma is_nan_abs [simp]: "is_nan (f_abs x) \<longleftrightarrow> is_nan x"
  by (simp add: is_nan_def)

lemma f_key_abs: "f_key (f_abs x) = f_body x"
  by (simp add: f_key_def)

lemma f_le_trans: "f_le a b \<Longrightarrow> f_le b c \<Longrightarrow> f_le a c"
  by (simp add: f_le_def)

lemma f_body_eq_iff: "f_mag x = f_mag y \<longleftrightarrow> f_body x = f_body y"
  using f_mag_less_iff [of x y] f_mag_less_iff [of y x] by linarith

text \<open>A product with \<open>1.0\<close> or \<open>-1.0\<close> is exact.\<close>

lemma f_mag_split:
  assumes "f_exp x \<le> 253"
  shows "\<exists>m j. f_mag x = m * 2 ^ j \<and> 0 \<le> m \<and> m < 2 ^ 24 \<and> j \<le> 252"
proof -
  have "0 \<le> f_frac x" "f_frac x < 2 ^ 23" by (simp_all add: f_frac_def)
  then have "\<exists>j. f_mag x = (if f_exp x = 0 then f_frac x else 2 ^ 23 + f_frac x) * 2 ^ j \<and> j \<le> 252"
    using assms by (intro exI [of _ "f_exp x - 1"]) (auto simp: f_mag_def)
  with \<open>0 \<le> f_frac x\<close> \<open>f_frac x < 2 ^ 23\<close> show ?thesis
    by (intro exI [of _ "if f_exp x = 0 then f_frac x else 2 ^ 23 + f_frac x"]) auto
qed

lemma f_body_mul_unit:
  assumes "is_finite t" "f_exp t \<le> 253" "\<bar>i\<bar> = 1"
  shows "f_body (f_mul t (f_of_int i)) = f_body t" "is_finite (f_mul t (f_of_int i))"
    "f_sign (f_mul t (f_of_int i)) = (f_sign t \<noteq> (i < 0))"
proof -
  have i: "\<bar>i\<bar> < 2 ^ 24" using assms(3) by simp
  have "f_mul t (f_of_int i) = f_pack (f_sign t \<noteq> (i < 0)) (f_mag t * f_unit) f_unit"
    using finite_not_nan_inf [OF assms(1)] finite_not_nan_inf [OF f_of_int_exact(3) [OF i]] f_of_int_exact [OF i] assms(3)
    by (simp add: f_mul_def)
  also have "\<dots> = f_pack (f_sign t \<noteq> (i < 0)) (f_mag t) 1"
    using f_pack_cancel [of f_unit _ "f_mag t" 1] by (simp add: f_unit_def)
  finally have mul: "f_mul t (f_of_int i) = f_pack (f_sign t \<noteq> (i < 0)) (f_mag t) 1" .
  obtain m j where m: "f_mag t = m * 2 ^ j" "0 \<le> m" "m < 2 ^ 24" "j \<le> 252" using f_mag_split [OF assms(2)] by blast
  show "f_body (f_mul t (f_of_int i)) = f_body t"
    unfolding f_body_eq_iff [symmetric] mul m(1) by (rule f_pack_exact [OF m(2-4)])
  show "is_finite (f_mul t (f_of_int i))" "f_sign (f_mul t (f_of_int i)) = (f_sign t \<noteq> (i < 0))"
    unfolding mul m(1) by (rule f_pack_exact [OF m(2-4)])+
qed

section \<open>Frames\<close>

record AudioFrame =
  af_channels :: u16
  af_sample_rate :: u32
  samples :: "f32 list"

definition nth_opt :: "'a list \<Rightarrow> nat \<Rightarrow> 'a option" where
  "nth_opt xs i = (if i < length xs then Some (xs ! i) else None)"

definition set_opt :: "'a list \<Rightarrow> nat \<Rightarrow> 'a \<Rightarrow> 'a list option" where
  "set_opt xs i x = (if i < length xs then Some (xs[i := x]) else None)"

lemma nth_opt_Some [simp]: "i < length xs \<Longrightarrow> nth_opt xs i = Some (xs ! i)"
  and set_opt_Some [simp]: "i < length xs \<Longrightarrow> set_opt xs i x = Some (xs[i := x])"
  by (simp_all add: nth_opt_def set_opt_def)

text \<open>A loop whose body may panic.\<close>

primrec for_in :: "('a \<Rightarrow> 's \<Rightarrow> 's option) \<Rightarrow> 'a list \<Rightarrow> 's \<Rightarrow> 's option" where
  "for_in f [] s = Some s"
| "for_in f (x # xs) s = do { s \<leftarrow> f x s; for_in f xs s }"

lemma for_in_append: "for_in f (xs @ ys) s = do { s \<leftarrow> for_in f xs s; for_in f ys s }"
  by (induction xs arbitrary: s) simp_all

lemma for_in_invariant:
  assumes "\<And>x s. x \<in> set xs \<Longrightarrow> P s \<Longrightarrow> \<exists>s'. f x s = Some s' \<and> P s'" "P s"
  shows "\<exists>s'. for_in f xs s = Some s' \<and> P s'"
  using assms
proof (induction xs arbitrary: s)
  case (Cons x xs)
  then obtain s1 where "f x s = Some s1" "P s1" by (metis list.set_intros(1))
  moreover have "\<exists>s'. for_in f xs s1 = Some s' \<and> P s'" using Cons.IH [OF Cons.prems(1) \<open>P s1\<close>] by simp
  ultimately show ?case by simp
qed simp

text \<open>A node: the frames at its inputs and outputs go in, its new state and the new output frames come out.\<close>

type_synonym 's node_fn = "'s \<Rightarrow> AudioFrame list \<Rightarrow> AudioFrame list \<Rightarrow> ('s \<times> AudioFrame list) option"

section \<open>The planar loop\<close>

text \<open>
  For each channel, for each of its samples: \<open>out[c * per_ch + i] = process_sample(inp[c * per_ch + i], c)\<close>.
\<close>

definition planar_slots :: "nat \<Rightarrow> nat \<Rightarrow> (nat \<times> nat) list" where
  "planar_slots ch per_ch = concat (map (\<lambda>c. map (\<lambda>i. (c, c * per_ch + i)) [0..<per_ch]) [0..<ch])"

fun run_slots ::
  "(f32 \<Rightarrow> nat \<Rightarrow> 's \<Rightarrow> (f32 \<times> 's) option) \<Rightarrow> f32 list \<Rightarrow> (nat \<times> nat) list \<Rightarrow> f32 list \<Rightarrow> 's \<Rightarrow> (f32 list \<times> 's) option" where
  "run_slots step inp [] out s = Some (out, s)"
| "run_slots step inp ((c, idx) # slots) out s =
     Option.bind (nth_opt inp idx) (\<lambda>x.
     Option.bind (step x c s) (\<lambda>(y, s).
     Option.bind (set_opt out idx y) (\<lambda>out. run_slots step inp slots out s)))"

definition process_planar :: "(f32 \<Rightarrow> nat \<Rightarrow> 's \<Rightarrow> (f32 \<times> 's) option) \<Rightarrow> 's node_fn" where
  "process_planar step s ins outs =
     (case (ins, outs) of
        (inp # _, out # rest) \<Rightarrow>
          let ch = unat (af_channels inp); n = min (length (samples inp)) (length (samples out))
          in if ch = 0 \<or> n = 0 then Some (s, outs)
             else map_option (\<lambda>(ys, s). (s, out\<lparr>samples := ys\<rparr> # rest))
                    (run_slots step (samples inp) (planar_slots ch (n div ch)) (samples out) s)
      | _ \<Rightarrow> Some (s, outs))"

text \<open>One channel on its own: a filter with state \<open>'k\<close> run over a list of samples.\<close>

primrec filter_run :: "(f32 \<Rightarrow> 'k \<Rightarrow> f32 \<times> 'k) \<Rightarrow> f32 list \<Rightarrow> 'k \<Rightarrow> f32 list \<times> 'k" where
  "filter_run f [] k = ([], k)"
| "filter_run f (x # xs) k = (let (y, k) = f x k; (ys, k) = filter_run f xs k in (y # ys, k))"

lemma length_filter_run [simp]: "length (fst (filter_run f xs k)) = length xs"
  by (induction xs arbitrary: k) (simp_all add: split_beta Let_def)

definition segment :: "nat \<Rightarrow> nat \<Rightarrow> 'a list \<Rightarrow> 'a list" where
  "segment p c xs = take p (drop (c * p) xs)"

lemma run_slots_append:
  "run_slots step inp (as @ bs) out s = Option.bind (run_slots step inp as out s) (\<lambda>(out, s). run_slots step inp bs out s)"
  by (induction step inp as out s rule: run_slots.induct) (auto split: Option.bind_split)

lemma length_run_slots: "run_slots step inp slots out s = Some (out', s') \<Longrightarrow> length out' = length out"
  by (induction step inp slots out s rule: run_slots.induct) (auto simp: set_opt_def split: Option.bind_splits if_splits)

lemma filter_run_append:
  "filter_run f (xs @ ys) k =
     (let (us, k) = filter_run f xs k; (vs, k) = filter_run f ys k in (us @ vs, k))"
  by (induction xs arbitrary: k) (simp_all add: split_beta Let_def)

lemma segment_concat:
  assumes "\<And>i. i < k \<Longrightarrow> length (f i) = p" "c < k"
  shows "segment p c (concat (map f [0..<k]) @ rest) = f c"
  using assms
proof (induction k)
  case (Suc k)
  have len: "length (concat (map f [0..<k])) = k * p"
    using length_concat_const [of "[0..<k]" f p] Suc.prems(1) by simp
  show ?case
  proof (cases "c = k")
    case True
    then show ?thesis using len Suc.prems(1) [of k] by (simp add: segment_def)
  next
    case False
    then have "Suc c * p \<le> k * p" using Suc.prems(2) by (intro mult_le_mono1) simp
    then have "c * p + p \<le> k * p" unfolding mult_Suc by linarith
    moreover have "segment p c (concat (map f [0..<k]) @ f k @ rest) = segment p c (concat (map f [0..<k]) @ rest)"
      using calculation len by (simp add: segment_def)
    ultimately show ?thesis using Suc.IH Suc.prems False by simp
  qed
qed simp

text \<open>A channel of a frame, and a run of a node over successive cycles: one input and one output frame each.\<close>

definition frame_channel :: "nat \<Rightarrow> AudioFrame \<Rightarrow> f32 list" where
  "frame_channel c frame = segment (length (samples frame) div unat (af_channels frame)) c (samples frame)"

primrec run_cycles :: "'s node_fn \<Rightarrow> (AudioFrame \<times> AudioFrame) list \<Rightarrow> 's \<Rightarrow> (AudioFrame list \<times> 's) option" where
  "run_cycles proc [] s = Some ([], s)"
| "run_cycles proc (io # ios) s = do {
     (s, outs) \<leftarrow> proc s [fst io] [snd io];
     (rest, s) \<leftarrow> run_cycles proc ios s;
     Some (hd outs # rest, s)
   }"

text \<open>The frames of a stream of \<open>ch\<close> channels: whole frames, of any length.\<close>

definition stream_io :: "nat \<Rightarrow> (AudioFrame \<times> AudioFrame) list \<Rightarrow> bool" where
  "stream_io ch ios \<longleftrightarrow> 0 < ch \<and>
     (\<forall>(inp, out) \<in> set ios. unat (af_channels inp) = ch \<and> unat (af_channels out) = ch \<and>
        length (samples out) = length (samples inp) \<and> ch dvd length (samples inp))"

text \<open>
  A node that treats its channels independently: \<open>chan s c\<close> is the part of the state that belongs to
  channel \<open>c\<close>, and \<open>kernel s\<close>, which processing does not change, is the filter each channel runs.
\<close>

locale planar_node =
  fixes inv :: "'s \<Rightarrow> bool" and chans :: "'s \<Rightarrow> nat" and step :: "f32 \<Rightarrow> nat \<Rightarrow> 's \<Rightarrow> (f32 \<times> 's) option"
    and chan :: "'s \<Rightarrow> nat \<Rightarrow> 'k" and kernel :: "'s \<Rightarrow> f32 \<Rightarrow> 'k \<Rightarrow> f32 \<times> 'k"
  assumes step: "inv s \<Longrightarrow> c < chans s \<Longrightarrow>
    \<exists>s'. step x c s = Some (fst (kernel s x (chan s c)), s') \<and> inv s' \<and> chans s' = chans s \<and>
      chan s' c = snd (kernel s x (chan s c)) \<and> (\<forall>c'. c' \<noteq> c \<longrightarrow> chan s' c' = chan s c') \<and> kernel s' = kernel s"
begin

lemma run_channel:
  assumes "inv s" "c < chans s" "off + length xs \<le> length inp" "length inp \<le> length out \<or> off + length xs \<le> length out"
    "\<forall>i < length xs. inp ! (off + i) = xs ! i"
  shows "\<exists>s'. run_slots step inp (map (\<lambda>i. (c, off + i)) [0..<length xs]) out s =
      Some (take off out @ fst (filter_run (kernel s) xs (chan s c)) @ drop (off + length xs) out, s') \<and>
    inv s' \<and> chans s' = chans s \<and> chan s' c = snd (filter_run (kernel s) xs (chan s c)) \<and>
    (\<forall>c'. c' \<noteq> c \<longrightarrow> chan s' c' = chan s c') \<and> kernel s' = kernel s"
  using assms
proof (induction xs arbitrary: off out s)
  case (Cons x xs)
  obtain s1 where s1: "step x c s = Some (fst (kernel s x (chan s c)), s1)" "inv s1" "chans s1 = chans s"
      "chan s1 c = snd (kernel s x (chan s c))" "\<forall>c'. c' \<noteq> c \<longrightarrow> chan s1 c' = chan s c'" "kernel s1 = kernel s"
    using step [OF Cons.prems(1,2)] by blast
  let ?y = "fst (kernel s x (chan s c))" and ?out = "out[off := fst (kernel s x (chan s c))]"
  have off: "off < length inp" "off < length out" using Cons.prems(3,4) by auto
  have x: "inp ! off = x" using Cons.prems(5) by force
  have "\<forall>i < length xs. inp ! (Suc off + i) = xs ! i" using Cons.prems(5) by force
  moreover have "Suc off + length xs \<le> length inp" "length inp \<le> length ?out \<or> Suc off + length xs \<le> length ?out"
    using Cons.prems(3,4) by auto
  ultimately obtain s2 where s2: "run_slots step inp (map (\<lambda>i. (c, Suc off + i)) [0..<length xs]) ?out s1 =
      Some (take (Suc off) ?out @ fst (filter_run (kernel s1) xs (chan s1 c)) @ drop (Suc off + length xs) ?out, s2)"
      "inv s2" "chans s2 = chans s1" "chan s2 c = snd (filter_run (kernel s1) xs (chan s1 c))"
      "\<forall>c'. c' \<noteq> c \<longrightarrow> chan s2 c' = chan s1 c'" "kernel s2 = kernel s1"
    using Cons.IH [of s1 "Suc off" ?out] s1(2,3) Cons.prems(2) by auto
  have slots: "map (\<lambda>i. (c, off + i)) [0..<length (x # xs)] = (c, off) # map (\<lambda>i. (c, Suc off + i)) [0..<length xs]"
    by (simp add: upt_conv_Cons map_Suc_upt [symmetric] comp_def del: upt_Suc)
  have "take (Suc off) ?out @ fst (filter_run (kernel s1) xs (chan s1 c)) @ drop (Suc off + length xs) ?out =
      take off out @ fst (filter_run (kernel s) (x # xs) (chan s c)) @ drop (off + length (x # xs)) out"
    using off(2) s1(4,6) by (simp add: take_Suc_conv_app_nth split_beta Let_def)
  then show ?case
    using s1 s2 off x unfolding slots by (simp add: split_beta Let_def)
qed (auto simp: list_eq_iff_nth_eq)

lemma run_channels:
  assumes "inv s" "k \<le> chans s" "k * p \<le> length inp" "k * p \<le> length out"
  shows "\<exists>s'. run_slots step inp (planar_slots k p) out s =
      Some (concat (map (\<lambda>c. fst (filter_run (kernel s) (segment p c inp) (chan s c))) [0..<k]) @ drop (k * p) out, s') \<and>
    inv s' \<and> chans s' = chans s \<and> kernel s' = kernel s \<and>
    (\<forall>c. chan s' c = (if c < k then snd (filter_run (kernel s) (segment p c inp) (chan s c)) else chan s c))"
  using assms
proof (induction k)
  case 0
  then show ?case by (simp add: planar_slots_def)
next
  case (Suc k)
  let ?seg = "\<lambda>c. fst (filter_run (kernel s) (segment p c inp) (chan s c))"
  obtain s1 where s1: "run_slots step inp (planar_slots k p) out s = Some (concat (map ?seg [0..<k]) @ drop (k * p) out, s1)"
      "inv s1" "chans s1 = chans s" "kernel s1 = kernel s"
      "\<forall>c. chan s1 c = (if c < k then snd (filter_run (kernel s) (segment p c inp) (chan s c)) else chan s c)"
    using Suc by auto
  have seg_length: "length (segment p c inp) = p" if "c < Suc k" for c
  proof -
    have "c * p \<le> k * p" using that by (intro mult_le_mono1) simp
    then have "c * p + p \<le> length inp" using Suc.prems(3) unfolding mult_Suc by linarith
    then show ?thesis by (simp add: segment_def)
  qed
  have len: "length (concat (map ?seg [0..<k])) = k * p"
    using length_concat_const [of "[0..<k]" ?seg p] seg_length by simp
  let ?out = "concat (map ?seg [0..<k]) @ drop (k * p) out"
  have xs: "\<forall>i < length (segment p k inp). inp ! (k * p + i) = segment p k inp ! i"
    using Suc.prems(3) by (simp add: segment_def)
  have room: "k * p + length (segment p k inp) \<le> length inp" "k * p + length (segment p k inp) \<le> length ?out"
    using Suc.prems(3,4) len seg_length [of k] by simp_all
  have k: "k < chans s1" "chan s1 k = chan s k" using Suc.prems(2) s1(3,5) by simp_all
  obtain s2 where s2: "run_slots step inp (map (\<lambda>i. (k, k * p + i)) [0..<p]) ?out s1 =
      Some (take (k * p) ?out @ ?seg k @ drop (k * p + p) ?out, s2)" "inv s2" "chans s2 = chans s1"
      "chan s2 k = snd (filter_run (kernel s) (segment p k inp) (chan s k))" "\<forall>c'. c' \<noteq> k \<longrightarrow> chan s2 c' = chan s1 c'"
      "kernel s2 = kernel s"
    using run_channel [OF s1(2) k(1) room(1) disjI2 [OF room(2)] xs, unfolded s1(4) k(2) seg_length [OF lessI]] by blast
  have "planar_slots (Suc k) p = planar_slots k p @ map (\<lambda>i. (k, k * p + i)) [0..<p]" by (simp add: planar_slots_def)
  moreover have "take (k * p) ?out @ ?seg k @ drop (k * p + p) ?out = concat (map ?seg [0..<Suc k]) @ drop (Suc k * p) out"
    using len by (simp add: add.commute)
  ultimately show ?case using s1 s2 by (auto simp: run_slots_append less_Suc_eq)
qed

text \<open>
  Processing a frame with at most as many channels as the node was built for does not panic; every channel of
  the output is what the node's filter makes of that channel of the input, and what does not fit a whole
  number of samples per channel is left alone.
\<close>

lemma process_channelwise:
  assumes "inv s" "0 < unat (af_channels inp)" "unat (af_channels inp) \<le> chans s"
    "min (length (samples inp)) (length (samples out)) div unat (af_channels inp) = p"
  shows "\<exists>s'. process_planar step s (inp # ins) (out # outs) =
      Some (s', out\<lparr>samples := concat (map (\<lambda>c. fst (filter_run (kernel s) (segment p c (samples inp)) (chan s c)))
          [0..<unat (af_channels inp)]) @ drop (unat (af_channels inp) * p) (samples out)\<rparr> # outs) \<and>
    inv s' \<and> chans s' = chans s \<and> kernel s' = kernel s \<and>
    (\<forall>c < unat (af_channels inp). chan s' c = snd (filter_run (kernel s) (segment p c (samples inp)) (chan s c)))"
proof -
  let ?ch = "unat (af_channels inp)" and ?n = "min (length (samples inp)) (length (samples out))"
  have room: "?ch * p \<le> ?n" unfolding assms(4) [symmetric] by (rule times_div_less_eq_dividend)
  show ?thesis
  proof (cases "?n = 0")
    case True
    then have "p = 0" using assms(4) by simp
    then have "segment p c (samples inp) = []" for c by (simp add: segment_def)
    then show ?thesis using assms(1-3) True \<open>p = 0\<close> by (auto simp: process_planar_def Let_def)
  next
    case False
    obtain s' where run: "run_slots step (samples inp) (planar_slots ?ch p) (samples out) s =
        Some (concat (map (\<lambda>c. fst (filter_run (kernel s) (segment p c (samples inp)) (chan s c))) [0..<?ch]) @
          drop (?ch * p) (samples out), s')"
      and s': "inv s'" "chans s' = chans s" "kernel s' = kernel s"
      "\<forall>c. chan s' c = (if c < ?ch then snd (filter_run (kernel s) (segment p c (samples inp)) (chan s c)) else chan s c)"
      using run_channels [OF assms(1,3), of p "samples inp" "samples out"] room by auto
    have "\<not> (?ch = 0 \<or> ?n = 0)" using assms(2) False by simp
    then have "process_planar step s (inp # ins) (out # outs) =
      Some (s', out\<lparr>samples := concat (map (\<lambda>c. fst (filter_run (kernel s) (segment p c (samples inp)) (chan s c)))
          [0..<?ch]) @ drop (?ch * p) (samples out)\<rparr> # outs)"
      by (simp only: process_planar_def prod.case list.case Let_def if_False assms(4) run option.map)
    with s' show ?thesis by (intro exI [of _ s']) simp
  qed
qed

lemma process_safe:
  assumes "inv s" "\<forall>inp \<in> set ins. unat (af_channels inp) \<le> chans s"
  shows "\<exists>s' outs'. process_planar step s ins outs = Some (s', outs') \<and> inv s' \<and> chans s' = chans s \<and>
    map (\<lambda>f. length (samples f)) outs' = map (\<lambda>f. length (samples f)) outs"
proof (cases "ins = [] \<or> outs = [] \<or> unat (af_channels (hd ins)) = 0")
  case True
  then show ?thesis using assms(1) by (auto simp: process_planar_def Let_def split: list.splits)
next
  case False
  then obtain inp ins' out outs' where l: "ins = inp # ins'" "outs = out # outs'" by (metis list.exhaust)
  let ?ch = "unat (af_channels inp)" and ?p = "min (length (samples inp)) (length (samples out)) div unat (af_channels inp)"
  have pos: "0 < ?ch" using False l by simp
  have "?ch * ?p \<le> length (samples inp)" "?ch * ?p \<le> length (samples out)"
    using times_div_less_eq_dividend [of ?ch "min (length (samples inp)) (length (samples out))"] by linarith+
  moreover have "length (segment ?p c (samples inp)) = ?p" if "c < ?ch" for c
  proof -
    have "Suc c * ?p \<le> ?ch * ?p" using that by (intro mult_le_mono1) simp
    then have "c * ?p + ?p \<le> length (samples inp)" using calculation(1) unfolding mult_Suc by linarith
    then show ?thesis by (simp add: segment_def)
  qed
  ultimately have "length (concat (map (\<lambda>c. fst (filter_run (kernel s) (segment ?p c (samples inp)) (chan s c))) [0..<?ch]) @
      drop (?ch * ?p) (samples out)) = length (samples out)"
    using length_concat_const [of "[0..<?ch]" "\<lambda>c. fst (filter_run (kernel s) (segment ?p c (samples inp)) (chan s c))" ?p]
    by (simp add: mult.commute)
  then show ?thesis
    using process_channelwise [OF assms(1) pos _ refl, where ins = ins' and outs = outs' and out = out] assms(2) l by auto
qed

text \<open>
  How a stream is cut into cycles makes no difference: channel by channel, the output frames together are
  what the filter makes of the input frames together.
\<close>

lemma cycles_channelwise:
  assumes "inv s" "ch \<le> chans s" "stream_io ch ios"
  shows "\<exists>ys s'. run_cycles (process_planar step) ios s = Some (ys, s') \<and>
    (\<forall>c < ch. concat (map (frame_channel c) ys) =
      fst (filter_run (kernel s) (concat (map (\<lambda>io. frame_channel c (fst io)) ios)) (chan s c)))"
  using assms
proof (induction ios arbitrary: s)
  case (Cons io ios)
  obtain inp out where io: "io = (inp, out)" by fastforce
  have ch: "unat (af_channels inp) = ch" "unat (af_channels out) = ch" "0 < ch"
    "length (samples out) = length (samples inp)" "ch dvd length (samples inp)" and ios: "stream_io ch ios"
    using Cons.prems(3) by (auto simp: stream_io_def io)
  let ?p = "length (samples inp) div ch" and ?run = "\<lambda>c. filter_run (kernel s) (frame_channel c inp) (chan s c)"
  have cp: "ch * ?p = length (samples inp)" using ch(5) by simp
  have seg: "segment ?p c (samples inp) = frame_channel c inp" for c by (simp add: frame_channel_def ch(1))
  have seg_length: "length (frame_channel c inp) = ?p" if "c < ch" for c
  proof -
    have "Suc c * ?p \<le> ch * ?p" using that by (intro mult_le_mono1) simp
    then have "c * ?p + ?p \<le> length (samples inp)" unfolding cp mult_Suc by linarith
    then show ?thesis unfolding seg [symmetric] by (simp add: segment_def)
  qed
  let ?out = "out\<lparr>samples := concat (map (\<lambda>c. fst (?run c)) [0..<ch]) @ drop (ch * ?p) (samples out)\<rparr>"
  have min: "min (length (samples inp)) (length (samples out)) div unat (af_channels inp) = ?p" by (simp add: ch)
  obtain s1 where s1: "process_planar step s [inp] [out] = Some (s1, [?out])" "inv s1" "chans s1 = chans s"
      "kernel s1 = kernel s" "\<forall>c < ch. chan s1 c = snd (?run c)"
    using process_channelwise [OF Cons.prems(1) _ _ min, of "[]" "[]"] ch(3) Cons.prems(2)
    unfolding seg unfolding ch(1) by blast
  obtain ys s2 where s2: "run_cycles (process_planar step) ios s1 = Some (ys, s2)"
      "\<forall>c < ch. concat (map (frame_channel c) ys) =
        fst (filter_run (kernel s1) (concat (map (\<lambda>io. frame_channel c (fst io)) ios)) (chan s1 c))"
    using Cons.IH [of s1] s1(2,3) Cons.prems(2) ios by auto
  have len: "length (concat (map (\<lambda>c. fst (?run c)) [0..<ch])) = ch * ?p"
    using length_concat_const [of "[0..<ch]" "\<lambda>c. fst (?run c)" ?p] seg_length by simp
  then have "length (samples ?out) = length (samples inp)" using cp ch(4) by simp
  then have "frame_channel c ?out = fst (?run c)" if "c < ch" for c
    using segment_concat [of ch "\<lambda>c. fst (?run c)" ?p c "drop (ch * ?p) (samples out)"] that seg_length
    by (simp add: frame_channel_def ch(2))
  then have "\<forall>c < ch. concat (map (frame_channel c) (?out # ys)) =
      fst (filter_run (kernel s) (concat (map (\<lambda>io. frame_channel c (fst io)) (io # ios))) (chan s c))"
    using s2(2) s1(4,5) by (simp add: io filter_run_append split_beta Let_def)
  moreover have "run_cycles (process_planar step) (io # ios) s = Some (?out # ys, s2)"
    using s1(1) s2(1) by (simp add: io)
  ultimately show ?case by blast
qed simp

end

end
