(* ===== verification/Dsp_Stateless.thy ===== *)
theory Dsp_Stateless
  imports Dsp_Core
begin

text \<open>
  The nodes without memory: the built-in source, gain and capture (\<open>builtins.rs\<close>), and of \<open>nodes/\<close> the
  mixer, the aux send, the channel map, the stereo widener, the limiter and the meter.
  Port descriptors are left out of the states. A loop that runs below the shorter of its two sample
  buffers cannot index past them and is a list function; the others return \<open>None\<close> where they would.
\<close>

section \<open>Loops over samples\<close>

text \<open>\<open>for i in 0..n { out[i] = f(inp[i]) }\<close>, with \<open>n\<close> the shorter length.\<close>

definition map_into :: "(f32 \<Rightarrow> f32) \<Rightarrow> f32 list \<Rightarrow> f32 list \<Rightarrow> f32 list" where
  "map_into f inp out =
     (let n = min (length inp) (length out) in map f (take n inp) @ drop n out)"

abbreviation copy_into :: "f32 list \<Rightarrow> f32 list \<Rightarrow> f32 list" where
  "copy_into \<equiv> map_into (\<lambda>x. x)"

lemma length_map_into [simp]: "length (map_into f inp out) = length out"
  by (simp add: map_into_def Let_def)

lemma map_into_nth:
  "i < length out \<Longrightarrow> map_into f inp out ! i = (if i < length inp then f (inp ! i) else out ! i)"
  by (auto simp: map_into_def Let_def nth_append)

text \<open>A node with one input and one output that works sample by sample.\<close>

definition one_to_one :: "(AudioFrame \<Rightarrow> AudioFrame \<Rightarrow> AudioFrame) \<Rightarrow> AudioFrame list \<Rightarrow> AudioFrame list \<Rightarrow> AudioFrame list" where
  "one_to_one f ins outs = (case (ins, outs) of (inp # _, out # rest) \<Rightarrow> f inp out # rest | _ \<Rightarrow> outs)"

section \<open>Built-in nodes\<close>

definition SineSource_new :: "libm \<Rightarrow> f32 \<Rightarrow> f32 \<Rightarrow> nat \<Rightarrow> u32 \<Rightarrow> AudioFrame" where
  "SineSource_new lm freq amp num_frames sample_rate =
     \<lparr>af_channels = 1, af_sample_rate = sample_rate,
      samples = map (\<lambda>i. f_mul (m_sin lm (f_div (f_mul (f_mul (f_mul f_2 PI) freq) (f_of_nat i)) (f_of_nat (unat sample_rate)))) amp)
        [0..<num_frames]\<rparr>"

definition SineSource_process :: "AudioFrame \<Rightarrow> AudioFrame list \<Rightarrow> AudioFrame list" where
  "SineSource_process sine outs =
     (case outs of
        [] \<Rightarrow> []
      | out # rest \<Rightarrow>
          out\<lparr>samples := copy_into (samples sine) (samples out), af_channels := af_channels sine,
              af_sample_rate := af_sample_rate sine\<rparr> # rest)"

definition Gain_process :: "f32 \<Rightarrow> AudioFrame list \<Rightarrow> AudioFrame list \<Rightarrow> AudioFrame list" where
  "Gain_process gain =
     one_to_one (\<lambda>inp out. out\<lparr>samples := map_into (\<lambda>x. f_mul x gain) (samples inp) (samples out)\<rparr>)"

definition Capture_process :: "AudioFrame list \<Rightarrow> AudioFrame list \<Rightarrow> AudioFrame list" where
  "Capture_process ins outs = outs"

section \<open>Mixer\<close>

definition MixerNode_new :: "nat \<Rightarrow> f32 list \<Rightarrow> f32 list" where
  "MixerNode_new n gains = take n gains @ replicate (n - length gains) f_0"

definition set_gain :: "nat \<Rightarrow> f32 \<Rightarrow> f32 list \<Rightarrow> f32 list" where
  "set_gain input gain gains = gains[input := gain]"

definition mix_input :: "f32 list \<Rightarrow> nat \<times> AudioFrame \<Rightarrow> f32 list \<Rightarrow> f32 list" where
  "mix_input gains = (\<lambda>(i, frame) out.
     let g = (if i < length gains then gains ! i else f_0); n = min (length (samples frame)) (length out)
     in map (\<lambda>k. if k < n then f_add (out ! k) (f_mul (samples frame ! k) g) else out ! k) [0..<length out])"

definition MixerNode_process :: "f32 list \<Rightarrow> AudioFrame list \<Rightarrow> AudioFrame list \<Rightarrow> AudioFrame list" where
  "MixerNode_process gains ins outs =
     (case outs of
        [] \<Rightarrow> []
      | out # rest \<Rightarrow>
          out\<lparr>samples := fold (mix_input gains) (zip [0..<length ins] ins) (map (\<lambda>_. f_0) (samples out))\<rparr> # rest)"

section \<open>Aux send\<close>

definition AuxSendNode_new :: "f32 \<Rightarrow> f32" where
  "AuxSendNode_new send_level = f_clamp send_level f_0 f_1"

definition send_into :: "(f32 \<Rightarrow> f32) \<Rightarrow> AudioFrame \<Rightarrow> AudioFrame \<Rightarrow> AudioFrame" where
  "send_into f inp out =
     out\<lparr>samples := map_into f (samples inp) (samples out), af_channels := af_channels inp,
         af_sample_rate := af_sample_rate inp\<rparr>"

fun AuxSendNode_process :: "f32 \<Rightarrow> AudioFrame list \<Rightarrow> AudioFrame list \<Rightarrow> AudioFrame list" where
  "AuxSendNode_process level [] outs = outs"
| "AuxSendNode_process level (inp # _) [] = []"
| "AuxSendNode_process level (inp # _) [main] = [send_into (\<lambda>x. x) inp main]"
| "AuxSendNode_process level (inp # _) (main # aux # rest) =
     send_into (\<lambda>x. x) inp main # send_into (\<lambda>x. f_mul x level) inp aux # rest"

section \<open>Channel map\<close>

datatype ChannelMode =
  Passthrough | Swap | MuteLeft | MuteRight | Pan f32 | MonoToStereo | StereoToMono

text \<open>What the mode does to the two samples at \<open>f * ch\<close> and \<open>f * ch + 1\<close>.\<close>

definition route_pair :: "libm \<Rightarrow> ChannelMode \<Rightarrow> f32 \<times> f32 \<Rightarrow> f32 \<times> f32" where
  "route_pair lm mode = (\<lambda>(l, r).
     case mode of
       Passthrough \<Rightarrow> (l, r)
     | Swap \<Rightarrow> (r, l)
     | MuteLeft \<Rightarrow> (f_0, r)
     | MuteRight \<Rightarrow> (l, f_0)
     | Pan pan \<Rightarrow>
         let angle = f_mul (f_add pan f_1) FRAC_PI_4
         in (f_mul l (m_cos lm angle), f_mul r (m_sin lm angle))
     | MonoToStereo \<Rightarrow> (l, l)
     | StereoToMono \<Rightarrow> let mid = f_mul (f_add l r) (f32_lit 5 10) in (mid, mid))"

definition route_frame :: "libm \<Rightarrow> ChannelMode \<Rightarrow> nat \<Rightarrow> nat \<Rightarrow> f32 list \<Rightarrow> f32 list option" where
  "route_frame lm mode ch f out =
     (if mode = Passthrough then Some out
      else do {
        l \<leftarrow> nth_opt out (f * ch);
        r \<leftarrow> nth_opt out (f * ch + 1);
        let (l, r) = route_pair lm mode (l, r);
        out \<leftarrow> set_opt out (f * ch) l;
        set_opt out (f * ch + 1) r
      })"

definition ChannelMapNode_process :: "libm \<Rightarrow> ChannelMode node_fn" where
  "ChannelMapNode_process lm mode ins outs =
     (case (ins, outs) of
        (inp # _, out # rest) \<Rightarrow>
          let n = min (length (samples inp)) (length (samples out));
              copied = copy_into (samples inp) (samples out);
              ch = unat (af_channels inp)
          in if ch = 0 \<or> n = 0 \<or> ch < 2 then Some (mode, out\<lparr>samples := copied\<rparr> # rest)
             else map_option (\<lambda>ys. (mode, out\<lparr>samples := ys\<rparr> # rest))
                    (for_in (route_frame lm mode ch) [0..<n div ch] copied)
      | _ \<Rightarrow> Some (mode, outs))"

definition set_mode :: "ChannelMode \<Rightarrow> ChannelMode \<Rightarrow> ChannelMode" where
  "set_mode mode node = mode"

section \<open>Stereo widener\<close>

definition StereoWidenerNode_new :: "f32 \<Rightarrow> f32" where
  "StereoWidenerNode_new width = f_clamp width f_0 f_2"

definition widen_pair :: "f32 \<Rightarrow> f32 list \<Rightarrow> nat \<Rightarrow> nat \<Rightarrow> f32 list \<Rightarrow> f32 list option" where
  "widen_pair width inp per_ch i out = do {
     left \<leftarrow> nth_opt inp i;
     right \<leftarrow> nth_opt inp (per_ch + i);
     let mid = f_mul (f_add left right) (f32_lit 5 10);
     let side = f_mul (f_mul (f_sub left right) (f32_lit 5 10)) width;
     out \<leftarrow> set_opt out i (f_add mid side);
     set_opt out (per_ch + i) (f_sub mid side)
   }"

definition StereoWidenerNode_process :: "f32 node_fn" where
  "StereoWidenerNode_process width ins outs =
     (case (ins, outs) of
        (inp # _, out # rest) \<Rightarrow>
          let n = min (length (samples inp)) (length (samples out));
              copied = copy_into (samples inp) (samples out);
              ch = unat (af_channels inp)
          in if ch \<noteq> 2 \<or> n = 0 then Some (width, out\<lparr>samples := copied\<rparr> # rest)
             else let per_ch = n div ch
                  in map_option (\<lambda>ys. (width, out\<lparr>samples := ys\<rparr> # rest))
                       (for_in (widen_pair width (samples inp) per_ch) [0..<per_ch] copied)
      | _ \<Rightarrow> Some (width, outs))"

section \<open>Limiter\<close>

definition LimiterNode_new :: "libm \<Rightarrow> f32 \<Rightarrow> f32" where
  "LimiterNode_new lm threshold_db = m_powf lm (f_of_int 10) (f_div threshold_db (f_of_int 20))"

definition limit_sample :: "f32 \<Rightarrow> f32 \<Rightarrow> f32" where
  "limit_sample threshold s = (if f_lt threshold (f_abs s) then f_mul threshold (f_signum s) else s)"

definition LimiterNode_process :: "f32 \<Rightarrow> AudioFrame list \<Rightarrow> AudioFrame list \<Rightarrow> AudioFrame list" where
  "LimiterNode_process threshold =
     one_to_one (\<lambda>inp out. out\<lparr>samples := map_into (limit_sample threshold) (samples inp) (samples out)\<rparr>)"

section \<open>Meter\<close>

record MeterNode =
  peak :: f32
  rms :: f32

definition MeterNode_new :: MeterNode where
  "MeterNode_new = \<lparr>peak = f_0, rms = f_0\<rparr>"

text \<open>The reading, and the meter with its peak reset.\<close>

definition MeterNode_snapshot :: "MeterNode \<Rightarrow> MeterNode \<times> MeterNode" where
  "MeterNode_snapshot node = (node, node\<lparr>peak := f_0\<rparr>)"

definition peak_of :: "f32 list \<Rightarrow> f32" where
  "peak_of xs = fold (\<lambda>x p. if f_lt p (f_abs x) then f_abs x else p) xs f_0"

definition sum_squares :: "f32 list \<Rightarrow> f32" where
  "sum_squares xs = fold (\<lambda>x acc. f_add acc (f_mul x x)) xs f_0"

text \<open>The exchange loop takes effect in one step, at its successful exchange or at the load that finds a peak as large.\<close>

definition MeterNode_process :: "libm \<Rightarrow> MeterNode node_fn" where
  "MeterNode_process lm node ins outs =
     (case (ins, outs) of
        (inp # _, out # rest) \<Rightarrow>
          let n = min (length (samples inp)) (length (samples out))
          in if n = 0 then Some (node, outs)
             else let xs = take n (samples inp); pk = peak_of xs
                  in Some (node\<lparr>peak := (if f_le pk (peak node) then peak node else pk),
                                rms := m_sqrt lm (f_div (sum_squares xs) (f_of_nat n))\<rparr>,
                           out\<lparr>samples := copy_into (samples inp) (samples out)\<rparr> # rest)
      | _ \<Rightarrow> Some (node, outs))"

section \<open>The routing nodes stay in range\<close>

lemma route_frame_ok:
  assumes "Suc f * ch \<le> length out" "2 \<le> ch"
  shows "\<exists>out'. route_frame lm mode ch f out = Some out' \<and> length out' = length out"
proof -
  have "f * ch + 1 < length out" using assms unfolding mult_Suc by linarith
  then show ?thesis by (auto simp: route_frame_def split_beta Let_def)
qed

lemma ChannelMap_loop_ok:
  assumes "2 \<le> ch" "n \<le> length out"
  shows "\<exists>out'. for_in (route_frame lm mode ch) [0..<n div ch] out = Some out' \<and> length out' = length out"
proof (rule for_in_invariant)
  fix f and xs :: "f32 list" assume f: "f \<in> set [0..<n div ch]" and len: "length xs = length out"
  have "Suc f * ch \<le> n div ch * ch" using f by (intro mult_le_mono1) simp
  also have "\<dots> \<le> length xs" using div_times_less_eq_dividend [of n ch] assms(2) len by linarith
  finally show "\<exists>s'. route_frame lm mode ch f xs = Some s' \<and> length s' = length out"
    using route_frame_ok [OF _ assms(1), of f xs lm mode] len by simp
qed simp

lemma widen_loop_ok:
  assumes "2 * p \<le> length inp" "2 * p \<le> length out"
  shows "\<exists>out'. for_in (widen_pair width inp p) [0..<p] out = Some out' \<and> length out' = length out"
  using assms by (intro for_in_invariant) (auto simp: widen_pair_def Let_def)

abbreviation frame_sizes :: "AudioFrame list \<Rightarrow> nat list" where
  "frame_sizes \<equiv> map (\<lambda>f. length (samples f))"

lemma ChannelMapNode_safe:
  "\<exists>outs'. ChannelMapNode_process lm mode ins outs = Some (mode, outs') \<and> frame_sizes outs' = frame_sizes outs"
proof (cases "\<exists>inp ins' out outs'. ins = inp # ins' \<and> outs = out # outs'")
  case True
  then obtain inp ins' out outs' where l: "ins = inp # ins'" "outs = out # outs'" by blast
  show ?thesis
  proof (cases "unat (af_channels inp) < 2")
    case False
    then obtain ys where "for_in (route_frame lm mode (unat (af_channels inp)))
        [0..<min (length (samples inp)) (length (samples out)) div unat (af_channels inp)]
        (copy_into (samples inp) (samples out)) = Some ys" "length ys = length (samples out)"
      using ChannelMap_loop_ok [of "unat (af_channels inp)" "min (length (samples inp)) (length (samples out))"
          "copy_into (samples inp) (samples out)" lm mode] by auto
    then show ?thesis by (simp add: ChannelMapNode_process_def l Let_def)
  qed (simp add: ChannelMapNode_process_def l Let_def)
qed (auto simp: ChannelMapNode_process_def split: list.splits)

lemma StereoWidenerNode_safe:
  "\<exists>outs'. StereoWidenerNode_process width ins outs = Some (width, outs') \<and> frame_sizes outs' = frame_sizes outs"
proof (cases "\<exists>inp ins' out outs'. ins = inp # ins' \<and> outs = out # outs'")
  case True
  then obtain inp ins' out outs' where l: "ins = inp # ins'" "outs = out # outs'" by blast
  let ?p = "min (length (samples inp)) (length (samples out)) div 2"
  have "2 * ?p \<le> length (samples inp)" "2 * ?p \<le> length (samples out)" by linarith+
  then obtain ys where "for_in (widen_pair width (samples inp) ?p) [0..<?p] (copy_into (samples inp) (samples out)) = Some ys"
      "length ys = length (samples out)"
    using widen_loop_ok [of ?p "samples inp" "copy_into (samples inp) (samples out)" width] by auto
  then show ?thesis by (simp add: StereoWidenerNode_process_def l Let_def)
qed (auto simp: StereoWidenerNode_process_def split: list.splits)

section \<open>Mixing\<close>

text \<open>One sample of the bus: the scaled samples of the inputs that reach so far, added in order.\<close>

definition bus_sample :: "f32 list \<Rightarrow> AudioFrame list \<Rightarrow> nat \<Rightarrow> f32" where
  "bus_sample gains ins k =
     fold (\<lambda>(i, frame) acc. if k < length (samples frame)
         then f_add acc (f_mul (samples frame ! k) (if i < length gains then gains ! i else f_0)) else acc)
       (zip [0..<length ins] ins) f_0"

lemma length_mix_input [simp]: "length (mix_input gains p out) = length out"
  by (simp add: mix_input_def split_beta Let_def)

lemma mix_input_nth:
  "k < length out \<Longrightarrow> mix_input gains (i, frame) out ! k =
     (if k < length (samples frame)
      then f_add (out ! k) (f_mul (samples frame ! k) (if i < length gains then gains ! i else f_0)) else out ! k)"
  by (simp add: mix_input_def Let_def)

lemma mix_fold_nth:
  "k < length out \<Longrightarrow> fold (mix_input gains) ps out ! k =
     fold (\<lambda>(i, frame) acc. if k < length (samples frame)
         then f_add acc (f_mul (samples frame ! k) (if i < length gains then gains ! i else f_0)) else acc) ps (out ! k)"
  by (induction ps arbitrary: out) (auto simp: mix_input_nth)

lemma length_mix_fold [simp]: "length (fold (mix_input gains) ps out) = length out"
  by (induction ps arbitrary: out) simp_all

lemma MixerNode_process_bus:
  "MixerNode_process gains ins (out # rest) =
     out\<lparr>samples := map (bus_sample gains ins) [0..<length (samples out)]\<rparr> # rest"
  unfolding MixerNode_process_def list.case
  by (intro arg_cong2 [where f = Cons] arg_cong [where f = "\<lambda>ys. out\<lparr>samples := ys\<rparr>"] nth_equalityI refl)
     (simp_all add: mix_fold_nth bus_sample_def)

section \<open>Limiting\<close>

lemma limit_sample_bound:
  assumes "f_le f_0 t" "f_le t f_1"
  shows "is_nan (limit_sample t s) \<or> f_le (f_abs (limit_sample t s)) t"
proof -
  have k: "f_key f_0 = 0" "f_key f_1 = 127 * 2 ^ 23" by (code_simp, code_simp)
  have t: "\<not> is_nan t" "f_key t = f_body t" "f_body t \<le> 127 * 2 ^ 23"
    using assms k by (auto simp: f_le_def f_key_def f_body_def split: if_splits)
  then have fin: "is_finite t" and e: "f_exp t \<le> 253"
    by (simp_all add: is_finite_def f_exp_def)
  show ?thesis
  proof (cases "f_lt t (f_abs s)")
    case True
    then have "\<not> is_nan s" by (simp add: f_lt_def)
    then obtain i :: int where i: "\<bar>i\<bar> = 1" "f_signum s = f_of_int i"
      using that [of "if f_sign s then - 1 else 1"] by (simp add: f_signum_def)
    have "f_le (f_abs (f_mul t (f_of_int i))) t"
      using f_body_mul_unit [OF fin e i(1)] finite_not_nan_inf t by (simp add: f_le_def f_key_abs)
    then show ?thesis using True i(2) by (simp add: limit_sample_def)
  next
    case False
    then show ?thesis using t by (auto simp: limit_sample_def f_lt_def f_le_def)
  qed
qed

section \<open>Metering\<close>

lemma peak_of_snoc: "peak_of (xs @ [x]) = (if f_lt (peak_of xs) (f_abs x) then f_abs x else peak_of xs)"
  by (simp add: peak_of_def)

lemma peak_of_finite: "\<not> is_nan (peak_of xs)"
proof (induction xs rule: rev_induct)
  case Nil
  have "\<not> is_nan f_0" by code_simp
  then show ?case by (simp add: peak_of_def)
qed (simp add: peak_of_snoc f_lt_def)

text \<open>The peak is an upper bound of the levels and, unless it is the initial zero, one of them.\<close>

lemma peak_of_bound: "x \<in> set xs \<Longrightarrow> \<not> is_nan x \<Longrightarrow> f_le (f_abs x) (peak_of xs)"
proof (induction xs rule: rev_induct)
  case (snoc y ys)
  then show ?case using peak_of_finite [of ys] by (auto simp: peak_of_snoc f_lt_def f_le_def)
qed simp

lemma peak_of_attained: "peak_of xs = f_0 \<or> (\<exists>x \<in> set xs. peak_of xs = f_abs x)"
  by (induction xs rule: rev_induct) (auto simp: peak_of_snoc, auto simp: peak_of_def)

section \<open>Muting\<close>

lemma mute_left_loop:
  assumes "2 * q \<le> length xs"
  shows "for_in (route_frame lm MuteLeft 2) [0..<q] xs =
    Some (map (\<lambda>k. if even k \<and> k < 2 * q then f_0 else xs ! k) [0..<length xs])"
  using assms
proof (induction q)
  case 0
  then show ?case by (simp add: map_nth)
next
  case (Suc q)
  let ?ys = "map (\<lambda>k. if even k \<and> k < 2 * q then f_0 else xs ! k) [0..<length xs]"
  have "?ys[q * 2 := f_0, q * 2 + 1 := ?ys ! (q * 2 + 1)] =
      map (\<lambda>k. if even k \<and> k < 2 * Suc q then f_0 else xs ! k) [0..<length xs]"
    using Suc.prems by (intro nth_equalityI) (auto simp: nth_list_update less_Suc_eq)
  then show ?case using Suc by (simp add: for_in_append route_frame_def route_pair_def)
qed

section \<open>Properties\<close>

text \<open>
  C33: With a threshold between zero and full scale the limiter is a brick wall: no sample it writes exceeds
  the threshold, whatever the input (a NaN stays one), and a sample within the threshold passes unchanged.\<close>

theorem limiter_bound:
  assumes "f_le f_0 t" "f_le t f_1" "i < length (samples inp)" "i < length (samples out)"
    "LimiterNode_process t (inp # ins) (out # outs) = out' # outs'"
  shows "length (samples out') = length (samples out) \<and>
    (is_nan (samples out' ! i) \<or> f_le (f_abs (samples out' ! i)) t) \<and>
    (f_le (f_abs (samples inp ! i)) t \<longrightarrow> samples out' ! i = samples inp ! i)"
proof -
  have out': "samples out' = map_into (limit_sample t) (samples inp) (samples out)"
    using assms(5) by (auto simp: LimiterNode_process_def one_to_one_def)
  then have y: "samples out' ! i = limit_sample t (samples inp ! i)"
    using assms(3,4) by (simp add: map_into_nth)
  have "length (samples out') = length (samples out)" by (simp add: out')
  moreover have "is_nan (samples out' ! i) \<or> f_le (f_abs (samples out' ! i)) t"
    unfolding y by (rule limit_sample_bound [OF assms(1,2)])
  moreover have "samples out' ! i = samples inp ! i" if "f_le (f_abs (samples inp ! i)) t"
    using that y by (simp add: limit_sample_def f_lt_def f_le_def)
  ultimately show ?thesis by blast
qed

theorem limiter_bound_witness:
  "f_le (f_abs (samples (hd (LimiterNode_process (f32_lit 1 2)
     [\<lparr>af_channels = 1, af_sample_rate = 48000, samples = [f_of_int (- 3)]\<rparr>]
     [\<lparr>af_channels = 1, af_sample_rate = 48000, samples = [f_0]\<rparr>])) ! 0)) (f32_lit 1 2)"
proof -
  let ?inp = "\<lparr>af_channels = 1, af_sample_rate = 48000, samples = [f_of_int (- 3)]\<rparr>"
  let ?out = "\<lparr>af_channels = 1, af_sample_rate = 48000, samples = [f_0]\<rparr>"
  have t: "f_le f_0 (f32_lit 1 2)" "f_le (f32_lit 1 2) f_1" by (code_simp, code_simp)
  obtain out' where run: "LimiterNode_process (f32_lit 1 2) [?inp] [?out] = [out']"
    by (simp add: LimiterNode_process_def one_to_one_def)
  have "\<not> is_nan (limit_sample (f32_lit 1 2) (f_of_int (- 3)))" by code_simp
  moreover have "samples out' ! 0 = limit_sample (f32_lit 1 2) (f_of_int (- 3))"
    using run by (auto simp: LimiterNode_process_def one_to_one_def map_into_def)
  moreover note limiter_bound [OF t _ _ run, of 0]
  ultimately show ?thesis using run by simp
qed

text \<open>The meter over successive cycles.\<close>

definition meter_cycles :: "libm \<Rightarrow> (AudioFrame \<times> AudioFrame) list \<Rightarrow> MeterNode \<Rightarrow> MeterNode option" where
  "meter_cycles lm = for_in (\<lambda>(inp, out) node. map_option fst (MeterNode_process lm node [inp] [out]))"

definition heard :: "(AudioFrame \<times> AudioFrame) list \<Rightarrow> f32 list" where
  "heard cycles = concat (map (\<lambda>c. samples (fst c)) cycles)"

lemma heard_Cons: "set (heard ((inp, out) # cs)) = set (samples inp) \<union> set (heard cs)"
  by (simp add: heard_def)

lemma meter_cycle:
  assumes "length (samples inp) \<le> length (samples out)" "\<not> is_nan (peak node)"
  shows "\<exists>node'. MeterNode_process lm node [inp] [out] =
      Some (node', [out\<lparr>samples := copy_into (samples inp) (samples out)\<rparr>]) \<and>
    \<not> is_nan (peak node') \<and> f_le (peak node) (peak node') \<and>
    (\<forall>x \<in> set (samples inp). is_nan x \<or> f_le (f_abs x) (peak node')) \<and>
    (peak node' = peak node \<or> peak node' = f_0 \<or> (\<exists>x \<in> set (samples inp). peak node' = f_abs x))"
proof (cases "samples inp = []")
  case True
  then show ?thesis using assms(2) by (simp add: MeterNode_process_def map_into_def f_le_def)
next
  case False
  let ?pk = "peak_of (samples inp)"
  have pk: "\<not> is_nan ?pk" by (rule peak_of_finite)
  have bound: "is_nan x \<or> f_le (f_abs x) ?pk" if "x \<in> set (samples inp)" for x
    using peak_of_bound [OF that] by blast
  show ?thesis
  proof (cases "f_le ?pk (peak node)")
    case True
    then have "\<forall>x \<in> set (samples inp). is_nan x \<or> f_le (f_abs x) (peak node)" using bound f_le_trans by blast
    then show ?thesis using False True assms by (simp add: MeterNode_process_def Let_def min_def f_le_def [of "peak node"])
  next
    case above: False
    then have "f_le (peak node) ?pk" using assms(2) pk by (auto simp: f_le_def)
    then show ?thesis
      using False above assms pk bound peak_of_attained [of "samples inp"]
      by (auto simp: MeterNode_process_def Let_def min_def)
  qed
qed

text \<open>
  The meter holds the peak: over any number of cycles since it was reset, whatever lengths the frames
  have, the reading a snapshot returns bounds the level of every sample that went through, is the level of
  one of them or zero, and the snapshot resets it; the audio itself is passed on unchanged.\<close>

theorem meter_peak_hold:
  assumes "\<forall>(inp, out) \<in> set cycles. length (samples inp) \<le> length (samples out)" "peak node = f_0"
  shows "\<exists>node'. meter_cycles lm cycles node = Some node' \<and>
    (\<forall>x \<in> set (heard cycles). is_nan x \<or> f_le (f_abs x) (peak (fst (MeterNode_snapshot node')))) \<and>
    (peak (fst (MeterNode_snapshot node')) = f_0 \<or> (\<exists>x \<in> set (heard cycles). peak (fst (MeterNode_snapshot node')) = f_abs x)) \<and>
    peak (snd (MeterNode_snapshot node')) = f_0"
proof -
  have zero: "\<not> is_nan f_0" by code_simp
  have "\<exists>node'. meter_cycles lm cycles node = Some node' \<and> \<not> is_nan (peak node') \<and> f_le (peak node) (peak node') \<and>
      (\<forall>x \<in> set (heard cycles). is_nan x \<or> f_le (f_abs x) (peak node')) \<and>
      (peak node' = peak node \<or> peak node' = f_0 \<or>
       (\<exists>x \<in> set (heard cycles). peak node' = f_abs x))"
    if "\<not> is_nan (peak node)"
    using assms(1) that
  proof (induction cycles arbitrary: node)
    case Nil
    then show ?case by (simp add: meter_cycles_def heard_def f_le_def)
  next
    case (Cons c cs)
    obtain inp out where c: "c = (inp, out)" by fastforce
    have fits: "length (samples inp) \<le> length (samples out)"
      and tail: "\<forall>(inp, out) \<in> set cs. length (samples inp) \<le> length (samples out)"
      using Cons.prems(1) c by simp_all
    obtain node1 where n1: "MeterNode_process lm node [inp] [out] =
          Some (node1, [out\<lparr>samples := copy_into (samples inp) (samples out)\<rparr>])"
        "\<not> is_nan (peak node1)" "f_le (peak node) (peak node1)"
        "\<forall>x \<in> set (samples inp). is_nan x \<or> f_le (f_abs x) (peak node1)"
        "peak node1 = peak node \<or> peak node1 = f_0 \<or> (\<exists>x \<in> set (samples inp). peak node1 = f_abs x)"
      using meter_cycle [OF fits Cons.prems(2), of lm] by blast
    obtain node2 where n2: "meter_cycles lm cs node1 = Some node2" "\<not> is_nan (peak node2)" "f_le (peak node1) (peak node2)"
        "\<forall>x \<in> set (heard cs). is_nan x \<or> f_le (f_abs x) (peak node2)"
        "peak node2 = peak node1 \<or> peak node2 = f_0 \<or>
         (\<exists>x \<in> set (heard cs). peak node2 = f_abs x)"
      using Cons.IH [OF tail n1(2)] by blast
    have "meter_cycles lm (c # cs) node = Some node2" using n1(1) n2(1) by (simp add: meter_cycles_def c)
    moreover have "\<forall>x \<in> set (samples inp). is_nan x \<or> f_le (f_abs x) (peak node2)"
      using n1(4) n2(2,3) by (auto simp: f_le_def)
    moreover have "f_le (peak node) (peak node2)" using n1(3) n2(3) by (auto simp: f_le_def)
    moreover have "peak node2 = peak node \<or> peak node2 = f_0 \<or> (\<exists>x \<in> set (heard (c # cs)). peak node2 = f_abs x)"
      using n1(5) n2(5) unfolding c heard_Cons bex_Un by (elim disjE) simp_all
    ultimately show ?case using n2(2,4) unfolding c heard_Cons ball_Un by (intro exI [of _ node2]) simp
  qed
  then show ?thesis using assms(2) zero by (auto simp: MeterNode_snapshot_def)
qed

theorem meter_peak_hold_witness:
  "\<exists>node'. meter_cycles \<lparr>m_sin = id, m_cos = id, m_exp = id, m_tanh = id, m_powf = (\<lambda>x y. x), m_sqrt = id\<rparr>
      [(\<lparr>af_channels = 1, af_sample_rate = 48000, samples = [f_of_int (- 3), f_1]\<rparr>,
        \<lparr>af_channels = 1, af_sample_rate = 48000, samples = [f_0, f_0]\<rparr>)] MeterNode_new = Some node' \<and>
    f_le (f_abs (f_of_int (- 3))) (peak (fst (MeterNode_snapshot node')))"
proof -
  have "\<not> is_nan (f_of_int (- 3))" by code_simp
  then show ?thesis
    using meter_peak_hold [of "[(\<lparr>af_channels = 1, af_sample_rate = 48000, samples = [f_of_int (- 3), f_1]\<rparr>,
        \<lparr>af_channels = 1, af_sample_rate = 48000, samples = [f_0, f_0]\<rparr>)]" MeterNode_new]
    by (fastforce simp: MeterNode_new_def heard_def)
qed

text \<open>
  The channel map takes a frame for interleaved, where the graph's frames are planar. Muting the left
  channel of a stereo frame of \<open>p\<close> samples per channel silences every other sample of both channels and leaves
  the rest of both as they were.\<close>

theorem channel_map_interleaved:
  assumes "af_channels inp = 2" "length (samples inp) = 2 * p" "length (samples out) = 2 * p" "k < 2 * p"
  shows "\<exists>out'. ChannelMapNode_process lm MuteLeft [inp] [out] = Some (MuteLeft, [out']) \<and>
    samples out' ! k = (if even k then f_0 else samples inp ! k)"
proof -
  have copy: "copy_into (samples inp) (samples out) = samples inp" using assms(2,3) by (simp add: map_into_def)
  have "for_in (route_frame lm MuteLeft 2) [0..<p] (samples inp) =
      Some (map (\<lambda>k. if even k \<and> k < 2 * p then f_0 else samples inp ! k) [0..<length (samples inp)])"
    using mute_left_loop [of p "samples inp" lm] assms(2) by simp
  then show ?thesis using assms copy by (auto simp: ChannelMapNode_process_def Let_def)
qed

theorem channel_map_interleaved_witness:
  "\<exists>out'. ChannelMapNode_process \<lparr>m_sin = id, m_cos = id, m_exp = id, m_tanh = id, m_powf = (\<lambda>x y. x), m_sqrt = id\<rparr> MuteLeft
      [\<lparr>af_channels = 2, af_sample_rate = 48000, samples = [f_1, f_1, f_2, f_2]\<rparr>]
      [\<lparr>af_channels = 2, af_sample_rate = 48000, samples = [f_0, f_0, f_0, f_0]\<rparr>] = Some (MuteLeft, [out']) \<and>
    samples out' ! 1 = f_1"
  using channel_map_interleaved [of "\<lparr>af_channels = 2, af_sample_rate = 48000, samples = [f_1, f_1, f_2, f_2]\<rparr>" 2
      "\<lparr>af_channels = 2, af_sample_rate = 48000, samples = [f_0, f_0, f_0, f_0]\<rparr>" 1]
  by simp

end
