(* ===== verification/Dsp_Filters.thy ===== *)
theory Dsp_Filters
  imports Dsp_Stateless
begin

text \<open>
  The nodes that filter each channel of a planar frame on its own, one sample after the other: distortion,
  delay, bitcrusher, compressor, noise gate and equalizer (\<open>nodes/*.rs\<close>). Each is a record of the source's
  vectors, a \<open>process_sample\<close> that panics (\<open>None\<close>) where an index is out of range, and the planar loop. The
  locale \<open>planar_node\<close> is interpreted on every one of them, with the filter a single channel runs as its kernel.
\<close>

section \<open>Distortion\<close>

datatype DistortionMode = SoftClip | HardClip | Foldback | Overdrive

record DistortionNode =
  ds_drive :: f32
  ds_mode :: DistortionMode
  ds_threshold :: f32
  ds_output_level :: f32

definition DistortionNode_new :: "DistortionMode \<Rightarrow> f32 \<Rightarrow> f32 \<Rightarrow> f32 \<Rightarrow> DistortionNode" where
  "DistortionNode_new mode drive threshold output_level =
     \<lparr>ds_drive = f_clamp drive (f32_lit 1 10) (f_of_int 20), ds_mode = mode,
      ds_threshold = f_clamp threshold (f32_lit 1 100) f_1, ds_output_level = f_clamp output_level f_0 f_2\<rparr>"

text \<open>The loop that folds the signal back, at most eight times.\<close>

primrec fold_back :: "f32 \<Rightarrow> nat \<Rightarrow> f32 \<Rightarrow> f32" where
  "fold_back t 0 s = s"
| "fold_back t (Suc n) s =
     (if f_le (f_abs s) t then s
      else fold_back t n (f_mul (f_mul t (f_signum s)) (f_sub f_2 (f_div (f_abs s) t))))"

text \<open>\<open>f32::clamp\<close> panics unless its bounds are ordered.\<close>

definition distort_sample :: "libm \<Rightarrow> f32 \<Rightarrow> DistortionNode \<Rightarrow> f32 option" where
  "distort_sample lm x node = do {
     let driven = f_mul (ds_drive node) x;
     let t = ds_threshold node;
     shaped \<leftarrow>
       (case ds_mode node of
          SoftClip \<Rightarrow> Some (m_tanh lm driven)
        | HardClip \<Rightarrow> Some (if f_lt t (f_abs driven) then f_mul t (f_signum driven) else driven)
        | Foldback \<Rightarrow> if f_le (f_neg t) t then Some (f_clamp (fold_back t 8 driven) (f_neg t) t) else None
        | Overdrive \<Rightarrow>
            Some (if f_le f_0 driven then f_sub f_1 (m_exp lm (f_neg driven))
                  else f_neg (f_sub f_1 (m_exp lm driven))));
     Some (f_div shaped (f_max (ds_output_level node) (f32_lit 1 1000000000)))
   }"

definition DistortionNode_step :: "libm \<Rightarrow> f32 \<Rightarrow> nat \<Rightarrow> DistortionNode \<Rightarrow> (f32 \<times> DistortionNode) option" where
  "DistortionNode_step lm x c node = map_option (\<lambda>y. (y, node)) (distort_sample lm x node)"

definition DistortionNode_process :: "libm \<Rightarrow> DistortionNode node_fn" where
  "DistortionNode_process lm = process_planar (DistortionNode_step lm)"

section \<open>Delay\<close>

record DelayNode =
  dl_buffer :: "f32 list list"
  dl_write_pos :: "nat list"
  dl_delay_samples :: nat
  dl_feedback :: f32
  dl_mix :: f32

definition DELAY_FEEDBACK_CEIL :: f32 where "DELAY_FEEDBACK_CEIL = f32_lit 99 100"

definition DelayNode_new :: "nat \<Rightarrow> nat \<Rightarrow> f32 \<Rightarrow> f32 \<Rightarrow> u16 \<Rightarrow> DelayNode" where
  "DelayNode_new max_delay_samples delay_samples feedback mix channels =
     (let cap = max max_delay_samples 1; delay = min (max delay_samples 1) cap; ch = max (unat channels) 1
      in \<lparr>dl_buffer = replicate ch (replicate cap f_0), dl_write_pos = replicate ch 0, dl_delay_samples = delay,
          dl_feedback = f_clamp feedback f_0 DELAY_FEEDBACK_CEIL, dl_mix = f_clamp mix f_0 f_1\<rparr>)"

text \<open>The subtraction cannot wrap: a delay is at most the capacity of its buffer.\<close>

definition DelayNode_step :: "f32 \<Rightarrow> nat \<Rightarrow> DelayNode \<Rightarrow> (f32 \<times> DelayNode) option" where
  "DelayNode_step x ch node = do {
     buf \<leftarrow> nth_opt (dl_buffer node) ch;
     let cap = length buf;
     wp \<leftarrow> nth_opt (dl_write_pos node) ch;
     let read_pos = (wp + cap - dl_delay_samples node) mod cap;
     delayed \<leftarrow> nth_opt buf read_pos;
     let wet = f_add x (f_mul delayed (dl_feedback node));
     buf \<leftarrow> set_opt buf wp wet;
     let dry = f_mul x (f_sub f_1 (dl_mix node));
     Some (f_add dry (f_mul wet (dl_mix node)),
       node\<lparr>dl_buffer := (dl_buffer node)[ch := buf], dl_write_pos := (dl_write_pos node)[ch := (wp + 1) mod cap]\<rparr>)
   }"

definition DelayNode_process :: "DelayNode node_fn" where
  "DelayNode_process = process_planar DelayNode_step"

section \<open>Bitcrusher\<close>

record BitcrusherNode =
  bc_bits :: nat
  bc_hold_factor :: nat
  bc_held_samples :: "f32 list"
  bc_counters :: "nat list"

definition BitcrusherNode_new :: "nat \<Rightarrow> nat \<Rightarrow> u16 \<Rightarrow> BitcrusherNode" where
  "BitcrusherNode_new bits hold_factor channels =
     (let ch = max (unat channels) 1
      in \<lparr>bc_bits = min (max bits 1) 16, bc_hold_factor = min (max hold_factor 1) 256,
          bc_held_samples = replicate ch f_0, bc_counters = replicate ch 0\<rparr>)"

definition crush :: "nat \<Rightarrow> f32 \<Rightarrow> f32" where
  "crush bits held =
     (let denom = f_of_nat (2 ^ bits - 1);
          norm = f_mul (f_add (f_clamp held (f_of_int (- 1)) f_1) f_1) (f32_lit 5 10);
          quantized = f_div (f_round (f_mul norm denom)) denom
      in f_sub (f_mul quantized f_2) f_1)"

definition BitcrusherNode_step :: "f32 \<Rightarrow> nat \<Rightarrow> BitcrusherNode \<Rightarrow> (f32 \<times> BitcrusherNode) option" where
  "BitcrusherNode_step x ch node = do {
     k \<leftarrow> nth_opt (bc_counters node) ch;
     held \<leftarrow> (if k mod bc_hold_factor node = 0 then set_opt (bc_held_samples node) ch x
              else Some (bc_held_samples node));
     h \<leftarrow> nth_opt held ch;
     Some (crush (bc_bits node) h,
       node\<lparr>bc_held_samples := held, bc_counters := (bc_counters node)[ch := (k + 1) mod 2 ^ 64]\<rparr>)
   }"

definition BitcrusherNode_process :: "BitcrusherNode node_fn" where
  "BitcrusherNode_process = process_planar BitcrusherNode_step"

section \<open>Compressor\<close>

definition time_constant :: "libm \<Rightarrow> f32 \<Rightarrow> u32 \<Rightarrow> f32" where
  "time_constant lm ms sample_rate =
     (if f_le ms f_0 then f_1
      else let n = f_mul (f_mul ms (f32_lit 1 1000)) (f_of_nat (unat sample_rate))
           in f_sub f_1 (m_exp lm (f_div (f_of_int (- 1)) n)))"

definition db_to_linear :: "libm \<Rightarrow> f32 \<Rightarrow> f32" where
  "db_to_linear lm db = m_powf lm (f_of_int 10) (f_div db (f_of_int 20))"

record CompressorNode =
  co_threshold :: f32
  co_ratio :: f32
  co_attack_coef :: f32
  co_release_coef :: f32
  co_makeup :: f32
  co_envelope :: "f32 list"

definition CompressorNode_new :: "libm \<Rightarrow> f32 \<Rightarrow> f32 \<Rightarrow> f32 \<Rightarrow> f32 \<Rightarrow> f32 \<Rightarrow> u32 \<Rightarrow> u16 \<Rightarrow> CompressorNode" where
  "CompressorNode_new lm threshold_db ratio attack_ms release_ms makeup_db sample_rate channels =
     \<lparr>co_threshold = db_to_linear lm threshold_db, co_ratio = ratio,
      co_attack_coef = time_constant lm attack_ms sample_rate, co_release_coef = time_constant lm release_ms sample_rate,
      co_makeup = db_to_linear lm makeup_db, co_envelope = replicate (unat channels) f_0\<rparr>"

definition follow :: "f32 \<Rightarrow> f32 \<Rightarrow> f32 \<Rightarrow> f32 \<Rightarrow> f32" where
  "follow attack release target v =
     (let coef = (if f_lt v target then attack else release) in f_add v (f_mul coef (f_sub target v)))"

definition CompressorNode_step :: "libm \<Rightarrow> f32 \<Rightarrow> nat \<Rightarrow> CompressorNode \<Rightarrow> (f32 \<times> CompressorNode) option" where
  "CompressorNode_step lm x ch node = do {
     env \<leftarrow> nth_opt (co_envelope node) ch;
     let env = follow (co_attack_coef node) (co_release_coef node) (f_abs x) env;
     let t = co_threshold node;
     let gain =
       (if f_lt t env \<and> f_lt (f32_lit 1 1000000000) env
        then f_div (f_mul t (m_powf lm (f_div env t) (f_div f_1 (co_ratio node)))) env
        else f_1);
     Some (f_mul (f_mul x gain) (co_makeup node), node\<lparr>co_envelope := (co_envelope node)[ch := env]\<rparr>)
   }"

definition CompressorNode_process :: "libm \<Rightarrow> CompressorNode node_fn" where
  "CompressorNode_process lm = process_planar (CompressorNode_step lm)"

section \<open>Noise gate\<close>

record NoiseGateNode =
  ng_threshold :: f32
  ng_attack_coef :: f32
  ng_release_coef :: f32
  ng_hold_samples :: nat
  ng_envelope :: "f32 list"
  ng_hold_counter :: "nat list"
  ng_gain :: "f32 list"

definition NoiseGateNode_new :: "libm \<Rightarrow> f32 \<Rightarrow> f32 \<Rightarrow> f32 \<Rightarrow> f32 \<Rightarrow> u32 \<Rightarrow> u16 \<Rightarrow> NoiseGateNode" where
  "NoiseGateNode_new lm threshold_db attack_ms hold_ms release_ms sample_rate channels =
     (let ch = unat channels
      in \<lparr>ng_threshold = db_to_linear lm threshold_db, ng_attack_coef = time_constant lm attack_ms sample_rate,
          ng_release_coef = time_constant lm release_ms sample_rate,
          ng_hold_samples = f_to_usize (f_mul (f_mul hold_ms (f32_lit 1 1000)) (f_of_nat (unat sample_rate))),
          ng_envelope = replicate ch f_0, ng_hold_counter = replicate ch 0, ng_gain = replicate ch f_0\<rparr>)"

text \<open>The target gain, and the hold counter after the decision.\<close>

definition gate_target :: "bool \<Rightarrow> nat \<Rightarrow> nat \<Rightarrow> f32 \<times> nat" where
  "gate_target loud hold_samples hold =
     (if loud then (f_1, hold_samples) else if 0 < hold then (f_1, hold - 1) else (f_0, hold))"

definition NoiseGateNode_step :: "f32 \<Rightarrow> nat \<Rightarrow> NoiseGateNode \<Rightarrow> (f32 \<times> NoiseGateNode) option" where
  "NoiseGateNode_step x ch node = do {
     env \<leftarrow> nth_opt (ng_envelope node) ch;
     let env = follow (ng_attack_coef node) (ng_release_coef node) (f_abs x) env;
     hold \<leftarrow> nth_opt (ng_hold_counter node) ch;
     let (target, hold) = gate_target (f_lt (ng_threshold node) env) (ng_hold_samples node) hold;
     g \<leftarrow> nth_opt (ng_gain node) ch;
     let g = follow (ng_attack_coef node) (ng_release_coef node) target g;
     Some (f_mul x g,
       node\<lparr>ng_envelope := (ng_envelope node)[ch := env], ng_hold_counter := (ng_hold_counter node)[ch := hold],
            ng_gain := (ng_gain node)[ch := g]\<rparr>)
   }"

definition NoiseGateNode_process :: "NoiseGateNode node_fn" where
  "NoiseGateNode_process = process_planar NoiseGateNode_step"

section \<open>Equalizer\<close>

datatype FilterType = LowPass | HighPass | BandPass | Peaking | LowShelf | HighShelf

record Coeffs =
  b0 :: f32
  b1 :: f32
  b2 :: f32
  a1 :: f32
  a2 :: f32

record EqNode =
  eq_coeffs :: Coeffs
  eq_z1 :: "f32 list"
  eq_z2 :: "f32 list"

text \<open>The six coefficients before they are divided by \<open>a0\<close>, from \<open>cos\<close>, \<open>alpha\<close>, \<open>a\<close> and \<open>sqrt (a * a)\<close>.\<close>

definition raw_coeffs :: "FilterType \<Rightarrow> f32 \<Rightarrow> f32 \<Rightarrow> f32 \<Rightarrow> f32 \<Rightarrow> f32 \<times> f32 \<times> f32 \<times> f32 \<times> f32 \<times> f32" where
  "raw_coeffs ft cos alpha a sq =
     (let one_minus = f_sub f_1 cos; one_plus = f_add f_1 cos; minus_2cos = f_mul (f_of_int (- 2)) cos;
          ap = f_add a f_1; am = f_sub a f_1; sa = f_mul (f_mul f_2 sq) alpha
      in case ft of
           LowPass \<Rightarrow>
             (f_div one_minus f_2, one_minus, f_div one_minus f_2, f_add f_1 alpha, minus_2cos, f_sub f_1 alpha)
         | HighPass \<Rightarrow>
             (f_div one_plus f_2, f_neg one_plus, f_div one_plus f_2, f_add f_1 alpha, minus_2cos, f_sub f_1 alpha)
         | BandPass \<Rightarrow> (alpha, f_0, f_neg alpha, f_add f_1 alpha, minus_2cos, f_sub f_1 alpha)
         | Peaking \<Rightarrow>
             (f_add f_1 (f_mul alpha a), minus_2cos, f_sub f_1 (f_mul alpha a),
              f_add f_1 (f_div alpha a), minus_2cos, f_sub f_1 (f_div alpha a))
         | LowShelf \<Rightarrow>
             (f_mul a (f_add (f_sub ap (f_mul am cos)) sa),
              f_mul (f_mul f_2 a) (f_sub am (f_mul ap cos)),
              f_mul a (f_sub (f_sub ap (f_mul am cos)) sa),
              f_add (f_add ap (f_mul am cos)) sa,
              f_mul (f_of_int (- 2)) (f_add am (f_mul ap cos)),
              f_sub (f_add ap (f_mul am cos)) sa)
         | HighShelf \<Rightarrow>
             (f_mul a (f_add (f_add ap (f_mul am cos)) sa),
              f_mul (f_mul (f_of_int (- 2)) a) (f_add am (f_mul ap cos)),
              f_mul a (f_sub (f_add ap (f_mul am cos)) sa),
              f_add (f_sub ap (f_mul am cos)) sa,
              f_mul f_2 (f_sub am (f_mul ap cos)),
              f_sub (f_sub ap (f_mul am cos)) sa))"

definition compute_coeffs :: "libm \<Rightarrow> FilterType \<Rightarrow> f32 \<Rightarrow> f32 \<Rightarrow> f32 \<Rightarrow> u32 \<Rightarrow> Coeffs" where
  "compute_coeffs lm ft freq gain_db q sample_rate =
     (let sr = f_of_nat (unat sample_rate);
          w0 = f_div (f_mul (f_mul f_2 PI) freq) sr;
          alpha = f_div (m_sin lm w0) (f_mul f_2 q);
          a = m_powf lm (f_of_int 10) (f_div gain_db (f_of_int 40));
          (r0, r1, r2, s0, s1, s2) = raw_coeffs ft (m_cos lm w0) alpha a (m_sqrt lm (f_mul a a))
      in \<lparr>b0 = f_div r0 s0, b1 = f_div r1 s0, b2 = f_div r2 s0, a1 = f_div s1 s0, a2 = f_div s2 s0\<rparr>)"

definition EqNode_new :: "libm \<Rightarrow> FilterType \<Rightarrow> f32 \<Rightarrow> f32 \<Rightarrow> f32 \<Rightarrow> u32 \<Rightarrow> u16 \<Rightarrow> EqNode" where
  "EqNode_new lm filter_type freq gain_db q sample_rate channels =
     \<lparr>eq_coeffs = compute_coeffs lm filter_type freq gain_db q sample_rate,
      eq_z1 = replicate (unat channels) f_0, eq_z2 = replicate (unat channels) f_0\<rparr>"

definition EqNode_step :: "f32 \<Rightarrow> nat \<Rightarrow> EqNode \<Rightarrow> (f32 \<times> EqNode) option" where
  "EqNode_step x ch node = do {
     let c = eq_coeffs node;
     z1 \<leftarrow> nth_opt (eq_z1 node) ch;
     let y = f_add (f_mul (b0 c) x) z1;
     z2 \<leftarrow> nth_opt (eq_z2 node) ch;
     let z1 = f_add (f_sub (f_mul (b1 c) x) (f_mul (a1 c) y)) z2;
     let z2 = f_sub (f_mul (b2 c) x) (f_mul (a2 c) y);
     Some (y, node\<lparr>eq_z1 := (eq_z1 node)[ch := z1], eq_z2 := (eq_z2 node)[ch := z2]\<rparr>)
   }"

definition EqNode_process :: "EqNode node_fn" where
  "EqNode_process = process_planar EqNode_step"

section \<open>One channel of each node\<close>

text \<open>
  The filter a channel runs, on the part of the state that is its own; and, per node, what its vectors must
  satisfy for no index to be out of range.
\<close>

definition distortion_kernel :: "libm \<Rightarrow> DistortionNode \<Rightarrow> f32 \<Rightarrow> unit \<Rightarrow> f32 \<times> unit" where
  "distortion_kernel lm node x u = (the (distort_sample lm x node), ())"

definition distortion_ok :: "DistortionNode \<Rightarrow> bool" where
  "distortion_ok node \<longleftrightarrow> ds_mode node = Foldback \<longrightarrow> f_le (f_neg (ds_threshold node)) (ds_threshold node)"

definition delay_kernel :: "nat \<Rightarrow> f32 \<Rightarrow> f32 \<Rightarrow> f32 \<Rightarrow> f32 list \<times> nat \<Rightarrow> f32 \<times> f32 list \<times> nat" where
  "delay_kernel delay feedback mix x = (\<lambda>(buf, wp).
     let wet = f_add x (f_mul (buf ! ((wp + length buf - delay) mod length buf)) feedback)
     in (f_add (f_mul x (f_sub f_1 mix)) (f_mul wet mix), buf[wp := wet], (wp + 1) mod length buf))"

definition delay_ok :: "DelayNode \<Rightarrow> bool" where
  "delay_ok node \<longleftrightarrow> length (dl_write_pos node) = length (dl_buffer node) \<and> 1 \<le> dl_delay_samples node \<and>
     (\<forall>c < length (dl_buffer node). dl_delay_samples node \<le> length (dl_buffer node ! c) \<and>
        dl_write_pos node ! c < length (dl_buffer node ! c))"

definition crusher_kernel :: "nat \<Rightarrow> nat \<Rightarrow> f32 \<Rightarrow> f32 \<times> nat \<Rightarrow> f32 \<times> f32 \<times> nat" where
  "crusher_kernel bits hold_factor x = (\<lambda>(held, k).
     let held = (if k mod hold_factor = 0 then x else held) in (crush bits held, held, (k + 1) mod 2 ^ 64))"

definition crusher_ok :: "BitcrusherNode \<Rightarrow> bool" where
  "crusher_ok node \<longleftrightarrow> length (bc_held_samples node) = length (bc_counters node)"

definition compressor_kernel :: "libm \<Rightarrow> f32 \<Rightarrow> f32 \<Rightarrow> f32 \<Rightarrow> f32 \<Rightarrow> f32 \<Rightarrow> f32 \<Rightarrow> f32 \<Rightarrow> f32 \<times> f32" where
  "compressor_kernel lm t ratio attack release makeup x env =
     (let env = follow attack release (f_abs x) env;
          gain = (if f_lt t env \<and> f_lt (f32_lit 1 1000000000) env
                  then f_div (f_mul t (m_powf lm (f_div env t) (f_div f_1 ratio))) env else f_1)
      in (f_mul (f_mul x gain) makeup, env))"

definition gate_kernel :: "f32 \<Rightarrow> f32 \<Rightarrow> f32 \<Rightarrow> nat \<Rightarrow> f32 \<Rightarrow> f32 \<times> nat \<times> f32 \<Rightarrow> f32 \<times> f32 \<times> nat \<times> f32" where
  "gate_kernel t attack release hold_samples x = (\<lambda>(env, hold, g).
     let env = follow attack release (f_abs x) env;
         (target, hold) = gate_target (f_lt t env) hold_samples hold;
         g = follow attack release target g
     in (f_mul x g, env, hold, g))"

definition gate_ok :: "NoiseGateNode \<Rightarrow> bool" where
  "gate_ok node \<longleftrightarrow> length (ng_hold_counter node) = length (ng_envelope node) \<and>
     length (ng_gain node) = length (ng_envelope node)"

definition eq_kernel :: "Coeffs \<Rightarrow> f32 \<Rightarrow> f32 \<times> f32 \<Rightarrow> f32 \<times> f32 \<times> f32" where
  "eq_kernel c x = (\<lambda>(z1, z2).
     let y = f_add (f_mul (b0 c) x) z1
     in (y, f_add (f_sub (f_mul (b1 c) x) (f_mul (a1 c) y)) z2, f_sub (f_mul (b2 c) x) (f_mul (a2 c) y)))"

definition eq_ok :: "EqNode \<Rightarrow> bool" where
  "eq_ok node \<longleftrightarrow> length (eq_z2 node) = length (eq_z1 node)"

interpretation distortion: planar_node distortion_ok "\<lambda>_. 2 ^ 16" "DistortionNode_step lm" "\<lambda>_ _. ()" "distortion_kernel lm" for lm
proof
  fix node :: DistortionNode and c :: nat and x
  assume "distortion_ok node"
  then have "\<exists>y. distort_sample lm x node = Some y"
    by (cases "ds_mode node") (simp_all add: distort_sample_def distortion_ok_def Let_def)
  then show "\<exists>s'. DistortionNode_step lm x c node = Some (fst (distortion_kernel lm node x ()), s') \<and> distortion_ok s' \<and>
      2 ^ 16 = 2 ^ 16 \<and> () = snd (distortion_kernel lm node x ()) \<and> (\<forall>c'. c' \<noteq> c \<longrightarrow> () = ()) \<and>
      distortion_kernel lm s' = distortion_kernel lm node"
    using \<open>distortion_ok node\<close> by (auto simp: DistortionNode_step_def distortion_kernel_def)
qed

interpretation delay: planar_node delay_ok "\<lambda>node. length (dl_buffer node)" DelayNode_step
  "\<lambda>node c. (dl_buffer node ! c, dl_write_pos node ! c)"
  "\<lambda>node. delay_kernel (dl_delay_samples node) (dl_feedback node) (dl_mix node)"
proof
  fix node :: DelayNode and c x
  assume ok: "delay_ok node" "c < length (dl_buffer node)"
  then have "0 < length (dl_buffer node ! c)" "c < length (dl_write_pos node)" by (auto simp: delay_ok_def)
  then show "\<exists>s'. DelayNode_step x c node =
        Some (fst (delay_kernel (dl_delay_samples node) (dl_feedback node) (dl_mix node) x
          (dl_buffer node ! c, dl_write_pos node ! c)), s') \<and> delay_ok s' \<and>
      length (dl_buffer s') = length (dl_buffer node) \<and> (dl_buffer s' ! c, dl_write_pos s' ! c) =
        snd (delay_kernel (dl_delay_samples node) (dl_feedback node) (dl_mix node) x (dl_buffer node ! c, dl_write_pos node ! c)) \<and>
      (\<forall>c'. c' \<noteq> c \<longrightarrow> (dl_buffer s' ! c', dl_write_pos s' ! c') = (dl_buffer node ! c', dl_write_pos node ! c')) \<and>
      delay_kernel (dl_delay_samples s') (dl_feedback s') (dl_mix s') =
        delay_kernel (dl_delay_samples node) (dl_feedback node) (dl_mix node)"
    using ok by (simp add: DelayNode_step_def delay_kernel_def delay_ok_def Let_def nth_list_update)
qed

interpretation crusher: planar_node crusher_ok "\<lambda>node. length (bc_counters node)" BitcrusherNode_step
  "\<lambda>node c. (bc_held_samples node ! c, bc_counters node ! c)" "\<lambda>node. crusher_kernel (bc_bits node) (bc_hold_factor node)"
  by unfold_locales (simp add: BitcrusherNode_step_def crusher_kernel_def crusher_ok_def Let_def)

interpretation compressor: planar_node "\<lambda>_. True" "\<lambda>node. length (co_envelope node)" "CompressorNode_step lm"
  "\<lambda>node c. co_envelope node ! c"
  "\<lambda>node. compressor_kernel lm (co_threshold node) (co_ratio node) (co_attack_coef node) (co_release_coef node) (co_makeup node)"
  for lm
  by unfold_locales (simp add: CompressorNode_step_def compressor_kernel_def Let_def)

interpretation gate: planar_node gate_ok "\<lambda>node. length (ng_envelope node)" NoiseGateNode_step
  "\<lambda>node c. (ng_envelope node ! c, ng_hold_counter node ! c, ng_gain node ! c)"
  "\<lambda>node. gate_kernel (ng_threshold node) (ng_attack_coef node) (ng_release_coef node) (ng_hold_samples node)"
  by unfold_locales (simp add: NoiseGateNode_step_def gate_kernel_def gate_ok_def Let_def split_beta)

interpretation equalizer: planar_node eq_ok "\<lambda>node. length (eq_z1 node)" EqNode_step
  "\<lambda>node c. (eq_z1 node ! c, eq_z2 node ! c)" "\<lambda>node. eq_kernel (eq_coeffs node)"
  by unfold_locales (simp add: EqNode_step_def eq_kernel_def eq_ok_def Let_def)

text \<open>A node fresh from its constructor is in order, and serves the channels it was built for.\<close>

lemma DelayNode_new_ok:
  "delay_ok (DelayNode_new cap delay feedback mix channels)"
  "length (dl_buffer (DelayNode_new cap delay feedback mix channels)) = max (unat channels) 1"
  by (simp_all add: DelayNode_new_def delay_ok_def Let_def less_max_iff_disj)

lemma BitcrusherNode_new_ok:
  "crusher_ok (BitcrusherNode_new bits hold channels)"
  "length (bc_counters (BitcrusherNode_new bits hold channels)) = max (unat channels) 1"
  by (simp_all add: BitcrusherNode_new_def crusher_ok_def Let_def)

lemma CompressorNode_new_ok: "length (co_envelope (CompressorNode_new lm t r a rl m sr channels)) = unat channels"
  by (simp add: CompressorNode_new_def)

lemma NoiseGateNode_new_ok:
  "gate_ok (NoiseGateNode_new lm t a h r sr channels)"
  "length (ng_envelope (NoiseGateNode_new lm t a h r sr channels)) = unat channels"
  by (simp_all add: NoiseGateNode_new_def gate_ok_def Let_def)

lemma EqNode_new_ok:
  "eq_ok (EqNode_new lm ft freq gain q sr channels)" "length (eq_z1 (EqNode_new lm ft freq gain q sr channels)) = unat channels"
  by (simp_all add: EqNode_new_def eq_ok_def)

section \<open>The delay line\<close>

text \<open>The echo a delay of \<open>d\<close> samples produces, by its difference equation.\<close>

function echo :: "nat \<Rightarrow> f32 \<Rightarrow> f32 list \<Rightarrow> nat \<Rightarrow> f32" where
  "echo d fb xs n = f_add (xs ! n) (f_mul (if 0 < d \<and> d \<le> n then echo d fb xs (n - d) else f_0) fb)"
  by auto
termination
  by (relation "measure (\<lambda>(d, fb, xs, n). n)") auto

declare echo.simps [simp del]

definition echo_mix :: "nat \<Rightarrow> f32 \<Rightarrow> f32 \<Rightarrow> f32 list \<Rightarrow> f32 list" where
  "echo_mix d fb mix xs =
     map (\<lambda>n. f_add (f_mul (xs ! n) (f_sub f_1 mix)) (f_mul (echo d fb xs n) mix)) [0..<length xs]"

text \<open>The ring after \<open>n\<close> samples: what was written in the last \<open>cap\<close> steps, and the initial zeros.\<close>

definition ring_holds :: "nat \<Rightarrow> (nat \<Rightarrow> f32) \<Rightarrow> nat \<Rightarrow> f32 list \<times> nat \<Rightarrow> bool" where
  "ring_holds cap w n = (\<lambda>(buf, wp). length buf = cap \<and> wp = n mod cap \<and>
     (\<forall>k < n. n \<le> k + cap \<longrightarrow> buf ! (k mod cap) = w k) \<and> (\<forall>j. n \<le> j \<longrightarrow> j < cap \<longrightarrow> buf ! j = f_0))"

lemma ring_read:
  assumes "ring_holds cap w n (buf, wp)" "1 \<le> d" "d \<le> cap"
  shows "buf ! ((wp + cap - d) mod cap) = (if d \<le> n then w (n - d) else f_0)"
proof (cases "d \<le> n")
  case True
  have wp: "wp = n mod cap" using assms(1) by (simp add: ring_holds_def)
  have "(wp + cap - d) mod cap = (n mod cap + (cap - d)) mod cap" using assms(3) wp by simp
  also have "\<dots> = (n + (cap - d)) mod cap" by (rule mod_add_left_eq)
  also have "n + (cap - d) = n - d + cap" using assms(3) True by simp
  also have "\<dots> mod cap = (n - d) mod cap" by simp
  finally have "(wp + cap - d) mod cap = (n - d) mod cap" .
  then show ?thesis using assms True by (auto simp: ring_holds_def)
next
  case False
  then have "wp = n" "(wp + cap - d) mod cap = n + cap - d" using assms by (auto simp: ring_holds_def)
  then show ?thesis using assms False by (auto simp: ring_holds_def)
qed

lemma ring_write:
  assumes "ring_holds cap w n (buf, wp)" "0 < cap"
  shows "ring_holds cap w (Suc n) (buf[wp := w n], (wp + 1) mod cap)"
proof -
  have b: "length buf = cap" "wp = n mod cap" "\<forall>k < n. n \<le> k + cap \<longrightarrow> buf ! (k mod cap) = w k"
      "\<forall>j. n \<le> j \<longrightarrow> j < cap \<longrightarrow> buf ! j = f_0"
    using assms(1) by (auto simp: ring_holds_def)
  have apart: "k mod cap \<noteq> n mod cap" if "k < n" "Suc n \<le> k + cap" for k
  proof
    assume "k mod cap = n mod cap"
    then have "cap dvd n - k" using that mod_eq_dvd_iff_nat [of k n cap] by simp
    then show False using that by (auto dest: dvd_imp_le)
  qed
  have "buf[wp := w n] ! (k mod cap) = w k" if "k < Suc n" "Suc n \<le> k + cap" for k
    using that apart [of k] b assms(2) by (cases "k = n") auto
  moreover have "buf[wp := w n] ! j = f_0" if "Suc n \<le> j" "j < cap" for j
    using that b by (simp add: nth_list_update)
  moreover have "(wp + 1) mod cap = Suc n mod cap" using b(2) by (simp add: mod_Suc_eq)
  ultimately show ?thesis using b(1) by (simp add: ring_holds_def)
qed

lemma delay_run:
  assumes "ring_holds cap (echo d fb (xs @ ys)) (length xs) (buf, wp)" "1 \<le> d" "d \<le> cap"
  shows "fst (filter_run (delay_kernel d fb mix) ys (buf, wp)) =
    map (\<lambda>n. f_add (f_mul ((xs @ ys) ! n) (f_sub f_1 mix)) (f_mul (echo d fb (xs @ ys) n) mix)) [length xs..<length xs + length ys]"
  using assms(1)
proof (induction ys arbitrary: xs buf wp)
  case (Cons y ys)
  let ?n = "length xs" and ?w = "echo d fb (xs @ y # ys)"
  have len: "length buf = cap" "wp < cap" using Cons.prems assms(2,3) by (auto simp: ring_holds_def)
  have wet: "f_add y (f_mul (buf ! ((wp + length buf - d) mod length buf)) fb) = ?w ?n"
    unfolding len(1) ring_read [OF Cons.prems assms(2,3)] using assms(2) by (simp add: echo.simps [of d fb "xs @ y # ys"])
  have "ring_holds cap (echo d fb ((xs @ [y]) @ ys)) (length (xs @ [y])) (buf[wp := ?w ?n], (wp + 1) mod cap)"
    using ring_write [OF Cons.prems] assms(2,3) by simp
  from Cons.IH [OF this] show ?case
    using wet len by (simp add: delay_kernel_def split_beta Let_def upt_conv_Cons nth_append del: upt_Suc)
qed simp

lemma delay_fresh:
  assumes "1 \<le> d" "d \<le> cap"
  shows "fst (filter_run (delay_kernel d fb mix) xs (replicate cap f_0, 0)) = echo_mix d fb mix xs"
  using delay_run [of cap d fb "[]" xs "replicate cap f_0" 0 mix] assms
  by (simp add: ring_holds_def echo_mix_def)

text \<open>
  C13: A delay node implements its echo. However a stream is cut into cycles, every cycle of a node fresh from
  its constructor succeeds, and on each channel the output is the mix of the input with the signal
  \<open>w[n] = x[n] + feedback * w[n - delay]\<close>, with silence before the start: the ring buffers of the node compute the
  difference equation.\<close>

theorem delay_echo:
  assumes "node = DelayNode_new cap delay feedback mix channels" "stream_io ch ios" "ch \<le> unat channels"
  shows "\<exists>ys s'. run_cycles DelayNode_process ios node = Some (ys, s') \<and>
    (\<forall>c < ch. concat (map (frame_channel c) ys) =
      echo_mix (dl_delay_samples node) (dl_feedback node) (dl_mix node) (concat (map (\<lambda>io. frame_channel c (fst io)) ios)))"
proof -
  let ?cap = "max cap 1"
  have ok: "delay_ok node" "ch \<le> length (dl_buffer node)" using assms DelayNode_new_ok by auto
  have fresh: "1 \<le> dl_delay_samples node" "dl_delay_samples node \<le> ?cap"
      "c < ch \<Longrightarrow> dl_buffer node ! c = replicate ?cap f_0 \<and> dl_write_pos node ! c = 0" for c
    using assms(1,3) by (auto simp: DelayNode_new_def Let_def less_max_iff_disj)
  then show ?thesis
    using delay.cycles_channelwise [OF ok assms(2)] delay_fresh [OF fresh(1,2)]
    unfolding DelayNode_process_def by fastforce
qed

theorem delay_echo_witness:
  "\<exists>ys s'. run_cycles DelayNode_process
      [(\<lparr>af_channels = 1, af_sample_rate = 48000, samples = [f_1, f_0]\<rparr>,
        \<lparr>af_channels = 1, af_sample_rate = 48000, samples = [f_0, f_0]\<rparr>)]
      (DelayNode_new 4 1 (f32_lit 1 2) f_1 1) = Some (ys, s') \<and>
    concat (map (frame_channel 0) ys) = echo_mix 1 (f32_lit 1 2) f_1 [f_1, f_0]"
proof -
  let ?ios = "[(\<lparr>af_channels = 1, af_sample_rate = 48000, samples = [f_1, f_0]\<rparr>,
        \<lparr>af_channels = 1, af_sample_rate = 48000, samples = [f_0, f_0]\<rparr>)]"
  let ?node = "DelayNode_new 4 1 (f32_lit 1 2) f_1 1"
  have "stream_io 1 ?ios" by (simp add: stream_io_def)
  moreover have "dl_delay_samples ?node = 1" "dl_feedback ?node = f32_lit 1 2" "dl_mix ?node = f_1"
    by (simp add: DelayNode_new_def Let_def, code_simp, code_simp)
  moreover have "concat (map (\<lambda>io. frame_channel 0 (fst io)) ?ios) = [f_1, f_0]"
    by (simp add: frame_channel_def segment_def)
  ultimately show ?thesis using delay_echo [OF refl, of 1 ?ios 1 4 1 "f32_lit 1 2" f_1] by simp
qed

section \<open>Bit depth and sample rate reduction\<close>

text \<open>The \<open>2^bits\<close> output levels.\<close>

definition crush_level :: "nat \<Rightarrow> nat \<Rightarrow> f32" where
  "crush_level bits j = f_sub (f_mul (f_div (f_of_nat j) (f_of_nat (2 ^ bits - 1))) f_2) f_1"

lemma twice_le: "2 * \<bar>a - n\<bar> \<le> b \<Longrightarrow> 2 * a \<le> 2 * n + (b :: int)"
  by arith

lemma f_pack_bound:
  assumes "0 \<le> n" "0 < d" "n \<le> d * b" "b < 2 ^ (24 + k)" "k \<le> 252"
  shows "2 * f_mag (f_pack s n d) \<le> 2 * b + 2 ^ k" "f_sign (f_pack s n d) = s" "is_finite (f_pack s n d)"
proof -
  have "d * b < d * 2 ^ (24 + k)" using assms(2,4) by simp
  then have n: "n < d * 2 ^ (24 + k)" using assms(3) by linarith
  have "2 * (d * f_mag (f_pack s n d)) \<le> 2 * n + d * 2 ^ k"
    by (rule twice_le [OF f_pack_error [OF assms(1,2) n assms(5)]])
  also have "\<dots> \<le> d * (2 * b + 2 ^ k)" using assms(3) by (simp add: distrib_left)
  finally have "d * (2 * f_mag (f_pack s n d)) \<le> d * (2 * b + 2 ^ k)" by (simp add: mult.left_commute)
  then show "2 * f_mag (f_pack s n d) \<le> 2 * b + 2 ^ k" using assms(2) by simp
  have "n div d < 2 ^ (24 + k)" using n assms(2) by (intro int_div_less) (simp_all add: mult.commute)
  also have "\<dots> \<le> (2 :: int) ^ 276" using assms(5) by (intro power_increasing) simp_all
  finally show "f_sign (f_pack s n d) = s" "is_finite (f_pack s n d)"
    using f_pack_result(2,3) [OF assms(1,2) _ refl] by blast+
qed

lemma f_clamp_range:
  assumes "\<not> is_nan x" "is_finite lo" "is_finite hi" "f_val lo \<le> f_val hi"
  shows "is_finite (f_clamp x lo hi)" "f_val lo \<le> f_val (f_clamp x lo hi)" "f_val (f_clamp x lo hi) \<le> f_val hi"
proof -
  have "is_finite x \<or> f_lt x lo \<or> f_lt hi x"
  proof (cases "is_finite x")
    case False
    then have "f_body x = 255 * 2 ^ 23" using assms(1) by (simp add: is_finite_def is_nan_def)
    moreover have "0 \<le> f_body lo" "0 \<le> f_body hi" by (simp_all add: f_body_def)
    ultimately show ?thesis
      using assms(1-3) finite_not_nan_inf by (auto simp: f_lt_def f_key_def is_finite_def)
  qed simp
  moreover have "\<not> f_lt hi lo" using assms(2-4) by (simp add: f_lt_finite)
  ultimately have "f_clamp x lo hi = lo \<or> f_clamp x lo hi = hi \<or>
      f_clamp x lo hi = x \<and> is_finite x \<and> \<not> f_lt x lo \<and> \<not> f_lt hi x"
    by (auto simp: f_clamp_def Let_def)
  then show "is_finite (f_clamp x lo hi)" "f_val lo \<le> f_val (f_clamp x lo hi)" "f_val (f_clamp x lo hi) \<le> f_val hi"
    using assms by (auto simp: f_lt_finite)
qed

text \<open>The normalised sample is between 0 and 1, up to rounding.\<close>

lemma crush_norm:
  assumes "\<not> is_nan x" and norm: "norm = f_mul (f_add (f_clamp x (f_of_int (- 1)) f_1) f_1) (f32_lit 5 10)"
  shows "is_finite norm" "\<not> f_sign norm" "f_mag norm \<le> 2 ^ 149 + 2 ^ 126"
proof -
  let ?c = "f_clamp x (f_of_int (- 1)) f_1"
  have one: "f_val f_1 = f_unit" "f_val (f_of_int (- 1)) = - f_unit" "is_finite f_1" "is_finite (f_of_int (- 1))" "\<not> f_sign f_1"
    using f_val_of_int [of 1] f_val_of_int [of "- 1"] f_of_int_exact [of 1] f_of_int_exact [of "- 1"] by simp_all
  have c: "is_finite ?c" "- f_unit \<le> f_val ?c" "f_val ?c \<le> f_unit"
    using f_clamp_range [OF assms(1) one(4,3)] one(1,2) by (simp_all add: f_unit_def)
  let ?v = "f_val ?c + f_unit" and ?s = "f_add ?c f_1"
  have half: "f_mag (f32_lit 5 10) = 2 ^ 148" "\<not> f_sign (f32_lit 5 10)" "is_finite (f32_lit 5 10)"
    by (code_simp, code_simp, code_simp)
  have s: "is_finite ?s" "\<not> f_sign ?s" "2 * f_mag ?s \<le> 2 ^ 151 + 2 ^ 127"
  proof -
    have add: "?s = (if ?v = 0 then f_zero False else f_pack (?v < 0) \<bar>?v\<bar> 1)"
      using finite_not_nan_inf [OF c(1)] finite_not_nan_inf [OF one(3)] one by (simp add: f_add_def Let_def)
    have z: "is_finite (f_zero False)" "\<not> f_sign (f_zero False)" "f_mag (f_zero False) = 0" by (code_simp, code_simp, code_simp)
    have "is_finite ?s \<and> \<not> f_sign ?s \<and> 2 * f_mag ?s \<le> 2 ^ 151 + 2 ^ 127"
      using f_pack_bound [of "\<bar>?v\<bar>" 1 "2 ^ 150" 127 "?v < 0"] c add z by (simp add: f_unit_def)
    then show "is_finite ?s" "\<not> f_sign ?s" "2 * f_mag ?s \<le> 2 ^ 151 + 2 ^ 127" by blast+
  qed
  have mul: "norm = f_pack False (f_mag ?s * 2 ^ 148) f_unit"
    using finite_not_nan_inf [OF s(1)] finite_not_nan_inf [OF half(3)] half s(2) unfolding norm f_mul_def by simp
  have "f_mag ?s * 2 ^ 148 \<le> f_unit * (2 ^ 149 + 2 ^ 125)" using s(3) by (simp add: f_unit_def)
  then show "is_finite norm" "\<not> f_sign norm" "f_mag norm \<le> 2 ^ 149 + 2 ^ 126"
    using f_pack_bound [of "f_mag ?s * 2 ^ 148" f_unit "2 ^ 149 + 2 ^ 125" 126 False]
    unfolding mul by (simp_all add: f_unit_def)
qed

lemma crush_levels:
  assumes "\<not> is_nan x" "bits \<le> 16"
  shows "\<exists>j < 2 ^ bits. crush bits x = crush_level bits j"
proof -
  let ?norm = "f_mul (f_add (f_clamp x (f_of_int (- 1)) f_1) f_1) (f32_lit 5 10)"
  define d where "d = (2 ^ bits - 1 :: int)"
  have "(2 :: int) ^ bits \<le> 2 ^ 16" using assms(2) by (intro power_increasing) simp_all
  then have d: "0 \<le> d" "d < 2 ^ 16" "f_of_nat (2 ^ bits - 1) = f_of_int d" by (simp_all add: d_def f_of_nat_def of_nat_diff)
  have fd: "f_mag (f_of_int d) = d * f_unit" "\<not> f_sign (f_of_int d)" "is_finite (f_of_int d)"
    using f_of_int_exact [of d] d by simp_all
  note norm = crush_norm [OF assms(1) refl]
  let ?p = "f_mul ?norm (f_of_int d)"
  have mul: "?p = f_pack False (f_mag ?norm * (d * f_unit)) f_unit"
    using finite_not_nan_inf [OF norm(1)] finite_not_nan_inf [OF fd(3)] fd norm(2) by (simp add: f_mul_def)
  have "f_mag ?norm * d \<le> (2 ^ 149 + 2 ^ 126) * d" using norm(3) d(1) by (rule mult_right_mono)
  also have "\<dots> \<le> d * 2 ^ 149 + 2 ^ 142" using d by (simp add: distrib_right)
  finally have le: "f_mag ?norm * (d * f_unit) \<le> f_unit * (d * 2 ^ 149 + 2 ^ 142)"
    by (simp add: f_unit_def)
  have p: "2 * f_mag ?p \<le> d * 2 ^ 150 + 2 ^ 144" "\<not> f_sign ?p" "is_finite ?p"
    using f_pack_bound [OF _ _ le, of 142 False] d unfolding mul by (simp_all add: f_unit_def)
  define n where "n = (2 * f_mag ?p + f_unit) div (2 * f_unit)"
  have "n < d + 1" unfolding n_def using p(1) by (intro int_div_less) (simp_all add: f_unit_def distrib_right)
  moreover have "0 \<le> n" unfolding n_def by (intro div_int_pos_iff [THEN iffD2]) (simp add: f_unit_def)
  ultimately have n: "nat n < 2 ^ bits" unfolding d_def by (simp add: nat_less_iff)
  have "f_round ?p = f_of_nat (nat n)"
    using p(2,3) \<open>0 \<le> n\<close> by (simp add: f_round_def f_of_nat_def f_of_int_def n_def)
  then have "crush bits x = crush_level bits (nat n)"
    unfolding crush_def crush_level_def Let_def d(3) by (rule arg_cong)
  then show ?thesis using n by blast
qed

lemma hold_index: "0 < h \<Longrightarrow> Suc n mod h \<noteq> 0 \<Longrightarrow> Suc n - Suc n mod h = n - n mod h"
  by (auto simp: mod_Suc split: if_splits)

lemma crusher_run:
  assumes "0 < h" "length xs + length ys \<le> 2 ^ 64" "xs \<noteq> [] \<Longrightarrow> held = xs ! (length xs - 1 - (length xs - 1) mod h)"
  shows "fst (filter_run (crusher_kernel bits h) ys (held, length xs mod 2 ^ 64)) =
    map (\<lambda>n. crush bits ((xs @ ys) ! (n - n mod h))) [length xs..<length xs + length ys]"
  using assms(2,3)
proof (induction ys arbitrary: xs held)
  case (Cons y ys)
  let ?n = "length xs" and ?held = "if length xs mod h = 0 then y else held"
  have n: "?n mod 2 ^ 64 = ?n" using Cons.prems(1) by simp
  have held: "?held = (xs @ y # ys) ! (?n - ?n mod h)"
  proof (cases "?n mod h = 0")
    case False
    then obtain m where m: "?n = Suc m" by (cases "?n") auto
    then have "xs \<noteq> []" by auto
    then show ?thesis
      using Cons.prems(2) hold_index [OF assms(1), of m] m False diff_le_self [of m "m mod h"]
      by (simp add: nth_append less_Suc_eq_le)
  qed simp
  have "?held = (xs @ [y]) ! (length (xs @ [y]) - 1 - (length (xs @ [y]) - 1) mod h)"
    unfolding held by (simp add: nth_append)
  from Cons.IH [OF _ this] Cons.prems(1)
  have "fst (filter_run (crusher_kernel bits h) ys (?held, Suc ?n mod 2 ^ 64)) =
      map (\<lambda>n. crush bits ((xs @ y # ys) ! (n - n mod h))) [Suc ?n..<?n + length (y # ys)]" by simp
  moreover have "crusher_kernel bits h y (held, ?n) = (crush bits ?held, ?held, Suc ?n mod 2 ^ 64)"
    by (simp add: crusher_kernel_def)
  ultimately have "fst (filter_run (crusher_kernel bits h) (y # ys) (held, ?n)) =
      crush bits ?held # map (\<lambda>n. crush bits ((xs @ y # ys) ! (n - n mod h))) [Suc ?n..<?n + length (y # ys)]"
    by (simp add: split_beta)
  then show ?case unfolding n held by (simp add: upt_conv_Cons del: upt_Suc)
qed simp

text \<open>
  C32: A bitcrusher fresh from its constructor holds and quantises. On a stream of any cycles (of fewer than
  \<open>2^64\<close> samples), on each channel, the output at \<open>n\<close> is the quantised input at the last multiple of the hold
  factor, and the quantiser maps every number to one of \<open>2^bits\<close> levels.\<close>

theorem bitcrusher_holds_and_quantises:
  assumes "node = BitcrusherNode_new bits hold channels" "stream_io ch ios" "ch \<le> unat channels"
    "\<forall>c < ch. length (concat (map (\<lambda>io. frame_channel c (fst io)) ios)) < 2 ^ 64"
  shows "(\<exists>ys s'. run_cycles BitcrusherNode_process ios node = Some (ys, s') \<and>
    (\<forall>c < ch. let xs = concat (map (\<lambda>io. frame_channel c (fst io)) ios)
       in concat (map (frame_channel c) ys) =
            map (\<lambda>n. crush (bc_bits node) (xs ! (n - n mod bc_hold_factor node))) [0..<length xs])) \<and>
    (\<forall>x. \<not> is_nan x \<longrightarrow> (\<exists>j < 2 ^ bc_bits node. crush (bc_bits node) x = crush_level (bc_bits node) j))"
proof (intro conjI allI impI)
  have ok: "crusher_ok node" "ch \<le> length (bc_counters node)" using assms BitcrusherNode_new_ok by auto
  have fresh: "0 < bc_hold_factor node" "c < ch \<Longrightarrow> bc_counters node ! c = 0" for c
    using assms(1,3) by (auto simp: BitcrusherNode_new_def Let_def less_max_iff_disj)
  have "fst (filter_run (crusher_kernel (bc_bits node) (bc_hold_factor node)) xs (held, 0)) =
      map (\<lambda>n. crush (bc_bits node) (xs ! (n - n mod bc_hold_factor node))) [0..<length xs]" if "length xs < 2 ^ 64" for xs held
    using crusher_run [OF fresh(1), of "[]" xs held "bc_bits node"] that by simp
  then show "\<exists>ys s'. run_cycles BitcrusherNode_process ios node = Some (ys, s') \<and>
    (\<forall>c < ch. let xs = concat (map (\<lambda>io. frame_channel c (fst io)) ios)
       in concat (map (frame_channel c) ys) =
            map (\<lambda>n. crush (bc_bits node) (xs ! (n - n mod bc_hold_factor node))) [0..<length xs])"
    using crusher.cycles_channelwise [OF ok assms(2)] fresh(2) assms(4)
    unfolding BitcrusherNode_process_def Let_def by fastforce
next
  fix x
  assume x: "\<not> is_nan x"
  have "bc_bits node \<le> 16" using assms(1) by (simp add: BitcrusherNode_new_def Let_def)
  then show "\<exists>j < 2 ^ bc_bits node. crush (bc_bits node) x = crush_level (bc_bits node) j" by (rule crush_levels [OF x])
qed

theorem bitcrusher_holds_and_quantises_witness:
  "\<exists>ys s'. run_cycles BitcrusherNode_process
      [(\<lparr>af_channels = 1, af_sample_rate = 48000, samples = [f_1, f_0, f_1]\<rparr>,
        \<lparr>af_channels = 1, af_sample_rate = 48000, samples = [f_0, f_0, f_0]\<rparr>)]
      (BitcrusherNode_new 2 2 1) = Some (ys, s') \<and>
    concat (map (frame_channel 0) ys) = [crush 2 f_1, crush 2 f_1, crush 2 f_1]"
proof -
  let ?ios = "[(\<lparr>af_channels = 1, af_sample_rate = 48000, samples = [f_1, f_0, f_1]\<rparr>,
        \<lparr>af_channels = 1, af_sample_rate = 48000, samples = [f_0, f_0, f_0]\<rparr>)]"
  have "stream_io 1 ?ios" by (simp add: stream_io_def)
  moreover have "bc_bits (BitcrusherNode_new 2 2 1) = 2" "bc_hold_factor (BitcrusherNode_new 2 2 1) = 2"
    by (simp_all add: BitcrusherNode_new_def Let_def)
  moreover have "concat (map (\<lambda>io. frame_channel 0 (fst io)) ?ios) = [f_1, f_0, f_1]"
    by (simp add: frame_channel_def segment_def)
  ultimately show ?thesis
    using bitcrusher_holds_and_quantises [OF refl, of 1 ?ios 1 2 2] by (simp add: Let_def)
qed

end
