(* ===== verification/Dsp_Modulation.thy ===== *)
theory Dsp_Modulation
  imports Dsp_Filters
begin

text \<open>
  The nodes built on modulated delays, banks of filters and low-frequency oscillators: reverb, chorus and
  flanger, which filter channel by channel, and tremolo and phaser, which advance one oscillator per sample for
  all channels (\<open>nodes/*.rs\<close>).
\<close>

section \<open>Banks of filters\<close>

text \<open>
  The loop \<open>for i in 0..m { acc = fs[base + i].process(acc) }\<close> over the \<open>m\<close> filters of a channel, in place, and
  the same on the channel's filters alone.
\<close>

definition bank_loop :: "('a \<Rightarrow> 'f \<Rightarrow> ('a \<times> 'f) option) \<Rightarrow> nat \<Rightarrow> nat \<Rightarrow> 'a \<times> 'f list \<Rightarrow> ('a \<times> 'f list) option" where
  "bank_loop step base m =
     for_in (\<lambda>i (acc, fs). do { f \<leftarrow> nth_opt fs (base + i); (acc, f) \<leftarrow> step acc f; Some (acc, fs[base + i := f]) }) [0..<m]"

fun bank_run :: "('a \<Rightarrow> 'f \<Rightarrow> ('a \<times> 'f) option) \<Rightarrow> 'a \<Rightarrow> 'f list \<Rightarrow> ('a \<times> 'f list) option" where
  "bank_run step acc [] = Some (acc, [])"
| "bank_run step acc (f # fs) =
     do { (acc, f) \<leftarrow> step acc f; (acc, fs) \<leftarrow> bank_run step acc fs; Some (acc, f # fs) }"

lemma bank_run_append:
  "bank_run step acc (fs @ gs) =
     do { (acc, fs) \<leftarrow> bank_run step acc fs; (acc, gs) \<leftarrow> bank_run step acc gs; Some (acc, fs @ gs) }"
  by (induction step acc fs rule: bank_run.induct) (auto split: Option.bind_split)

lemma length_bank_run: "bank_run step acc fs = Some (acc', fs') \<Longrightarrow> length fs' = length fs"
  by (induction fs arbitrary: acc acc' fs') (auto simp: Option.bind_eq_Some_conv split_beta)

lemma bank_loop_eq:
  assumes "base + m \<le> length fs"
  shows "bank_loop step base m (acc, fs) =
    map_option (\<lambda>(acc, gs). (acc, take base fs @ gs @ drop (base + m) fs)) (bank_run step acc (take m (drop base fs)))"
  using assms
proof (induction m)
  case 0
  then show ?case by (simp add: bank_loop_def)
next
  case (Suc m)
  let ?k = "length fs"
  have one: "take (Suc m) (drop base fs) = take m (drop base fs) @ [fs ! (base + m)]"
    using Suc.prems by (simp add: take_Suc_conv_app_nth)
  have "bank_loop step base (Suc m) (acc, fs) =
      bank_loop step base m (acc, fs) \<bind> (\<lambda>(acc, fs). nth_opt fs (base + m) \<bind> (\<lambda>f. step acc f \<bind>
        (\<lambda>(acc, f). Some (acc, fs[base + m := f]))))"
    by (simp add: bank_loop_def for_in_append case_prod_unfold)
  also have "\<dots> = map_option (\<lambda>(acc, gs). (acc, take base fs @ gs @ drop (base + Suc m) fs))
      (bank_run step acc (take (Suc m) (drop base fs)))"
  proof (cases "bank_run step acc (take m (drop base fs))")
    case None
    then show ?thesis using Suc unfolding one bank_run_append by simp
  next
    case (Some r)
    obtain acc1 gs where r: "r = (acc1, gs)" by fastforce
    have len: "length gs = m" using length_bank_run [OF Some [unfolded r]] Suc.prems by simp
    have drop: "drop (base + m) fs = fs ! (base + m) # drop (base + Suc m) fs"
      using Suc.prems by (simp add: Cons_nth_drop_Suc)
    show ?thesis
      using Suc.IH Suc.prems Some r len unfolding one bank_run_append drop
      by (auto simp: nth_opt_def nth_append list_update_append split: Option.bind_split)
  qed
  finally show ?case .
qed

lemma bank_run_ok:
  assumes "\<And>acc f. ok f \<Longrightarrow> \<exists>acc' f'. step acc f = Some (acc', f') \<and> ok f'" "list_all ok fs"
  shows "\<exists>acc' fs'. bank_run step acc fs = Some (acc', fs') \<and> list_all ok fs'"
  using assms(2)
proof (induction fs arbitrary: acc)
  case (Cons f fs)
  have "ok f" using Cons.prems by simp
  then obtain acc1 f1 where "step acc f = Some (acc1, f1)" "ok f1" using assms(1) by blast
  moreover obtain acc2 fs2 where "bank_run step acc1 fs = Some (acc2, fs2)" "list_all ok fs2"
    using Cons.IH [of acc1] Cons.prems by auto
  ultimately show ?case by simp
qed simp

section \<open>Reverb\<close>

definition COMB_DELAYS_441 :: "nat list" where
  "COMB_DELAYS_441 = [1116, 1188, 1277, 1356, 1422, 1491, 1557, 1617]"

definition ALLPASS_DELAYS_441 :: "nat list" where
  "ALLPASS_DELAYS_441 = [556, 441, 341, 225]"

definition COMBS_PER_CHANNEL :: nat where "COMBS_PER_CHANNEL = 8"
definition ALLPASSES_PER_CHANNEL :: nat where "ALLPASSES_PER_CHANNEL = 4"
definition ALLPASS_FEEDBACK :: f32 where "ALLPASS_FEEDBACK = f32_lit 5 10"
definition REFERENCE_RATE :: nat where "REFERENCE_RATE = 44100"

record CombFilter =
  cb_buffer :: "f32 list"
  cb_idx :: nat
  cb_feedback :: f32
  cb_damp1 :: f32
  cb_damp2 :: f32
  cb_lowpass :: f32

definition CombFilter_new :: "nat \<Rightarrow> f32 \<Rightarrow> f32 \<Rightarrow> CombFilter" where
  "CombFilter_new delay feedback damping =
     \<lparr>cb_buffer = replicate (max delay 1) f_0, cb_idx = 0, cb_feedback = feedback, cb_damp1 = damping,
      cb_damp2 = f_sub f_1 damping, cb_lowpass = f_0\<rparr>"

definition CombFilter_process :: "f32 \<Rightarrow> CombFilter \<Rightarrow> (f32 \<times> CombFilter) option" where
  "CombFilter_process input f = do {
     output \<leftarrow> nth_opt (cb_buffer f) (cb_idx f);
     let lowpass = f_add (f_mul output (cb_damp2 f)) (f_mul (cb_lowpass f) (cb_damp1 f));
     buffer \<leftarrow> set_opt (cb_buffer f) (cb_idx f) (f_add input (f_mul lowpass (cb_feedback f)));
     let idx = cb_idx f + 1;
     Some (output, f\<lparr>cb_buffer := buffer, cb_lowpass := lowpass, cb_idx := (if length buffer \<le> idx then 0 else idx)\<rparr>)
   }"

record AllpassFilter =
  ap_buffer :: "f32 list"
  ap_idx :: nat

definition AllpassFilter_new :: "nat \<Rightarrow> AllpassFilter" where
  "AllpassFilter_new delay = \<lparr>ap_buffer = replicate (max delay 1) f_0, ap_idx = 0\<rparr>"

definition AllpassFilter_process :: "f32 \<Rightarrow> AllpassFilter \<Rightarrow> (f32 \<times> AllpassFilter) option" where
  "AllpassFilter_process input f = do {
     buffered \<leftarrow> nth_opt (ap_buffer f) (ap_idx f);
     let output = f_add (f_neg input) buffered;
     buffer \<leftarrow> set_opt (ap_buffer f) (ap_idx f) (f_add input (f_mul buffered ALLPASS_FEEDBACK));
     let idx = ap_idx f + 1;
     Some (output, f\<lparr>ap_buffer := buffer, ap_idx := (if length buffer \<le> idx then 0 else idx)\<rparr>)
   }"

record ReverbNode =
  rv_wet :: f32
  rv_dry :: f32
  rv_combs :: "CombFilter list"
  rv_allpasses :: "AllpassFilter list"

definition scale_delay :: "nat \<Rightarrow> f32 \<Rightarrow> nat" where
  "scale_delay base scale = f_to_usize (f_max (f_round (f_mul (f_of_nat base) scale)) f_1)"

definition ReverbNode_new :: "f32 \<Rightarrow> f32 \<Rightarrow> f32 \<Rightarrow> f32 \<Rightarrow> u32 \<Rightarrow> u16 \<Rightarrow> ReverbNode" where
  "ReverbNode_new room_size damping wet dry sample_rate channels =
     (let room_size = f_clamp room_size f_0 f_1; damping = f_clamp damping f_0 f_1;
          ch = max (unat channels) 1;
          scale = f_div (f_of_nat (unat sample_rate)) (f_of_nat REFERENCE_RATE);
          feedback = f_add (f_mul room_size (f32_lit 28 100)) (f32_lit 7 10)
      in \<lparr>rv_wet = f_clamp wet f_0 f_1, rv_dry = f_clamp dry f_0 f_1,
          rv_combs = concat (replicate ch (map (\<lambda>base. CombFilter_new (scale_delay base scale) feedback damping) COMB_DELAYS_441)),
          rv_allpasses = concat (replicate ch (map (\<lambda>base. AllpassFilter_new (scale_delay base scale)) ALLPASS_DELAYS_441))\<rparr>)"

definition comb_step :: "f32 \<Rightarrow> f32 \<Rightarrow> CombFilter \<Rightarrow> (f32 \<times> CombFilter) option" where
  "comb_step x comb_out f = map_option (\<lambda>(y, f). (f_add comb_out y, f)) (CombFilter_process x f)"

definition ReverbNode_step :: "f32 \<Rightarrow> nat \<Rightarrow> ReverbNode \<Rightarrow> (f32 \<times> ReverbNode) option" where
  "ReverbNode_step x ch node = do {
     (comb_out, combs) \<leftarrow>
       bank_loop (comb_step x) (ch * COMBS_PER_CHANNEL) COMBS_PER_CHANNEL (f_0, rv_combs node);
     (wet_out, allpasses) \<leftarrow>
       bank_loop AllpassFilter_process (ch * ALLPASSES_PER_CHANNEL) ALLPASSES_PER_CHANNEL (comb_out, rv_allpasses node);
     Some (f_add (f_mul x (rv_dry node)) (f_mul wet_out (rv_wet node)),
       node\<lparr>rv_combs := combs, rv_allpasses := allpasses\<rparr>)
   }"

definition ReverbNode_process :: "ReverbNode node_fn" where
  "ReverbNode_process = process_planar ReverbNode_step"

section \<open>Chorus and flanger\<close>

text \<open>Where a modulated delay reads: the fractional position behind the write cursor, and the two samples around it.\<close>

definition read_modulated :: "f32 list \<Rightarrow> nat \<Rightarrow> f32 \<Rightarrow> f32 option" where
  "read_modulated buf wp current_delay = do {
     let cap = length buf;
     let read_pos_f = f_rem_euclid (f_sub (f_of_nat wp) current_delay) (f_of_nat cap);
     let idx0 = f_to_usize read_pos_f;
     let idx1 = (idx0 + 1) mod cap;
     let frac = f_sub read_pos_f (f_of_nat idx0);
     x0 \<leftarrow> nth_opt buf idx0;
     x1 \<leftarrow> nth_opt buf idx1;
     Some (f_add (f_mul x0 (f_sub f_1 frac)) (f_mul x1 frac))
   }"

definition advance_lfo :: "f32 \<Rightarrow> f32 \<Rightarrow> f32" where
  "advance_lfo phase_inc phase = (let phase = f_add phase phase_inc in if f_le TAU phase then f_sub phase TAU else phase)"

record ChorusNode =
  cs_mix :: f32
  cs_center_samples :: f32
  cs_depth_samples :: f32
  cs_phase_inc :: f32
  cs_buffers :: "f32 list list"
  cs_write_pos :: "nat list"
  cs_lfo_phase :: "f32 list"

definition ChorusNode_new :: "f32 \<Rightarrow> f32 \<Rightarrow> f32 \<Rightarrow> f32 \<Rightarrow> u32 \<Rightarrow> u16 \<Rightarrow> ChorusNode" where
  "ChorusNode_new rate_hz depth_ms center_delay_ms mix sample_rate channels =
     (let rate = f_clamp rate_hz (f32_lit 5 100) (f_of_int 10);
          depth = f_max depth_ms f_0;
          center = f_max (f_max center_delay_ms (f_of_int 5)) (f_add depth f_1);
          sr = f_of_nat (unat sample_rate);
          buffer_len = f_to_usize (f_round (f_mul (f_mul (f_add (f_add center depth) f_1) (f32_lit 1 1000)) sr));
          buffer_len = max buffer_len 2;
          ch = max (unat channels) 1
      in \<lparr>cs_mix = f_clamp mix f_0 f_1, cs_center_samples = f_mul (f_mul center (f32_lit 1 1000)) sr,
          cs_depth_samples = f_mul (f_mul depth (f32_lit 1 1000)) sr, cs_phase_inc = f_div (f_mul TAU rate) sr,
          cs_buffers = replicate ch (replicate buffer_len f_0), cs_write_pos = replicate ch 0,
          cs_lfo_phase = replicate ch f_0\<rparr>)"

definition ChorusNode_step :: "libm \<Rightarrow> f32 \<Rightarrow> nat \<Rightarrow> ChorusNode \<Rightarrow> (f32 \<times> ChorusNode) option" where
  "ChorusNode_step lm x ch node = do {
     buf \<leftarrow> nth_opt (cs_buffers node) ch;
     let cap = length buf;
     wp \<leftarrow> nth_opt (cs_write_pos node) ch;
     buf \<leftarrow> set_opt buf wp x;
     phase \<leftarrow> nth_opt (cs_lfo_phase node) ch;
     let current_delay = f_add (cs_center_samples node) (f_mul (cs_depth_samples node) (m_sin lm phase));
     wet \<leftarrow> read_modulated buf wp current_delay;
     Some (f_add (f_mul x (f_sub f_1 (cs_mix node))) (f_mul wet (cs_mix node)),
       node\<lparr>cs_buffers := (cs_buffers node)[ch := buf], cs_write_pos := (cs_write_pos node)[ch := (wp + 1) mod cap],
            cs_lfo_phase := (cs_lfo_phase node)[ch := advance_lfo (cs_phase_inc node) phase]\<rparr>)
   }"

definition ChorusNode_process :: "libm \<Rightarrow> ChorusNode node_fn" where
  "ChorusNode_process lm = process_planar (ChorusNode_step lm)"

record FlangerNode =
  fl_feedback :: f32
  fl_mix :: f32
  fl_center_samples :: f32
  fl_depth_samples :: f32
  fl_phase_inc :: f32
  fl_buffers :: "f32 list list"
  fl_write_pos :: "nat list"
  fl_lfo_phase :: "f32 list"

definition FLANGER_FEEDBACK_CEIL :: f32 where "FLANGER_FEEDBACK_CEIL = f32_lit 9 10"

definition FlangerNode_new :: "f32 \<Rightarrow> f32 \<Rightarrow> f32 \<Rightarrow> f32 \<Rightarrow> f32 \<Rightarrow> u32 \<Rightarrow> u16 \<Rightarrow> FlangerNode" where
  "FlangerNode_new rate_hz depth_ms center_delay_ms feedback mix sample_rate channels =
     (let rate = f_clamp rate_hz (f32_lit 5 100) (f_of_int 10);
          depth = f_max depth_ms f_0;
          center = f_max (f_max center_delay_ms f_1) (f_add depth f_1);
          sr = f_of_nat (unat sample_rate);
          buffer_len = f_to_usize (f_add (f_mul (f_mul (f_add center depth) (f32_lit 1 1000)) sr) f_1);
          buffer_len = max buffer_len 4;
          ch = max (unat channels) 1
      in \<lparr>fl_feedback = f_clamp feedback f_0 FLANGER_FEEDBACK_CEIL, fl_mix = f_clamp mix f_0 f_1,
          fl_center_samples = f_mul (f_mul center (f32_lit 1 1000)) sr,
          fl_depth_samples = f_mul (f_mul depth (f32_lit 1 1000)) sr, fl_phase_inc = f_div (f_mul TAU rate) sr,
          fl_buffers = replicate ch (replicate buffer_len f_0), fl_write_pos = replicate ch 0,
          fl_lfo_phase = replicate ch f_0\<rparr>)"

definition FlangerNode_step :: "libm \<Rightarrow> f32 \<Rightarrow> nat \<Rightarrow> FlangerNode \<Rightarrow> (f32 \<times> FlangerNode) option" where
  "FlangerNode_step lm x ch node = do {
     buf \<leftarrow> nth_opt (fl_buffers node) ch;
     let cap = length buf;
     wp \<leftarrow> nth_opt (fl_write_pos node) ch;
     phase \<leftarrow> nth_opt (fl_lfo_phase node) ch;
     let current_delay = f_add (fl_center_samples node) (f_mul (fl_depth_samples node) (m_sin lm phase));
     wet \<leftarrow> read_modulated buf wp current_delay;
     buf \<leftarrow> set_opt buf wp (f_add x (f_mul wet (fl_feedback node)));
     Some (f_add (f_mul x (f_sub f_1 (fl_mix node))) (f_mul wet (fl_mix node)),
       node\<lparr>fl_buffers := (fl_buffers node)[ch := buf], fl_write_pos := (fl_write_pos node)[ch := (wp + 1) mod cap],
            fl_lfo_phase := (fl_lfo_phase node)[ch := advance_lfo (fl_phase_inc node) phase]\<rparr>)
   }"

definition FlangerNode_process :: "libm \<Rightarrow> FlangerNode node_fn" where
  "FlangerNode_process lm = process_planar (FlangerNode_step lm)"

section \<open>Tremolo and phaser\<close>

text \<open>The loop with the samples outside and the channels inside, that shares one oscillator.\<close>

definition process_shared ::
  "('s \<Rightarrow> 'a) \<Rightarrow> ('a \<Rightarrow> f32 \<Rightarrow> nat \<Rightarrow> 's \<Rightarrow> (f32 \<times> 's) option) \<Rightarrow> ('s \<Rightarrow> 's) \<Rightarrow> 's node_fn" where
  "process_shared control step advance s ins outs =
     (case (ins, outs) of
        (inp # _, out # rest) \<Rightarrow>
          let ch = unat (af_channels inp); n = min (length (samples inp)) (length (samples out)); per_ch = n div ch
          in if ch = 0 \<or> n = 0 then Some (s, outs)
             else map_option (\<lambda>(s, ys). (s, out\<lparr>samples := ys\<rparr> # rest))
                    (for_in (\<lambda>i (s, ys). let a = control s in
                       map_option (\<lambda>(s, ys). (advance s, ys))
                         (for_in (\<lambda>c (s, ys). do {
                            x \<leftarrow> nth_opt (samples inp) (c * per_ch + i);
                            (y, s) \<leftarrow> step a x c s;
                            ys \<leftarrow> set_opt ys (c * per_ch + i) y;
                            Some (s, ys)
                          }) [0..<ch] (s, ys))) [0..<per_ch] (s, samples out))
      | _ \<Rightarrow> Some (s, outs))"

record TremoloNode =
  tr_depth :: f32
  tr_phase_inc :: f32
  tr_lfo_phase :: f32

definition TremoloNode_new :: "f32 \<Rightarrow> f32 \<Rightarrow> u32 \<Rightarrow> TremoloNode" where
  "TremoloNode_new rate_hz depth sample_rate =
     \<lparr>tr_depth = f_clamp depth f_0 f_1,
      tr_phase_inc = f_div (f_mul TAU (f_clamp rate_hz (f32_lit 1 10) (f_of_int 20))) (f_of_nat (unat sample_rate)),
      tr_lfo_phase = f_0\<rparr>"

definition tremolo_gain :: "libm \<Rightarrow> TremoloNode \<Rightarrow> f32" where
  "tremolo_gain lm node =
     f_add (f_sub f_1 (tr_depth node))
       (f_mul (tr_depth node) (f_add (f32_lit 5 10) (f_mul (f32_lit 5 10) (m_sin lm (tr_lfo_phase node)))))"

definition TremoloNode_process :: "libm \<Rightarrow> TremoloNode node_fn" where
  "TremoloNode_process lm =
     process_shared (tremolo_gain lm) (\<lambda>gain x c node. Some (f_mul x gain, node))
       (\<lambda>node. node\<lparr>tr_lfo_phase := advance_lfo (tr_phase_inc node) (tr_lfo_phase node)\<rparr>)"

record AllpassStage =
  xm1 :: f32
  ym1 :: f32

record PhaserNode =
  ph_feedback :: f32
  ph_mix :: f32
  ph_num_stages :: nat
  ph_base_freq :: f32
  ph_depth :: f32
  ph_phase_inc :: f32
  ph_sample_rate :: f32
  ph_stages :: "AllpassStage list"
  ph_feedback_state :: "f32 list"
  ph_lfo_phase :: f32

definition PHASER_FEEDBACK_CEIL :: f32 where "PHASER_FEEDBACK_CEIL = f32_lit 7 10"

text \<open>The clamp of the base frequency panics when its upper bound is below 10.\<close>

definition PhaserNode_new :: "f32 \<Rightarrow> f32 \<Rightarrow> f32 \<Rightarrow> f32 \<Rightarrow> f32 \<Rightarrow> nat \<Rightarrow> u32 \<Rightarrow> u16 \<Rightarrow> PhaserNode option" where
  "PhaserNode_new rate_hz base_freq depth feedback mix stages sample_rate channels =
     (let rate = f_clamp rate_hz (f32_lit 5 100) (f_of_int 10);
          sr = f_of_nat (unat sample_rate);
          top = f_mul sr (f32_lit 24 100);
          ns = min (max stages 2) 8;
          ch = max (unat channels) 1
      in if f_le (f_of_int 10) top
         then Some \<lparr>ph_feedback = f_clamp feedback f_0 PHASER_FEEDBACK_CEIL, ph_mix = f_clamp mix f_0 f_1,
           ph_num_stages = ns, ph_base_freq = f_clamp base_freq (f_of_int 10) top, ph_depth = f_clamp depth f_0 f_1,
           ph_phase_inc = f_div (f_mul TAU rate) sr, ph_sample_rate = sr,
           ph_stages = replicate (ch * ns) \<lparr>xm1 = f_0, ym1 = f_0\<rparr>, ph_feedback_state = replicate ch f_0,
           ph_lfo_phase = f_0\<rparr>
         else None)"

definition stage_step :: "f32 \<Rightarrow> f32 \<Rightarrow> AllpassStage \<Rightarrow> (f32 \<times> AllpassStage) option" where
  "stage_step a wet stage =
     (let y = f_add (f_add (f_mul (f_neg a) wet) (xm1 stage)) (f_mul a (ym1 stage))
      in Some (y, \<lparr>xm1 = wet, ym1 = y\<rparr>))"

definition PhaserNode_step :: "f32 \<Rightarrow> f32 \<Rightarrow> nat \<Rightarrow> PhaserNode \<Rightarrow> (f32 \<times> PhaserNode) option" where
  "PhaserNode_step a x ch node = do {
     fb \<leftarrow> nth_opt (ph_feedback_state node) ch;
     (wet, stages) \<leftarrow> bank_loop (stage_step a) (ch * ph_num_stages node) (ph_num_stages node)
       (f_add x (f_mul fb (ph_feedback node)), ph_stages node);
     Some (f_add (f_mul x (f_sub f_1 (ph_mix node))) (f_mul wet (ph_mix node)),
       node\<lparr>ph_stages := stages, ph_feedback_state := (ph_feedback_state node)[ch := wet]\<rparr>)
   }"

definition allpass_coef :: "libm \<Rightarrow> PhaserNode \<Rightarrow> f32" where
  "allpass_coef lm node =
     (let lfo = m_sin lm (ph_lfo_phase node);
          fc = f_mul (ph_base_freq node) (f_add f_1 (f_mul (ph_depth node) (f_add (f32_lit 5 10) (f_mul (f32_lit 5 10) lfo))));
          w0 = f_div (f_mul TAU fc) (ph_sample_rate node)
      in f_div (m_sin lm w0) (f_add f_1 (m_cos lm w0)))"

definition PhaserNode_process :: "libm \<Rightarrow> PhaserNode node_fn" where
  "PhaserNode_process lm =
     process_shared (allpass_coef lm) PhaserNode_step
       (\<lambda>node. node\<lparr>ph_lfo_phase := advance_lfo (ph_phase_inc node) (ph_lfo_phase node)\<rparr>)"

section \<open>The reverb, channel by channel\<close>

lemma take_drop_prefix: "a + m \<le> b \<Longrightarrow> b \<le> length fs \<Longrightarrow> take m (drop a (take b fs @ gs)) = take m (drop a fs)"
  by (auto simp: drop_take min_def)

lemma drop_past: "b + m \<le> a \<Longrightarrow> b + m \<le> length fs \<Longrightarrow> length gs = m \<Longrightarrow> drop a (take b fs @ gs @ drop (b + m) fs) = drop a fs"
  by (simp add: min_def)

lemma segment_replace:
  assumes "c * m + m \<le> length fs" "length gs = m"
  shows "segment m c' (take (c * m) fs @ gs @ drop (c * m + m) fs) = (if c' = c then gs else segment m c' fs)"
proof -
  consider "c' = c" | "Suc c' * m \<le> c * m" "c' \<noteq> c" | "Suc c * m \<le> c' * m" "c' \<noteq> c"
    by (cases c' c rule: linorder_cases) (auto intro!: mult_le_mono1 simp del: mult_Suc)
  then show ?thesis
  proof cases
    case 1
    then show ?thesis using assms by (simp add: segment_def min_def)
  next
    case 2
    then have "c' * m + m \<le> c * m" unfolding mult_Suc by linarith
    moreover have "c * m \<le> length fs" using assms(1) by linarith
    ultimately show ?thesis using 2(2) take_drop_prefix [of "c' * m" m "c * m" fs] by (simp add: segment_def)
  next
    case 3
    then have le: "c * m + m \<le> c' * m" unfolding mult_Suc by linarith
    then have "drop (c' * m) (take (c * m) fs @ gs @ drop (c * m + m) fs) = drop (c' * m) fs"
      by (rule drop_past) (use assms in simp_all)
    then show ?thesis using 3(2) by (simp add: segment_def)
  qed
qed

definition comb_ok :: "CombFilter \<Rightarrow> bool" where
  "comb_ok f \<longleftrightarrow> cb_idx f < length (cb_buffer f)"

definition allpass_ok :: "AllpassFilter \<Rightarrow> bool" where
  "allpass_ok f \<longleftrightarrow> ap_idx f < length (ap_buffer f)"

lemma comb_step_ok: "comb_ok f \<Longrightarrow> \<exists>acc' f'. comb_step x acc f = Some (acc', f') \<and> comb_ok f'"
  by (auto simp: comb_step_def CombFilter_process_def comb_ok_def Let_def)

lemma AllpassFilter_process_ok: "allpass_ok f \<Longrightarrow> \<exists>y f'. AllpassFilter_process x f = Some (y, f') \<and> allpass_ok f'"
  by (auto simp: AllpassFilter_process_def allpass_ok_def Let_def)

definition reverb_chans :: "ReverbNode \<Rightarrow> nat" where
  "reverb_chans node = length (rv_combs node) div 8"

definition reverb_ok :: "ReverbNode \<Rightarrow> bool" where
  "reverb_ok node \<longleftrightarrow> length (rv_combs node) = 8 * reverb_chans node \<and> length (rv_allpasses node) = 4 * reverb_chans node \<and>
     list_all comb_ok (rv_combs node) \<and> list_all allpass_ok (rv_allpasses node)"

definition reverb_kernel ::
  "f32 \<Rightarrow> f32 \<Rightarrow> f32 \<Rightarrow> CombFilter list \<times> AllpassFilter list \<Rightarrow> f32 \<times> CombFilter list \<times> AllpassFilter list" where
  "reverb_kernel dry wet x = (\<lambda>(cs, as).
     let (comb_out, cs) = the (bank_run (comb_step x) f_0 cs);
         (wet_out, as) = the (bank_run AllpassFilter_process comb_out as)
     in (f_add (f_mul x dry) (f_mul wet_out wet), cs, as))"

lemma list_all_segment: "list_all P xs \<Longrightarrow> list_all P (segment m c xs)"
  by (auto simp: segment_def list_all_iff dest: in_set_takeD in_set_dropD)

lemma bank_loop_segment:
  assumes "\<And>acc f. ok f \<Longrightarrow> \<exists>acc' f'. step acc f = Some (acc', f') \<and> ok f'" "list_all ok fs" "c * m + m \<le> length fs"
  shows "\<exists>acc' gs. bank_run step acc (segment m c fs) = Some (acc', gs) \<and> length gs = m \<and>
    bank_loop step (c * m) m (acc, fs) = Some (acc', take (c * m) fs @ gs @ drop (c * m + m) fs) \<and>
    list_all ok (take (c * m) fs @ gs @ drop (c * m + m) fs)"
proof -
  obtain acc' gs where gs: "bank_run step acc (segment m c fs) = Some (acc', gs)" "list_all ok gs"
    using bank_run_ok [of ok step "segment m c fs" acc, OF assms(1) list_all_segment [OF assms(2)]] by blast
  moreover have "length gs = m" using length_bank_run [OF gs(1)] assms(3) by (simp add: segment_def)
  moreover have "list_all ok (take (c * m) fs @ gs @ drop (c * m + m) fs)"
    using assms(2) gs(2) by (auto simp: list_all_iff dest: in_set_takeD in_set_dropD)
  ultimately show ?thesis
    using bank_loop_eq [OF assms(3), of step acc] by (simp add: segment_def)
qed

interpretation reverb: planar_node reverb_ok reverb_chans ReverbNode_step
  "\<lambda>node c. (segment 8 c (rv_combs node), segment 4 c (rv_allpasses node))" "\<lambda>node. reverb_kernel (rv_dry node) (rv_wet node)"
proof
  fix node :: ReverbNode and c x
  assume ok: "reverb_ok node" and c: "c < reverb_chans node"
  have room: "c * 8 + 8 \<le> length (rv_combs node)" "c * 4 + 4 \<le> length (rv_allpasses node)"
    using ok c by (simp_all add: reverb_ok_def)
  have filters: "list_all comb_ok (rv_combs node)" "list_all allpass_ok (rv_allpasses node)"
    using ok by (simp_all add: reverb_ok_def)
  obtain co gs where cs: "bank_run (comb_step x) f_0 (segment 8 c (rv_combs node)) = Some (co, gs)" "length gs = 8"
      "bank_loop (comb_step x) (c * 8) 8 (f_0, rv_combs node) = Some (co, take (c * 8) (rv_combs node) @ gs @ drop (c * 8 + 8) (rv_combs node))"
      "list_all comb_ok (take (c * 8) (rv_combs node) @ gs @ drop (c * 8 + 8) (rv_combs node))"
    using bank_loop_segment [of comb_ok "comb_step x" "rv_combs node" c 8 f_0, OF comb_step_ok filters(1) room(1)] by blast
  obtain w hs where as: "bank_run AllpassFilter_process co (segment 4 c (rv_allpasses node)) = Some (w, hs)" "length hs = 4"
      "bank_loop AllpassFilter_process (c * 4) 4 (co, rv_allpasses node) =
        Some (w, take (c * 4) (rv_allpasses node) @ hs @ drop (c * 4 + 4) (rv_allpasses node))"
      "list_all allpass_ok (take (c * 4) (rv_allpasses node) @ hs @ drop (c * 4 + 4) (rv_allpasses node))"
    using bank_loop_segment [of allpass_ok AllpassFilter_process "rv_allpasses node" c 4 co, OF AllpassFilter_process_ok filters(2) room(2)]
    by blast
  let ?node = "node\<lparr>rv_combs := take (c * 8) (rv_combs node) @ gs @ drop (c * 8 + 8) (rv_combs node),
      rv_allpasses := take (c * 4) (rv_allpasses node) @ hs @ drop (c * 4 + 4) (rv_allpasses node)\<rparr>"
  have len: "length (rv_combs ?node) = length (rv_combs node)" "length (rv_allpasses ?node) = length (rv_allpasses node)"
    using room cs(2) as(2) by simp_all
  have "reverb_ok ?node" "reverb_chans ?node = reverb_chans node"
    using ok cs(4) as(4) len by (simp_all add: reverb_ok_def reverb_chans_def)
  moreover have "ReverbNode_step x c node =
      Some (fst (reverb_kernel (rv_dry node) (rv_wet node) x (segment 8 c (rv_combs node), segment 4 c (rv_allpasses node))), ?node)"
    by (simp add: ReverbNode_step_def COMBS_PER_CHANNEL_def ALLPASSES_PER_CHANNEL_def cs as reverb_kernel_def)
  ultimately show "\<exists>s'. ReverbNode_step x c node =
        Some (fst (reverb_kernel (rv_dry node) (rv_wet node) x (segment 8 c (rv_combs node), segment 4 c (rv_allpasses node))), s') \<and>
      reverb_ok s' \<and> reverb_chans s' = reverb_chans node \<and>
      (segment 8 c (rv_combs s'), segment 4 c (rv_allpasses s')) =
        snd (reverb_kernel (rv_dry node) (rv_wet node) x (segment 8 c (rv_combs node), segment 4 c (rv_allpasses node))) \<and>
      (\<forall>c'. c' \<noteq> c \<longrightarrow> (segment 8 c' (rv_combs s'), segment 4 c' (rv_allpasses s')) =
        (segment 8 c' (rv_combs node), segment 4 c' (rv_allpasses node))) \<and>
      reverb_kernel (rv_dry s') (rv_wet s') = reverb_kernel (rv_dry node) (rv_wet node)"
    using segment_replace [OF room(1) cs(2)] segment_replace [OF room(2) as(2)] cs(1) as(1)
    by (intro exI [of _ ?node]) (simp add: reverb_kernel_def)
qed

lemma length_concat_replicate: "length xs = m \<Longrightarrow> length (concat (replicate n xs)) = m * n"
  by (induction n) simp_all

lemma ReverbNode_new_ok:
  "reverb_ok (ReverbNode_new room damp wet dry sr channels)" (is "reverb_ok ?node")
  "reverb_chans (ReverbNode_new room damp wet dry sr channels) = max (unat channels) 1"
proof -
  have "length (rv_combs ?node) = 8 * max (unat channels) 1" "length (rv_allpasses ?node) = 4 * max (unat channels) 1"
    unfolding ReverbNode_new_def Let_def ReverbNode.simps
    by (rule length_concat_replicate, simp add: COMB_DELAYS_441_def ALLPASS_DELAYS_441_def)+
  moreover have "list_all comb_ok (rv_combs ?node)" "list_all allpass_ok (rv_allpasses ?node)"
    by (auto simp: ReverbNode_new_def Let_def list_all_iff CombFilter_new_def AllpassFilter_new_def comb_ok_def allpass_ok_def
        less_max_iff_disj)
  ultimately show "reverb_ok ?node" "reverb_chans ?node = max (unat channels) 1"
    by (simp_all add: reverb_ok_def reverb_chans_def)
qed

section \<open>The modulated read can leave its buffer\<close>

text \<open>
  A chorus without depth, at the least centre delay and the usual rate: the delay is \<open>240 + 2^-16\<close> samples and
  the ring has 288.
\<close>

definition still_chorus :: "f32 \<Rightarrow> f32 \<Rightarrow> ChorusNode" where
  "still_chorus rate mix = ChorusNode_new rate f_0 (f_of_int 5) mix 48000 1"

definition still_at :: "nat \<Rightarrow> ChorusNode \<Rightarrow> bool" where
  "still_at i node \<longleftrightarrow> cs_write_pos node = [i] \<and> map length (cs_buffers node) = [288] \<and> length (cs_lfo_phase node) = 1 \<and>
     cs_center_samples node = 0x43700001 \<and> cs_depth_samples node = f_0"

lemma still_chorus_start: "still_at 0 (still_chorus rate mix)"
proof -
  let ?center = "f_max (f_max (f_of_int 5) (f_of_int 5)) (f_add (f_max f_0 f_0) f_1)"
  let ?len = "f_round (f_mul (f_mul (f_add (f_add ?center (f_max f_0 f_0)) f_1) (f32_lit 1 1000)) (f_of_int 48000))"
  have sr: "f_of_nat 48000 = f_of_int 48000" by (simp add: f_of_nat_def)
  have "f_mul (f_mul ?center (f32_lit 1 1000)) (f_of_int 48000) = 0x43700001" by code_simp
  moreover have "f_mul (f_mul (f_max f_0 f_0) (f32_lit 1 1000)) (f_of_int 48000) = f_0" by code_simp
  moreover have "?len = f_of_int 288" by code_simp
  then have "f_to_usize ?len = 288"
    using f_of_int_exact [of 288] finite_not_nan_inf by (simp add: f_to_usize_def f_unit_def)
  ultimately show ?thesis by (simp add: still_at_def still_chorus_def ChorusNode_new_def Let_def sr)
qed

lemma f_mul_zero: "is_finite y \<Longrightarrow> f_mul f_0 y = f_zero (f_sign y)"
proof -
  assume y: "is_finite y"
  have z: "\<not> is_nan f_0" "\<not> is_inf f_0" "\<not> f_sign f_0" "f_mag f_0 = 0" by (code_simp, code_simp, code_simp, code_simp)
  have "f_pack s 0 f_unit = f_zero s" for s by (cases s) (code_simp, code_simp)
  then show ?thesis using finite_not_nan_inf [OF y] z by (simp add: f_mul_def)
qed

lemma still_delay: "is_finite y \<Longrightarrow> f_add 0x43700001 (f_mul f_0 y) = 0x43700001"
  unfolding f_mul_zero by (cases "f_sign y") (simp_all, code_simp, code_simp)

lemma read_past_end:
  assumes "length buf = 288"
  shows "read_modulated buf 240 0x43700001 = None"
proof -
  have "f_rem_euclid (f_sub (f_of_int 240) 0x43700001) (f_of_int 288) = f_of_int 288" by code_simp
  moreover have "f_to_usize (f_of_int 288) = 288"
    using f_of_int_exact [of 288] finite_not_nan_inf by (simp add: f_to_usize_def f_unit_def)
  ultimately show ?thesis by (simp add: read_modulated_def assms nth_opt_def f_of_nat_def)
qed

lemma still_step:
  assumes "still_at i node" "i \<le> 240" "\<And>p. is_finite (m_sin lm p)"
  shows "i = 240 \<Longrightarrow> ChorusNode_step lm x 0 node = None"
    "ChorusNode_step lm x 0 node = Some (y, node') \<Longrightarrow> still_at (Suc i) node'"
proof -
  obtain buf phase where node: "cs_buffers node = [buf]" "length buf = 288" "cs_lfo_phase node = [phase]" "cs_write_pos node = [i]"
      "cs_center_samples node = 0x43700001" "cs_depth_samples node = f_0"
    using assms(1) by (auto simp: still_at_def length_Suc_conv)
  have d: "f_add (cs_center_samples node) (f_mul (cs_depth_samples node) (m_sin lm phase)) = 0x43700001"
    unfolding node by (rule still_delay [OF assms(3)])
  show "ChorusNode_step lm x 0 node = None" if "i = 240"
    using d read_past_end [of "buf[240 := x]"] that by (simp add: ChorusNode_step_def node Let_def)
  show "still_at (Suc i) node'" if "ChorusNode_step lm x 0 node = Some (y, node')"
    using that assms(2) d by (auto simp: ChorusNode_step_def node Let_def still_at_def Option.bind_eq_Some_conv)
qed

lemma still_slots:
  assumes "still_at i node" "i \<le> 240" "\<And>p. is_finite (m_sin lm p)" "\<forall>(c, idx) \<in> set slots. c = 0"
  shows "240 < i + length slots \<Longrightarrow> run_slots (ChorusNode_step lm) inp slots out node = None"
    "run_slots (ChorusNode_step lm) inp slots out node = Some (out', node') \<Longrightarrow> still_at (i + length slots) node'"
proof -
  have "(240 < i + length slots \<longrightarrow> run_slots (ChorusNode_step lm) inp slots out node = None) \<and>
      (\<forall>out' node'. run_slots (ChorusNode_step lm) inp slots out node = Some (out', node') \<longrightarrow> still_at (i + length slots) node')"
    using assms(1,2,4)
  proof (induction slots arbitrary: i out node)
    case (Cons slot slots)
    obtain idx where slot: "slot = (0, idx)" using Cons.prems(3) by (cases slot) auto
    have rest: "\<forall>(c, idx) \<in> set slots. c = 0" using Cons.prems(3) by simp
    show ?case
    proof (cases "i = 240")
      case True
      then show ?thesis
        using still_step(1) [OF Cons.prems(1,2) assms(3) True] by (auto simp: slot Option.bind_eq_None_conv Option.bind_eq_Some_conv)
    next
      case False
      show ?thesis
      proof (cases "\<exists>x y node1 out1. nth_opt inp idx = Some x \<and> ChorusNode_step lm x 0 node = Some (y, node1) \<and>
          set_opt out idx y = Some out1")
        case True
        then obtain x y node1 out1 where run: "nth_opt inp idx = Some x" "ChorusNode_step lm x 0 node = Some (y, node1)"
            "set_opt out idx y = Some out1" by blast
        have "still_at (Suc i) node1" by (rule still_step(2) [OF Cons.prems(1,2) assms(3) run(2)])
        with Cons.IH [of "Suc i" node1 out1] rest Cons.prems(2) False run show ?thesis by (simp add: slot)
      next
        case stuck: False
        then have "run_slots (ChorusNode_step lm) inp (slot # slots) out node = None"
          by (cases "nth_opt inp idx"; cases "ChorusNode_step lm (the (nth_opt inp idx)) 0 node") (auto simp: slot)
        then show ?thesis by simp
      qed
    qed
  qed simp
  then show "240 < i + length slots \<Longrightarrow> run_slots (ChorusNode_step lm) inp slots out node = None"
    "run_slots (ChorusNode_step lm) inp slots out node = Some (out', node') \<Longrightarrow> still_at (i + length slots) node'"
    by blast+
qed

lemma planar_slots_mono: "planar_slots (Suc 0) p = map (\<lambda>i. (0, i)) [0..<p]"
  by (simp add: planar_slots_def)

text \<open>
  C27: The chorus can read past the end of its ring and panic on the audio thread, against the contract its
  module states: the wrap of the read position to \<open>[0, cap)\<close> rounds to \<open>cap\<close>. With no depth, a centre delay
  of 5 ms and 48 kHz, and whatever rate, mix and (finite) sine, every mono stream of more than 240 samples,
  however it is cut into cycles, makes it panic.\<close>

theorem chorus_panics:
  assumes "\<And>p. is_finite (m_sin lm p)" "stream_io 1 ios" "240 < length (concat (map (\<lambda>io. samples (fst io)) ios))"
  shows "run_cycles (ChorusNode_process lm) ios (ChorusNode_new rate f_0 (f_of_int 5) mix 48000 1) = None"
proof -
  have "run_cycles (ChorusNode_process lm) ios node = None"
    if "still_at i node" "i \<le> 240" "240 < i + length (concat (map (\<lambda>io. samples (fst io)) ios))" for i node
    using assms(2) that
  proof (induction ios arbitrary: i node)
    case (Cons io ios)
    obtain inp out where io: "io = (inp, out)" by fastforce
    have ch: "unat (af_channels inp) = 1" "length (samples out) = length (samples inp)" and ios: "stream_io 1 ios"
      using Cons.prems(1) by (auto simp: stream_io_def io)
    let ?p = "length (samples inp)"
    have slots: "\<forall>(c, idx) \<in> set (planar_slots 1 ?p). c = 0" "length (planar_slots 1 ?p) = ?p"
      by (auto simp: planar_slots_mono)
    note run = still_slots [OF Cons.prems(2,3) assms(1) slots(1), unfolded slots(2)]
    have proc: "ChorusNode_process lm node [inp] [out] =
        (if ?p = 0 then Some (node, [out]) else map_option (\<lambda>(ys, s). (s, [out\<lparr>samples := ys\<rparr>]))
          (run_slots (ChorusNode_step lm) (samples inp) (planar_slots 1 ?p) (samples out) node))"
      by (simp add: ChorusNode_process_def process_planar_def ch)
    show ?case
    proof (cases "ChorusNode_process lm node [inp] [out]")
      case None
      then show ?thesis by (simp add: io)
    next
      case (Some r)
      obtain node1 outs where r: "r = (node1, outs)" by fastforce
      have "still_at (i + ?p) node1 \<and> i + ?p \<le> 240"
      proof (cases "?p = 0")
        case True
        then show ?thesis using Some r proc Cons.prems(2,3) by simp
      next
        case False
        then show ?thesis using Some r proc run not_le by fastforce
      qed
      then show ?thesis using Cons.IH [OF ios, of "i + ?p" node1] Cons.prems(4) Some r by (simp add: io)
    qed
  qed simp
  then show ?thesis using still_chorus_start [of rate mix] assms(3) by (simp add: still_chorus_def)
qed

theorem chorus_panics_witness:
  "run_cycles (ChorusNode_process \<lparr>m_sin = (\<lambda>_. f_0), m_cos = id, m_exp = id, m_tanh = id, m_powf = (\<lambda>x y. x), m_sqrt = id\<rparr>)
     [(\<lparr>af_channels = 1, af_sample_rate = 48000, samples = replicate 256 f_0\<rparr>,
       \<lparr>af_channels = 1, af_sample_rate = 48000, samples = replicate 256 f_0\<rparr>)]
     (ChorusNode_new f_1 f_0 (f_of_int 5) f_1 48000 1) = None"
proof -
  have "is_finite f_0" by code_simp
  then show ?thesis by (intro chorus_panics) (simp_all add: stream_io_def)
qed

section \<open>One oscillator for all channels\<close>

lemma planar_index: "i < p \<Longrightarrow> j < p \<Longrightarrow> c * p + i = d * p + j \<longleftrightarrow> c = d \<and> i = (j :: nat)"
proof
  assume *: "i < p" "j < p" "c * p + i = d * p + j"
  then have "(c * p + i) div p = (d * p + j) div p" "(c * p + i) mod p = (d * p + j) mod p" by simp_all
  then show "c = d \<and> i = j" using *(1,2) by simp
qed simp

lemma slot_in_frame: "c < ch \<Longrightarrow> i < p \<Longrightarrow> c * p + i < ch * (p :: nat)"
proof -
  assume "c < ch" "i < p"
  then have "Suc c * p \<le> ch * p" by (intro mult_le_mono1) simp
  then show ?thesis using \<open>i < p\<close> unfolding mult_Suc by linarith
qed

text \<open>
  A node that draws a control value per sample, applies it to every channel and then advances: with the step
  in range on the channels the node serves, the loop does not panic.
\<close>

locale shared_node =
  fixes inv :: "'s \<Rightarrow> bool" and chans :: "'s \<Rightarrow> nat" and control :: "'s \<Rightarrow> 'a"
    and step :: "'a \<Rightarrow> f32 \<Rightarrow> nat \<Rightarrow> 's \<Rightarrow> (f32 \<times> 's) option" and advance :: "'s \<Rightarrow> 's"
  assumes step: "inv s \<Longrightarrow> c < chans s \<Longrightarrow> \<exists>y s'. step a x c s = Some (y, s') \<and> inv s' \<and> chans s' = chans s"
    and advance: "inv s \<Longrightarrow> inv (advance s) \<and> chans (advance s) = chans s"
begin

lemma process_safe:
  assumes "inv s" "\<forall>inp \<in> set ins. unat (af_channels inp) \<le> chans s"
  shows "\<exists>s' outs'. process_shared control step advance s ins outs = Some (s', outs') \<and> inv s' \<and> chans s' = chans s \<and>
    frame_sizes outs' = frame_sizes outs"
proof (cases "ins = [] \<or> outs = []")
  case True
  then show ?thesis using assms(1) by (auto simp: process_shared_def split: list.splits)
next
  case False
  then obtain inp ins' out outs' where l: "ins = inp # ins'" "outs = out # outs'" by (metis list.exhaust)
  let ?ch = "unat (af_channels inp)" and ?n = "min (length (samples inp)) (length (samples out))"
  let ?p = "?n div ?ch"
  have ch: "?ch \<le> chans s" using assms(2) l by simp
  have room: "?ch * ?p \<le> ?n" by (rule times_div_less_eq_dividend)
  let ?P = "\<lambda>(s', ys). inv s' \<and> chans s' = chans s \<and> length ys = length (samples out)"
  let ?body = "\<lambda>i a c (s, ys). do { x \<leftarrow> nth_opt (samples inp) (c * ?p + i); (y, s) \<leftarrow> step a x c s;
      ys \<leftarrow> set_opt ys (c * ?p + i) y; Some (s, ys) }"
  have inner: "\<exists>r. ?body i a c q = Some r \<and> ?P r" if i: "i < ?p" and c: "c \<in> set [0..<?ch]" and P: "?P q" for i a c q
  proof -
    obtain t ys where q: "q = (t, ys)" by fastforce
    have "c * ?p + i < ?ch * ?p" using i c by (intro slot_in_frame) simp_all
    then have idx: "c * ?p + i < length (samples inp)" "c * ?p + i < length (samples out)" using room by linarith+
    obtain y t' where "step a (samples inp ! (c * ?p + i)) c t = Some (y, t')" "inv t'" "chans t' = chans t"
      using step [of t c a "samples inp ! (c * ?p + i)"] c P q ch by auto
    then show ?thesis using P idx q by simp
  qed
  have loop: "\<exists>r. for_in (?body i a) [0..<?ch] q = Some r \<and> ?P r" if "i < ?p" "?P q" for i a q
    by (rule for_in_invariant) (use inner that in blast)+
  have "\<exists>r. for_in (\<lambda>i (s, ys). let a = control s in map_option (\<lambda>(s, ys). (advance s, ys))
        (for_in (?body i a) [0..<?ch] (s, ys))) [0..<?p] (s, samples out) = Some r \<and> ?P r"
  proof (rule for_in_invariant)
    fix i and q :: "'s \<times> f32 list" assume i: "i \<in> set [0..<?p]" and q: "?P q"
    obtain t ys where [simp]: "q = (t, ys)" by fastforce
    obtain t' ys' where "for_in (?body i (control t)) [0..<?ch] (t, ys) = Some (t', ys')" "?P (t', ys')"
      using loop [of i "(t, ys)" "control t"] i q by auto
    then show "\<exists>r. (case q of (s, ys) \<Rightarrow> let a = control s in map_option (\<lambda>(s, ys). (advance s, ys))
        (for_in (?body i a) [0..<?ch] (s, ys))) = Some r \<and> ?P r"
      using advance [of t'] by (simp add: Let_def)
  qed (use assms(1) in simp)
  then obtain s' ys where run: "for_in (\<lambda>i (s, ys). let a = control s in map_option (\<lambda>(s, ys). (advance s, ys))
        (for_in (?body i a) [0..<?ch] (s, ys))) [0..<?p] (s, samples out) = Some (s', ys)" "?P (s', ys)" by blast
  show ?thesis
  proof (cases "?ch = 0 \<or> ?n = 0")
    case True
    then show ?thesis using assms(1) l by (auto simp: process_shared_def Let_def)
  next
    case False
    then have "process_shared control step advance s ins outs = Some (s', out\<lparr>samples := ys\<rparr> # outs')"
      unfolding process_shared_def l prod.case list.case using run(1) by (simp only: Let_def if_False option.map prod.case)
    then show ?thesis using run(2) l by simp
  qed
qed

end

definition tremolo_advance :: "TremoloNode \<Rightarrow> TremoloNode" where
  "tremolo_advance node = node\<lparr>tr_lfo_phase := advance_lfo (tr_phase_inc node) (tr_lfo_phase node)\<rparr>"

interpretation tremolo: shared_node "\<lambda>_. True" "\<lambda>_. 2 ^ 16" "tremolo_gain lm" "\<lambda>gain x c node. Some (f_mul x gain, node)" tremolo_advance
  for lm
  by unfold_locales simp_all

lemma TremoloNode_process_shared:
  "TremoloNode_process lm = process_shared (tremolo_gain lm) (\<lambda>gain x c node. Some (f_mul x gain, node)) tremolo_advance"
  by (simp add: TremoloNode_process_def tremolo_advance_def [abs_def])

definition phaser_ok :: "PhaserNode \<Rightarrow> bool" where
  "phaser_ok node \<longleftrightarrow> length (ph_stages node) = length (ph_feedback_state node) * ph_num_stages node"

definition phaser_advance :: "PhaserNode \<Rightarrow> PhaserNode" where
  "phaser_advance node = node\<lparr>ph_lfo_phase := advance_lfo (ph_phase_inc node) (ph_lfo_phase node)\<rparr>"

interpretation phaser: shared_node phaser_ok "\<lambda>node. length (ph_feedback_state node)" "allpass_coef lm" PhaserNode_step phaser_advance
  for lm
proof
  fix node :: PhaserNode and c :: nat and a x :: f32
  assume ok: "phaser_ok node" "c < length (ph_feedback_state node)"
  let ?m = "ph_num_stages node"
  have "Suc c * ?m \<le> length (ph_feedback_state node) * ?m" using ok(2) by (intro mult_le_mono1) simp
  then have room: "c * ?m + ?m \<le> length (ph_stages node)" using ok(1) unfolding mult_Suc phaser_ok_def by linarith
  have stage: "True \<Longrightarrow> \<exists>acc' f'. stage_step a acc f = Some (acc', f') \<and> True" for a acc f by (simp add: stage_step_def Let_def)
  have all: "list_all (\<lambda>_. True) (ph_stages node)" by (simp add: list_all_iff)
  obtain w gs where "bank_loop (stage_step a) (c * ?m) ?m
        (f_add x (f_mul (ph_feedback_state node ! c) (ph_feedback node)), ph_stages node) =
      Some (w, take (c * ?m) (ph_stages node) @ gs @ drop (c * ?m + ?m) (ph_stages node))" "length gs = ?m"
    using bank_loop_segment [of "\<lambda>_. True" "stage_step a" "ph_stages node" c ?m
        "f_add x (f_mul (ph_feedback_state node ! c) (ph_feedback node))", OF stage all room] by blast
  then show "\<exists>y s'. PhaserNode_step a x c node = Some (y, s') \<and> phaser_ok s' \<and>
      length (ph_feedback_state s') = length (ph_feedback_state node)"
    using ok room by (simp add: PhaserNode_step_def phaser_ok_def)
qed (simp add: phaser_advance_def phaser_ok_def)

lemma PhaserNode_process_shared:
  "PhaserNode_process lm = process_shared (allpass_coef lm) PhaserNode_step phaser_advance"
  by (simp add: PhaserNode_process_def phaser_advance_def [abs_def])

lemma PhaserNode_new_ok:
  "PhaserNode_new rate base depth fb mix stages sr channels = Some node \<Longrightarrow>
   phaser_ok node \<and> length (ph_feedback_state node) = max (unat channels) 1"
  by (auto simp: PhaserNode_new_def phaser_ok_def Let_def split: if_splits)

text \<open>The samples of one instant, on every channel.\<close>

lemma tremolo_inner:
  assumes "i < p" "ch * p \<le> length inp" "ch * p \<le> length ys" "k \<le> ch"
  shows "\<exists>ys'. for_in (\<lambda>c (s, ys). do { x \<leftarrow> nth_opt inp (c * p + i); (y, s) \<leftarrow> Some (f_mul x g, s);
        ys \<leftarrow> set_opt ys (c * p + i) y; Some (s, ys) }) [0..<k] (s, ys) = Some (s, ys') \<and> length ys' = length ys \<and>
    (\<forall>c < ch. \<forall>j < p. ys' ! (c * p + j) = (if j = i \<and> c < k then f_mul (inp ! (c * p + j)) g else ys ! (c * p + j)))"
  using assms(4)
proof (induction k)
  case (Suc k)
  then obtain ys1 where ys1: "for_in (\<lambda>c (s, ys). do { x \<leftarrow> nth_opt inp (c * p + i); (y, s) \<leftarrow> Some (f_mul x g, s);
        ys \<leftarrow> set_opt ys (c * p + i) y; Some (s, ys) }) [0..<k] (s, ys) = Some (s, ys1)" "length ys1 = length ys"
      "\<forall>c < ch. \<forall>j < p. ys1 ! (c * p + j) = (if j = i \<and> c < k then f_mul (inp ! (c * p + j)) g else ys ! (c * p + j))"
    by auto
  have "k * p + i < ch * p" using Suc.prems assms(1) by (intro slot_in_frame) simp_all
  then have idx: "k * p + i < length inp" "k * p + i < length ys1" using assms(2,3) ys1(2) by linarith+
  let ?ys = "ys1[k * p + i := f_mul (inp ! (k * p + i)) g]"
  have "?ys ! (c * p + j) = (if j = i \<and> c < Suc k then f_mul (inp ! (c * p + j)) g else ys ! (c * p + j))"
    if "c < ch" "j < p" for c j
    using that ys1(3) idx(2) assms(1) planar_index [of j p i c k] by (auto simp: nth_list_update)
  then show ?case using ys1(1,2) idx by (simp add: for_in_append)
qed simp

lemma tremolo_outer:
  assumes "ch * p \<le> length inp" "ch * p \<le> length out" "q \<le> p"
  shows "\<exists>ys. for_in (\<lambda>i (s, ys). let a = tremolo_gain lm s in map_option (\<lambda>(s, ys). (tremolo_advance s, ys))
        (for_in (\<lambda>c (s, ys). do { x \<leftarrow> nth_opt inp (c * p + i); (y, s) \<leftarrow> Some (f_mul x a, s);
          ys \<leftarrow> set_opt ys (c * p + i) y; Some (s, ys) }) [0..<ch] (s, ys))) [0..<q] (node, out) =
      Some ((tremolo_advance ^^ q) node, ys) \<and> length ys = length out \<and>
    (\<forall>c < ch. \<forall>j < p. ys ! (c * p + j) =
      (if j < q then f_mul (inp ! (c * p + j)) (tremolo_gain lm ((tremolo_advance ^^ j) node)) else out ! (c * p + j)))"
  using assms(3)
proof (induction q)
  case (Suc q)
  let ?s = "(tremolo_advance ^^ q) node"
  obtain ys where ys: "for_in (\<lambda>i (s, ys). let a = tremolo_gain lm s in map_option (\<lambda>(s, ys). (tremolo_advance s, ys))
        (for_in (\<lambda>c (s, ys). do { x \<leftarrow> nth_opt inp (c * p + i); (y, s) \<leftarrow> Some (f_mul x a, s);
          ys \<leftarrow> set_opt ys (c * p + i) y; Some (s, ys) }) [0..<ch] (s, ys))) [0..<q] (node, out) = Some (?s, ys)"
      "length ys = length out"
      "\<forall>c < ch. \<forall>j < p. ys ! (c * p + j) =
        (if j < q then f_mul (inp ! (c * p + j)) (tremolo_gain lm ((tremolo_advance ^^ j) node)) else out ! (c * p + j))"
    using Suc by auto
  obtain ys1 where ys1: "for_in (\<lambda>c (s, ys). do { x \<leftarrow> nth_opt inp (c * p + q); (y, s) \<leftarrow> Some (f_mul x (tremolo_gain lm ?s), s);
        ys \<leftarrow> set_opt ys (c * p + q) y; Some (s, ys) }) [0..<ch] (?s, ys) = Some (?s, ys1)" "length ys1 = length ys"
      "\<forall>c < ch. \<forall>j < p. ys1 ! (c * p + j) =
        (if j = q \<and> c < ch then f_mul (inp ! (c * p + j)) (tremolo_gain lm ?s) else ys ! (c * p + j))"
    using tremolo_inner [of q p ch inp ys ch "tremolo_gain lm ?s" ?s] Suc.prems assms(1,2) ys(2) by auto
  have "\<forall>c < ch. \<forall>j < p. ys1 ! (c * p + j) =
      (if j < Suc q then f_mul (inp ! (c * p + j)) (tremolo_gain lm ((tremolo_advance ^^ j) node)) else out ! (c * p + j))"
    using ys1(3) ys(3) by (auto simp: less_Suc_eq)
  then show ?case using ys(1,2) ys1(1,2) by (simp add: for_in_append Let_def)
qed simp

text \<open>
  The tremolo keeps its channels in phase: processing a frame of \<open>p\<close> samples per channel succeeds, sample
  \<open>i\<close> of every channel is scaled by the same gain, that of the oscillator advanced \<open>i\<close> times, and the oscillator
  ends advanced \<open>p\<close> times, whatever the number of channels.\<close>

theorem tremolo_in_phase:
  assumes "ch = unat (af_channels inp)" "0 < ch" "p = min (length (samples inp)) (length (samples out)) div ch"
  shows "\<exists>ys. TremoloNode_process lm node (inp # ins) (out # outs) =
      Some ((tremolo_advance ^^ p) node, out\<lparr>samples := ys\<rparr> # outs) \<and> length ys = length (samples out) \<and>
    (\<forall>c < ch. \<forall>i < p. ys ! (c * p + i) =
       f_mul (samples inp ! (c * p + i)) (tremolo_gain lm ((tremolo_advance ^^ i) node)))"
proof -
  let ?n = "min (length (samples inp)) (length (samples out))"
  have "ch * p \<le> ?n" unfolding assms(3) by (rule times_div_less_eq_dividend)
  then have room: "ch * p \<le> length (samples inp)" "ch * p \<le> length (samples out)" by simp_all
  obtain ys where ys: "for_in (\<lambda>i (s, ys). let a = tremolo_gain lm s in map_option (\<lambda>(s, ys). (tremolo_advance s, ys))
        (for_in (\<lambda>c (s, ys). do { x \<leftarrow> nth_opt (samples inp) (c * p + i); (y, s) \<leftarrow> Some (f_mul x a, s);
          ys \<leftarrow> set_opt ys (c * p + i) y; Some (s, ys) }) [0..<ch] (s, ys))) [0..<p] (node, samples out) =
      Some ((tremolo_advance ^^ p) node, ys)" "length ys = length (samples out)"
      "\<forall>c < ch. \<forall>j < p. ys ! (c * p + j) = f_mul (samples inp ! (c * p + j)) (tremolo_gain lm ((tremolo_advance ^^ j) node))"
    using tremolo_outer [OF room, of p lm node] by auto
  show ?thesis
  proof (cases "?n = 0")
    case True
    then have "p = 0" using assms(3) by simp
    then show ?thesis
      using True by (intro exI [of _ "samples out"]) (simp add: TremoloNode_process_shared process_shared_def Let_def)
  next
    case False
    have no: "(ch = 0 \<or> ?n = 0) = False" using False assms(2) by blast
    have "TremoloNode_process lm node (inp # ins) (out # outs) = Some ((tremolo_advance ^^ p) node, out\<lparr>samples := ys\<rparr> # outs)"
      unfolding TremoloNode_process_shared process_shared_def prod.case list.case Let_def assms(1) [symmetric] assms(3) [symmetric] no if_False
      using ys(1) unfolding Let_def by simp
    then show ?thesis using ys(2,3) by blast
  qed
qed

theorem tremolo_in_phase_witness:
  "\<exists>ys. TremoloNode_process \<lparr>m_sin = (\<lambda>_. f_0), m_cos = id, m_exp = id, m_tanh = id, m_powf = (\<lambda>x y. x), m_sqrt = id\<rparr>
      \<lparr>tr_depth = f_1, tr_phase_inc = f_1, tr_lfo_phase = f_0\<rparr>
      [\<lparr>af_channels = 2, af_sample_rate = 48000, samples = [f_1, f_2]\<rparr>]
      [\<lparr>af_channels = 2, af_sample_rate = 48000, samples = [f_0, f_0]\<rparr>] =
    Some (tremolo_advance \<lparr>tr_depth = f_1, tr_phase_inc = f_1, tr_lfo_phase = f_0\<rparr>,
      [\<lparr>af_channels = 2, af_sample_rate = 48000, samples = ys\<rparr>]) \<and> length ys = 2"
  using tremolo_in_phase [of 2 "\<lparr>af_channels = 2, af_sample_rate = 48000, samples = [f_1, f_2]\<rparr>" 1
      "\<lparr>af_channels = 2, af_sample_rate = 48000, samples = [f_0, f_0]\<rparr>"
      "\<lparr>m_sin = (\<lambda>_. f_0), m_cos = id, m_exp = id, m_tanh = id, m_powf = (\<lambda>x y. x), m_sqrt = id\<rparr>"
      "\<lparr>tr_depth = f_1, tr_phase_inc = f_1, tr_lfo_phase = f_0\<rparr>" "[]" "[]"]
  by auto

end
