(* ===== verification/Dsp_Sources.thy ===== *)
theory Dsp_Sources
  imports Dsp_Modulation
begin

text \<open>
  The source nodes: noise (\<open>noise_source.rs\<close>), tones (\<open>tone_generator.rs\<close>) and files (\<open>file_source.rs\<close>), with
  the loader that decodes a file into one buffer. The decoder is another crate's: a parameter.
\<close>

section \<open>Filling a planar frame\<close>

text \<open>\<open>for c in 0..ch { for i in 0..per_ch { out[c * per_ch + i] = ... } }\<close>, with a state.\<close>

definition planar_pairs :: "nat \<Rightarrow> nat \<Rightarrow> (nat \<times> nat) list" where
  "planar_pairs ch per_ch = concat (map (\<lambda>c. map (Pair c) [0..<per_ch]) [0..<ch])"

definition fill_planar ::
  "(nat \<Rightarrow> nat \<Rightarrow> 's \<Rightarrow> (f32 \<times> 's) option) \<Rightarrow> nat \<Rightarrow> nat \<Rightarrow> 's \<times> f32 list \<Rightarrow> ('s \<times> f32 list) option" where
  "fill_planar step ch per_ch =
     for_in (\<lambda>(c, i) (s, ys). do {
       (y, s) \<leftarrow> step c i s;
       ys \<leftarrow> set_opt ys (c * per_ch + i) y;
       Some (s, ys)
     }) (planar_pairs ch per_ch)"

section \<open>Noise\<close>

datatype NoiseColor = White | Pink

record NoiseSource =
  ns_color :: NoiseColor
  ns_amp :: f32
  ns_rng_state :: u64
  ns_channels :: u16
  ns_pink :: "f32 list"

definition NoiseSource_new :: "NoiseColor \<Rightarrow> f32 \<Rightarrow> u64 \<Rightarrow> u16 \<Rightarrow> NoiseSource" where
  "NoiseSource_new color amp seed channels =
     \<lparr>ns_color = color, ns_amp = amp, ns_rng_state = (if seed = 0 then 1 else seed), ns_channels = channels,
      ns_pink = replicate (7 * unat channels) f_0\<rparr>"

definition xorshift :: "u64 \<Rightarrow> u64" where
  "xorshift s = (let s = s XOR push_bit 13 s; s = s XOR drop_bit 7 s in s XOR push_bit 17 s)"

definition next_rand :: "NoiseSource \<Rightarrow> f32 \<times> NoiseSource" where
  "next_rand node =
     (let s = xorshift (ns_rng_state node); lo = (ucast s :: u32)
      in (f_sub (f_mul (f_div (f_of_nat (unat lo)) (f_of_int 4294967295)) f_2) f_1, node\<lparr>ns_rng_state := s\<rparr>))"

text \<open>The seven registers of a channel, and its sample.\<close>

definition pink_filter :: "f32 \<Rightarrow> f32 list \<Rightarrow> f32 \<times> f32 list" where
  "pink_filter white s =
     (let s0 = f_add (f_mul (f32_lit 99886 100000) (s ! 0)) (f_mul white (f32_lit 555179 10000000));
          s1 = f_add (f_mul (f32_lit 99332 100000) (s ! 1)) (f_mul white (f32_lit 750759 10000000));
          s2 = f_add (f_mul (f32_lit 96900 100000) (s ! 2)) (f_mul white (f32_lit 153852 1000000));
          s3 = f_add (f_mul (f32_lit 86650 100000) (s ! 3)) (f_mul white (f32_lit 3104856 10000000));
          s4 = f_add (f_mul (f32_lit 55000 100000) (s ! 4)) (f_mul white (f32_lit 5329522 10000000));
          s5 = f_sub (f_mul (f32_lit (- 7616) 10000) (s ! 5)) (f_mul white (f32_lit 168980 10000000));
          pink = f_mul (f_add (f_add (f_add (f_add (f_add (f_add (f_add s0 s1) s2) s3) s4) s5) (s ! 6))
                          (f_mul white (f32_lit 5362 10000))) (f32_lit 11 100);
          s6 = f_mul white (f32_lit 115926 1000000)
      in (pink, [s0, s1, s2, s3, s4, s5, s6]))"

definition gen_sample :: "nat \<Rightarrow> NoiseSource \<Rightarrow> (f32 \<times> NoiseSource) option" where
  "gen_sample ch node =
     (let (white, node) = next_rand node
      in case ns_color node of
           White \<Rightarrow> Some (f_mul white (ns_amp node), node)
         | Pink \<Rightarrow>
             let base = ch * 7; s = ns_pink node
             in if base + 6 < length s
                then let (pink, regs) = pink_filter white (take 7 (drop base s))
                     in Some (f_mul pink (ns_amp node), node\<lparr>ns_pink := take base s @ regs @ drop (base + 7) s\<rparr>)
                else None)"

definition NoiseSource_process :: "NoiseSource node_fn" where
  "NoiseSource_process node ins outs =
     (case outs of
        [] \<Rightarrow> Some (node, [])
      | out # rest \<Rightarrow>
          let ch = unat (ns_channels node); n = length (samples out)
          in if ch = 0 \<or> n = 0 then Some (node, outs)
             else map_option (\<lambda>(node, ys). (node, out\<lparr>samples := ys, af_channels := ns_channels node\<rparr> # rest))
                    (fill_planar (\<lambda>c i. gen_sample c) ch (n div ch) (node, samples out)))"

section \<open>Tones\<close>

datatype Waveform = Sine | Square | Saw | Triangle

record ToneGenerator =
  tg_waveform :: Waveform
  tg_amp :: f32
  tg_channels :: u16
  tg_phase :: "f32 list"
  tg_phase_inc :: f32

definition ToneGenerator_new :: "Waveform \<Rightarrow> f32 \<Rightarrow> f32 \<Rightarrow> u32 \<Rightarrow> u16 \<Rightarrow> ToneGenerator" where
  "ToneGenerator_new waveform freq amp sample_rate channels =
     (let freq = (if f_le freq f_0 then f_1 else freq)
      in \<lparr>tg_waveform = waveform, tg_amp = f_clamp amp f_0 f_1, tg_channels = channels,
          tg_phase = replicate (unat channels) f_0,
          tg_phase_inc = f_div (f_mul (f_mul f_2 PI) freq) (f_of_nat (unat sample_rate))\<rparr>)"

definition tone_sample :: "libm \<Rightarrow> Waveform \<Rightarrow> f32 \<Rightarrow> f32" where
  "tone_sample lm waveform phase =
     (let two_pi = f_mul f_2 PI; t = f_div (f_rem phase two_pi) two_pi
      in case waveform of
           Sine \<Rightarrow> m_sin lm phase
         | Square \<Rightarrow> if f_le f_0 (m_sin lm phase) then f_1 else f_of_int (- 1)
         | Saw \<Rightarrow> f_sub (f_mul f_2 t) f_1
         | Triangle \<Rightarrow> f_sub (f_mul (f_of_int 4) (f_abs (f_sub t (f32_lit 5 10)))) f_1)"

definition tone_step :: "libm \<Rightarrow> nat \<Rightarrow> nat \<Rightarrow> ToneGenerator \<Rightarrow> (f32 \<times> ToneGenerator) option" where
  "tone_step lm c i node = do {
     phase \<leftarrow> nth_opt (tg_phase node) c;
     let y = f_mul (tone_sample lm (tg_waveform node) phase) (tg_amp node);
     let two_pi = f_mul f_2 PI;
     let phase = f_add phase (tg_phase_inc node);
     let phase = (if f_le two_pi phase then f_sub phase two_pi else phase);
     Some (y, node\<lparr>tg_phase := (tg_phase node)[c := phase]\<rparr>)
   }"

definition ToneGenerator_process :: "libm \<Rightarrow> ToneGenerator node_fn" where
  "ToneGenerator_process lm node ins outs =
     (case outs of
        [] \<Rightarrow> Some (node, [])
      | out # rest \<Rightarrow>
          let ch = unat (tg_channels node); n = length (samples out)
          in if ch = 0 \<or> n = 0 then Some (node, outs)
             else map_option (\<lambda>(node, ys). (node, out\<lparr>samples := ys, af_channels := tg_channels node\<rparr> # rest))
                    (fill_planar (tone_step lm) ch (n div ch) (node, samples out)))"

section \<open>Files\<close>

record FileSource =
  fs_samples :: "f32 list"
  fs_channels :: u16
  fs_sample_rate :: u32
  fs_looping :: bool
  fs_read_pos :: nat
  fs_ended :: bool

definition FileSource_new :: "f32 list \<Rightarrow> u16 \<Rightarrow> u32 \<Rightarrow> bool \<Rightarrow> FileSource" where
  "FileSource_new smps channels sample_rate looping =
     \<lparr>fs_samples = smps, fs_channels = channels, fs_sample_rate = sample_rate, fs_looping = looping,
      fs_read_pos = 0, fs_ended = (smps = [] \<or> channels = 0)\<rparr>"

definition total_frames :: "FileSource \<Rightarrow> nat" where
  "total_frames node = length (fs_samples node) div unat (max (fs_channels node) 1)"

definition into_parts :: "FileSource \<Rightarrow> f32 list \<times> u16 \<times> u32 \<times> bool" where
  "into_parts node = (fs_samples node, fs_channels node, fs_sample_rate node, fs_looping node)"

definition file_step :: "nat \<Rightarrow> nat \<Rightarrow> nat \<Rightarrow> FileSource \<Rightarrow> (f32 \<times> FileSource) option" where
  "file_step stride c i node =
     (let local_pos = fs_read_pos node + i; buf_offset = c * stride
      in map_option (\<lambda>y. (y, node))
           (if local_pos < stride then nth_opt (fs_samples node) (buf_offset + local_pos)
            else if fs_looping node then nth_opt (fs_samples node) (buf_offset + local_pos mod stride)
            else Some f_0))"

definition file_advance :: "nat \<Rightarrow> nat \<Rightarrow> FileSource \<Rightarrow> FileSource" where
  "file_advance stride per_ch node =
     (if fs_looping node then node\<lparr>fs_read_pos := (fs_read_pos node + per_ch) mod stride\<rparr>
      else let pos = fs_read_pos node + per_ch
           in node\<lparr>fs_read_pos := pos, fs_ended := (fs_ended node \<or> stride \<le> pos)\<rparr>)"

definition FileSource_process :: "FileSource node_fn" where
  "FileSource_process node ins outs =
     (case outs of
        [] \<Rightarrow> Some (node, [])
      | out # rest \<Rightarrow>
          let ch = unat (fs_channels node); n = length (samples out);
              out = out\<lparr>af_channels := fs_channels node, af_sample_rate := fs_sample_rate node\<rparr>;
              silence = Some (node, out\<lparr>samples := replicate n f_0\<rparr> # rest);
              stride = length (fs_samples node) div ch;
              per_ch = n div ch
          in if ch = 0 \<or> n = 0 \<or> fs_samples node = [] \<or> fs_ended node then silence
             else if stride = 0 then silence
             else map_option (\<lambda>(node, ys). (file_advance stride per_ch node, out\<lparr>samples := ys\<rparr> # rest))
                    (fill_planar (file_step stride) ch per_ch (node, samples out)))"

text \<open>
  The decoder of \<open>audio_codec_bsd\<close>: opening a path, its stream information, the next decoded frame or the end,
  and the error value for a decoding failure. The loop that drains it may not end.
\<close>

record AudioInfo =
  ai_channels :: u16
  ai_sample_rate :: u32

record ('d, 'e) codec =
  c_open :: "string \<Rightarrow> 'e + 'd"
  c_info :: "string \<Rightarrow> 'd \<Rightarrow> 'e + AudioInfo \<times> 'd"
  c_next_frame :: "'d \<Rightarrow> 'e + AudioFrame option \<times> 'd"
  c_Decode :: "string \<Rightarrow> 'e"

partial_function (option) decode_all :: "('d \<Rightarrow> 'e + AudioFrame option \<times> 'd) \<Rightarrow> 'd \<Rightarrow> f32 list \<Rightarrow> ('e + f32 list) option" where
  "decode_all next d acc =
     (case next d of
        Inl e \<Rightarrow> Some (Inl e)
      | Inr (None, d) \<Rightarrow> Some (Inr acc)
      | Inr (Some frame, d) \<Rightarrow> decode_all next d (acc @ samples frame))"

definition load_file_source :: "('d, 'e) codec \<Rightarrow> string \<Rightarrow> bool \<Rightarrow> ('e + FileSource) option" where
  "load_file_source cdc path looping =
     (case rbind (c_open cdc path) (c_info cdc path) of
        Inl e \<Rightarrow> Some (Inl e)
      | Inr (info, d) \<Rightarrow>
          map_option (\<lambda>r. rbind r (\<lambda>smps.
            if smps = [] then Inl (c_Decode cdc ''empty stream: zero frames decoded'')
            else Inr (FileSource_new smps (ai_channels info) (ai_sample_rate info) looping)))
            (decode_all (c_next_frame cdc) d []))"

section \<open>The random number generator\<close>

lemma push_bit_fixed: "0 < k \<Longrightarrow> x = push_bit k x \<Longrightarrow> x = (0 :: u64)"
proof (rule bit_eqI)
  fix n assume k: "0 < k" "x = push_bit k x"
  have "\<not> bit x n" for n
  proof (induction n rule: less_induct)
    case (less n)
    show ?case
    proof
      assume "bit x n"
      then have "bit (push_bit k x) n" using k(2) by simp
      then have "k \<le> n" "bit x (n - k)" by (simp_all add: bit_push_bit_iff)
      then show False using less [of "n - k"] k(1) by simp
    qed
  qed
  then show "bit x n \<longleftrightarrow> bit (0 :: u64) n" by simp
qed

lemma drop_bit_fixed: "0 < k \<Longrightarrow> x = drop_bit k x \<Longrightarrow> x = (0 :: u64)"
proof -
  assume k: "0 < k" "x = drop_bit k x"
  have "unat x = unat x div 2 ^ k" using arg_cong [OF k(2), of unat] by (simp only: unat_drop_bit_eq) (simp add: drop_bit_eq_div)
  moreover have "unat x div 2 ^ k < unat x" if "unat x \<noteq> 0" using that k(1) one_less_power [of "2 :: nat" k] by (intro div_less_dividend) simp_all
  ultimately show ?thesis by (cases "unat x = 0") (simp_all add: unat_eq_zero)
qed

lemma xor_self_shift: "a XOR f a = b XOR f b \<Longrightarrow> f (a XOR b) = f a XOR f b \<Longrightarrow> a XOR b = f (a XOR b)" for a b :: u64
  by (simp add: bit_eq_iff bit_xor_iff) blast

lemma xor_eq_0: "a XOR b = 0 \<Longrightarrow> a = (b :: u64)"
  by (simp add: bit_eq_iff bit_xor_iff)

lemma inj_xorshift: "inj xorshift"
proof (rule injI)
  fix a b assume eq: "xorshift a = xorshift b"
  have push: "x = y" if "x XOR push_bit k x = y XOR push_bit k y" "0 < k" for x y :: u64 and k
    using push_bit_fixed [OF that(2) xor_self_shift [OF that(1)]] by (simp add: push_bit_xor xor_eq_0)
  have drop: "x = y" if "x XOR drop_bit k x = y XOR drop_bit k y" "0 < k" for x y :: u64 and k
    using drop_bit_fixed [OF that(2) xor_self_shift [OF that(1)]] by (simp add: drop_bit_xor xor_eq_0)
  let ?s1 = "\<lambda>a. a XOR push_bit 13 (a :: u64)"
  let ?s2 = "\<lambda>a. ?s1 a XOR drop_bit 7 (?s1 a)"
  have "?s2 a = ?s2 b" using eq unfolding xorshift_def Let_def by (rule push) simp
  then have "?s1 a = ?s1 b" by (rule drop) simp
  then show "a = b" by (rule push) simp
qed

lemma xorshift_nonzero: "s \<noteq> 0 \<Longrightarrow> xorshift s \<noteq> 0"
proof -
  have "xorshift 0 = 0" by (simp add: xorshift_def)
  then show "s \<noteq> 0 \<Longrightarrow> xorshift s \<noteq> 0" using injD [OF inj_xorshift, of s 0] by auto
qed

lemma next_rand_state: "ns_rng_state (snd (next_rand node)) = xorshift (ns_rng_state node)"
  by (simp add: next_rand_def Let_def)

text \<open>
  The noise generator never gets stuck: from any seed, zero included, the state is not zero after any number
  of draws, and the sequence of states returns to where it started, since no two states have the same
  successor.\<close>

theorem noise_never_stuck:
  "ns_rng_state (((\<lambda>node. snd (next_rand node)) ^^ n) (NoiseSource_new color amp seed channels)) \<noteq> 0 \<and>
   (\<exists>k > 0. ns_rng_state (((\<lambda>node. snd (next_rand node)) ^^ k) (NoiseSource_new color amp seed channels)) =
      ns_rng_state (NoiseSource_new color amp seed channels))"
proof -
  let ?node = "NoiseSource_new color amp seed channels" and ?next = "\<lambda>node. snd (next_rand node)"
  have state: "ns_rng_state ((?next ^^ n) ?node) = (xorshift ^^ n) (ns_rng_state ?node)" for n
    by (induction n) (simp_all add: next_rand_state)
  have "ns_rng_state ?node \<noteq> 0" by (simp add: NoiseSource_new_def)
  then have "(xorshift ^^ n) (ns_rng_state ?node) \<noteq> 0" by (induction n) (simp_all add: xorshift_nonzero)
  moreover have "\<exists>k > 0. (xorshift ^^ k) (ns_rng_state ?node) = ns_rng_state ?node"
  proof -
    have "finite (UNIV :: u64 set)" by simp
    then have "\<not> inj (\<lambda>n. (xorshift ^^ n) (ns_rng_state ?node))"
      using finite_imageD [of "\<lambda>n. (xorshift ^^ n) (ns_rng_state ?node)" UNIV] finite_subset [OF subset_UNIV] infinite_UNIV_nat by blast
    then obtain a b where ab: "(xorshift ^^ a) (ns_rng_state ?node) = (xorshift ^^ b) (ns_rng_state ?node)" "a \<noteq> b"
      unfolding inj_def by blast
    define i j where "i = min a b" and "j = max a b"
    have ij: "i < j" "(xorshift ^^ i) (ns_rng_state ?node) = (xorshift ^^ j) (ns_rng_state ?node)"
      using ab by (auto simp: i_def j_def min_def max_def)
    have "(xorshift ^^ j) (ns_rng_state ?node) = (xorshift ^^ i) ((xorshift ^^ (j - i)) (ns_rng_state ?node))"
      using funpow_add [of i "j - i" xorshift] ij(1) by simp
    then have "ns_rng_state ?node = (xorshift ^^ (j - i)) (ns_rng_state ?node)"
      using injD [OF inj_fn [OF inj_xorshift], of i] ij(2) by simp
    then show ?thesis using ij(1) by (intro exI [of _ "j - i"]) simp
  qed
  ultimately show ?thesis by (simp add: state)
qed

section \<open>Filling a frame\<close>

lemma planar_pairs_Suc: "planar_pairs (Suc ch) p = planar_pairs ch p @ map (Pair ch) [0..<p]"
  by (simp add: planar_pairs_def)

lemma fill_planar_safe:
  assumes "\<And>c i s. c < ch \<Longrightarrow> keep s \<Longrightarrow> \<exists>y s'. step c i s = Some (y, s') \<and> keep s'" "keep s" "ch * p \<le> length ys"
  shows "\<exists>s' ys'. fill_planar step ch p (s, ys) = Some (s', ys') \<and> keep s' \<and> length ys' = length ys"
proof -
  have "\<exists>r. fill_planar step ch p (s, ys) = Some r \<and> (case r of (s', ys') \<Rightarrow> keep s' \<and> length ys' = length ys)"
    unfolding fill_planar_def
  proof (rule for_in_invariant)
    fix ci and q :: "'a \<times> f32 list"
    assume ci: "ci \<in> set (planar_pairs ch p)" and q: "case q of (s', ys') \<Rightarrow> keep s' \<and> length ys' = length ys"
    obtain c i where ci': "ci = (c, i)" "c < ch" "i < p" using ci by (auto simp: planar_pairs_def)
    obtain t zs where q': "q = (t, zs)" "keep t" "length zs = length ys" using q by auto
    have "c * p + i < length zs" using slot_in_frame [OF ci'(2,3)] assms(3) q'(3) by linarith
    moreover obtain y t' where "step c i t = Some (y, t')" "keep t'" using assms(1) [OF ci'(2) q'(2)] by blast
    ultimately show "\<exists>s'. (case ci of (c, i) \<Rightarrow> \<lambda>(s, ys). do { (y, s) \<leftarrow> step c i s; ys \<leftarrow> set_opt ys (c * p + i) y; Some (s, ys) }) q =
        Some s' \<and> (case s' of (s', ys') \<Rightarrow> keep s' \<and> length ys' = length ys)"
      using q'(3) by (simp add: ci' q'(1))
  qed (use assms(2) in simp)
  then show ?thesis by auto
qed

lemma fill_channel:
  assumes "\<And>i. i < p \<Longrightarrow> step c i s = Some (v i, s)" "off + p \<le> length ys" "off = c * p" "k \<le> p"
  shows "for_in (\<lambda>(c, i) (s, ys). do { (y, s) \<leftarrow> step c i s; ys \<leftarrow> set_opt ys (c * p + i) y; Some (s, ys) })
      (map (Pair c) [0..<k]) (s, ys) = Some (s, take off ys @ map v [0..<k] @ drop (off + k) ys)"
  using assms(4)
proof (induction k)
  case (Suc k)
  have "drop (off + k) ys = ys ! (off + k) # drop (off + Suc k) ys"
    using Suc.prems assms(2) by (simp add: Cons_nth_drop_Suc)
  then show ?case
    using Suc assms by (simp add: for_in_append list_update_append)
qed simp

lemma fill_planar_const:
  assumes "\<And>c i. c < ch \<Longrightarrow> i < p \<Longrightarrow> step c i s = Some (v c i, s)" "ch * p \<le> length ys"
  shows "fill_planar step ch p (s, ys) =
    Some (s, concat (map (\<lambda>c. map (v c) [0..<p]) [0..<ch]) @ drop (ch * p) ys)"
  using assms
proof (induction ch)
  case (Suc ch)
  have IH: "fill_planar step ch p (s, ys) = Some (s, concat (map (\<lambda>c. map (v c) [0..<p]) [0..<ch]) @ drop (ch * p) ys)"
    using Suc by simp
  let ?ys = "concat (map (\<lambda>c. map (v c) [0..<p]) [0..<ch]) @ drop (ch * p) ys"
  have len: "length (concat (map (\<lambda>c. map (v c) [0..<p]) [0..<ch])) = ch * p"
    using length_concat_const [of "[0..<ch]" "\<lambda>c. map (v c) [0..<p]" p] by simp
  have "for_in (\<lambda>(c, i) (s, ys). do { (y, s) \<leftarrow> step c i s; ys \<leftarrow> set_opt ys (c * p + i) y; Some (s, ys) })
      (map (Pair ch) [0..<p]) (s, ?ys) = Some (s, take (ch * p) ?ys @ map (v ch) [0..<p] @ drop (ch * p + p) ?ys)"
    by (rule fill_channel) (use Suc.prems len in simp_all)
  then show ?case
    using IH len by (simp add: fill_planar_def planar_pairs_Suc for_in_append add.commute)
qed (simp add: fill_planar_def planar_pairs_def)

definition noise_ok :: "NoiseSource \<Rightarrow> bool" where
  "noise_ok node \<longleftrightarrow> length (ns_pink node) = 7 * unat (ns_channels node)"

definition tone_ok :: "ToneGenerator \<Rightarrow> bool" where
  "tone_ok node \<longleftrightarrow> length (tg_phase node) = unat (tg_channels node)"

lemma gen_sample_ok:
  assumes "c < unat k" "noise_ok node \<and> ns_channels node = k"
  shows "\<exists>y node'. gen_sample c node = Some (y, node') \<and> noise_ok node' \<and> ns_channels node' = k"
proof -
  have "c * 7 + 6 < 7 * unat k" using assms(1) by linarith
  then show ?thesis
    using assms(2) by (auto simp: gen_sample_def next_rand_def pink_filter_def noise_ok_def Let_def split: NoiseColor.splits)
qed

lemma NoiseSource_safe:
  assumes "noise_ok node"
  shows "\<exists>node' outs'. NoiseSource_process node ins outs = Some (node', outs') \<and> noise_ok node' \<and>
    ns_channels node' = ns_channels node \<and> frame_sizes outs' = frame_sizes outs"
proof (cases outs)
  case Nil
  then show ?thesis using assms by (simp add: NoiseSource_process_def)
next
  case (Cons out rest)
  let ?ch = "unat (ns_channels node)" and ?n = "length (samples out)"
  obtain node' ys where "fill_planar (\<lambda>c i. gen_sample c) ?ch (?n div ?ch) (node, samples out) = Some (node', ys)"
      "noise_ok node' \<and> ns_channels node' = ns_channels node" "length ys = ?n"
    using fill_planar_safe [of ?ch "\<lambda>n. noise_ok n \<and> ns_channels n = ns_channels node" "\<lambda>c i. gen_sample c" node "?n div ?ch" "samples out"]
      gen_sample_ok assms times_div_less_eq_dividend [of ?ch ?n] by blast
  then show ?thesis using assms Cons by (auto simp: NoiseSource_process_def Let_def)
qed

lemma ToneGenerator_safe:
  assumes "tone_ok node"
  shows "\<exists>node' outs'. ToneGenerator_process lm node ins outs = Some (node', outs') \<and> tone_ok node' \<and>
    tg_channels node' = tg_channels node \<and> frame_sizes outs' = frame_sizes outs"
proof (cases outs)
  case Nil
  then show ?thesis using assms by (simp add: ToneGenerator_process_def)
next
  case (Cons out rest)
  let ?ch = "unat (tg_channels node)" and ?n = "length (samples out)"
  have "\<exists>y t'. tone_step lm c i t = Some (y, t') \<and> tone_ok t' \<and> tg_channels t' = tg_channels node"
    if "c < ?ch" "tone_ok t \<and> tg_channels t = tg_channels node" for c i t
    using that by (auto simp: tone_step_def tone_ok_def Let_def)
  then obtain node' ys where "fill_planar (tone_step lm) ?ch (?n div ?ch) (node, samples out) = Some (node', ys)"
      "tone_ok node' \<and> tg_channels node' = tg_channels node" "length ys = ?n"
    using fill_planar_safe [of ?ch "\<lambda>n. tone_ok n \<and> tg_channels n = tg_channels node" "tone_step lm" node "?n div ?ch" "samples out"]
      assms times_div_less_eq_dividend [of ?ch ?n] by blast
  then show ?thesis using assms Cons by (auto simp: ToneGenerator_process_def Let_def)
qed

section \<open>Playback\<close>

text \<open>What channel \<open>c\<close> of the buffer is at frame \<open>n\<close> of the playback.\<close>

definition file_at :: "FileSource \<Rightarrow> nat \<Rightarrow> nat \<Rightarrow> f32" where
  "file_at node c n =
     (let stride = total_frames node
      in if fs_looping node then fs_samples node ! (c * stride + n mod stride)
         else if n < stride then fs_samples node ! (c * stride + n) else f_0)"

text \<open>The source after \<open>n\<close> frames.\<close>

definition played :: "FileSource \<Rightarrow> nat \<Rightarrow> FileSource \<Rightarrow> bool" where
  "played start n node \<longleftrightarrow>
     into_parts node = into_parts start \<and>
     (if fs_looping start then fs_read_pos node = n mod total_frames start \<and> \<not> fs_ended node
      else if fs_ended node then total_frames start \<le> n else fs_read_pos node = n \<and> n < total_frames start)"

definition file_ok :: "FileSource \<Rightarrow> bool" where
  "file_ok node \<longleftrightarrow> fs_channels node \<noteq> 0 \<and> 0 < total_frames node"

lemma total_frames_channels: "fs_channels node \<noteq> 0 \<Longrightarrow> total_frames node = length (fs_samples node) div unat (fs_channels node)"
proof -
  assume "fs_channels node \<noteq> 0"
  then have "1 \<le> fs_channels node" by (simp add: not_less [symmetric] word_less_nat_alt unat_gt_0 word_le_nat_alt Suc_le_eq)
  then show ?thesis by (simp add: total_frames_def max_def)
qed

lemma file_cycle:
  assumes "file_ok start" "played start n node" "length (samples out) = unat (fs_channels start) * p"
  shows "\<exists>node' out'. FileSource_process node ins [out] = Some (node', [out']) \<and> played start (n + p) node' \<and>
    af_channels out' = fs_channels start \<and> af_sample_rate out' = fs_sample_rate start \<and>
    samples out' = concat (map (\<lambda>c. map (\<lambda>i. file_at start c (n + i)) [0..<p]) [0..<unat (fs_channels start)])"
proof -
  let ?ch = "unat (fs_channels start)" and ?stride = "total_frames start"
  have ch: "fs_channels start \<noteq> 0" "0 < ?ch" and stride: "0 < ?stride"
    using assms(1) by (auto simp: file_ok_def unat_gt_0)
  have parts: "fs_channels node = fs_channels start" "fs_samples node = fs_samples start"
      "fs_sample_rate node = fs_sample_rate start" "fs_looping node = fs_looping start"
    using assms(2) by (auto simp: played_def into_parts_def)
  have st: "length (fs_samples start) div ?ch = ?stride" by (simp add: total_frames_channels ch(1))
  have ne: "fs_samples start \<noteq> []" using stride by (auto simp: total_frames_def)
  let ?base = "out\<lparr>af_channels := fs_channels start, af_sample_rate := fs_sample_rate start\<rparr>"
  consider "fs_ended node" | "\<not> fs_ended node" "p = 0" | "\<not> fs_ended node" "0 < p" by blast
  then show ?thesis
  proof cases
    case 1
    then have "\<not> fs_looping start" "?stride \<le> n" using assms(2) by (auto simp: played_def split: if_splits)
    moreover have "concat (map (\<lambda>c. map (\<lambda>i. f_0) [0..<p]) [0..<k]) = replicate (k * p) f_0" for k
      by (induction k) (simp_all add: map_replicate_const replicate_add [symmetric] add.commute)
    ultimately show ?thesis
      using 1 assms(2,3) parts by (auto simp: FileSource_process_def file_at_def played_def Let_def)
  next
    case 2
    then show ?thesis using assms(2,3) parts by (simp add: FileSource_process_def Let_def)
  next
    case 3
    have val: "file_step ?stride c i node = Some (file_at start c (n + i), node)" if "c < ?ch" for c i
    proof -
      have "c * ?stride + j < length (fs_samples start)" if "j < ?stride" for j
        using slot_in_frame [OF \<open>c < ?ch\<close> that] times_div_less_eq_dividend [of ?ch "length (fs_samples start)"] unfolding st by linarith
      moreover have "(n mod ?stride + i) mod ?stride = (n + i) mod ?stride" by (rule mod_add_left_eq)
      moreover have "n mod ?stride + i < ?stride \<Longrightarrow> n mod ?stride + i = (n + i) mod ?stride" using mod_add_left_eq [of n ?stride i] by simp
      ultimately show ?thesis
        using assms(2) 3(1) stride parts by (auto simp: file_step_def file_at_def played_def Let_def split: if_splits)
    qed
    have "fill_planar (file_step ?stride) ?ch p (node, samples out) =
        Some (node, concat (map (\<lambda>c. map (\<lambda>i. file_at start c (n + i)) [0..<p]) [0..<?ch]) @ drop (?ch * p) (samples out))"
      using val assms(3) by (intro fill_planar_const) simp_all
    then have "FileSource_process node ins [out] = Some (file_advance ?stride p node,
        [?base\<lparr>samples := concat (map (\<lambda>c. map (\<lambda>i. file_at start c (n + i)) [0..<p]) [0..<?ch])\<rparr>])"
      using 3 ch stride ne assms(3) by (simp add: FileSource_process_def parts st Let_def)
    moreover have "played start (n + p) (file_advance ?stride p node)"
      using assms(2) 3(1) parts stride by (auto simp: played_def file_advance_def into_parts_def Let_def mod_add_left_eq)
    ultimately show ?thesis by simp
  qed
qed

lemma map_shift: "map (\<lambda>i. f (n + i)) [0..<p] = map f [n..<n + p]"
  by (rule nth_equalityI) simp_all

text \<open>
  C24: A file source plays its file. Over any cycles, from the first on, whatever the buffers held, every channel
  of the output together is the channel of the file from its start, repeated without a seam when the source
  loops, and followed by silence when it does not; each frame carries the file's channel count and rate.\<close>

theorem file_source_plays:
  assumes "node = FileSource_new smps channels sample_rate looping" "file_ok node"
    "\<forall>io \<in> set ios. unat channels dvd length (samples (snd io))"
  shows "\<exists>ys node'. run_cycles FileSource_process ios node = Some (ys, node') \<and>
    (\<forall>y \<in> set ys. af_channels y = channels \<and> af_sample_rate y = sample_rate) \<and>
    (\<forall>c < unat channels. concat (map (frame_channel c) ys) =
       map (file_at node c) [0..<sum_list (map (\<lambda>io. length (samples (snd io)) div unat channels) ios)])"
proof -
  have parts: "fs_channels node = channels" "fs_sample_rate node = sample_rate" using assms(1) by (simp_all add: FileSource_new_def)
  have "\<exists>ys node'. run_cycles FileSource_process ios t = Some (ys, node') \<and>
    (\<forall>y \<in> set ys. af_channels y = channels \<and> af_sample_rate y = sample_rate) \<and>
    (\<forall>c < unat channels. concat (map (frame_channel c) ys) =
       map (file_at node c) [n..<n + sum_list (map (\<lambda>io. length (samples (snd io)) div unat channels) ios)])"
    if "played node n t" for n t
    using assms(3) that
  proof (induction ios arbitrary: n t)
    case (Cons io ios)
    let ?p = "length (samples (snd io)) div unat channels"
    have "length (samples (snd io)) = unat (fs_channels node) * ?p" using Cons.prems(1) parts by simp
    from file_cycle [OF assms(2) Cons.prems(2) this]
    obtain t1 out where t1: "FileSource_process t [fst io] [snd io] = Some (t1, [out])" "played node (n + ?p) t1"
        "af_channels out = channels" "af_sample_rate out = sample_rate"
        "samples out = concat (map (\<lambda>c. map (\<lambda>i. file_at node c (n + i)) [0..<?p]) [0..<unat channels])"
      unfolding parts by blast
    obtain ys t2 where t2: "run_cycles FileSource_process ios t1 = Some (ys, t2)"
        "\<forall>y \<in> set ys. af_channels y = channels \<and> af_sample_rate y = sample_rate"
        "\<forall>c < unat channels. concat (map (frame_channel c) ys) = map (file_at node c)
          [n + ?p..<n + ?p + sum_list (map (\<lambda>io. length (samples (snd io)) div unat channels) ios)]"
      using Cons.IH [OF _ t1(2)] Cons.prems(1) by auto
    have "length (samples out) = unat channels * ?p"
      unfolding t1(5) using length_concat_const [of "[0..<unat channels]" "\<lambda>c. map (\<lambda>i. file_at node c (n + i)) [0..<?p]" ?p]
      by simp
    then have "frame_channel c out = map (file_at node c) [n..<n + ?p]" if "c < unat channels" for c
      using segment_concat [of "unat channels" "\<lambda>c. map (\<lambda>i. file_at node c (n + i)) [0..<?p]" ?p c "[]"] that t1(3,5)
      by (simp add: frame_channel_def map_shift)
    then have "\<forall>c < unat channels. concat (map (frame_channel c) (out # ys)) = map (file_at node c)
        [n..<n + sum_list (map (\<lambda>io. length (samples (snd io)) div unat channels) (io # ios))]"
      using t2(3) upt_add_eq_append [of n "n + ?p" "sum_list (map (\<lambda>io. length (samples (snd io)) div unat channels) ios)"]
      by (simp add: add.assoc)
    then show ?case using t1(1,3,4) t2(1,2) by auto
  qed simp
  moreover have "played node 0 node"
    using assms(1,2) by (auto simp: played_def file_ok_def FileSource_new_def total_frames_def)
  ultimately show ?thesis by fastforce
qed

theorem file_source_plays_witness:
  "\<exists>ys node'. run_cycles FileSource_process
      [(\<lparr>af_channels = 1, af_sample_rate = 0, samples = []\<rparr>, \<lparr>af_channels = 1, af_sample_rate = 0, samples = [f_0, f_0]\<rparr>),
       (\<lparr>af_channels = 1, af_sample_rate = 0, samples = []\<rparr>, \<lparr>af_channels = 1, af_sample_rate = 0, samples = [f_0, f_0]\<rparr>)]
      (FileSource_new [f_1, f_2, f_0] 1 48000 True) = Some (ys, node') \<and>
    concat (map (frame_channel 0) ys) = [f_1, f_2, f_0, f_1]"
proof -
  let ?ios = "[(\<lparr>af_channels = 1, af_sample_rate = 0, samples = []\<rparr>, \<lparr>af_channels = 1, af_sample_rate = 0, samples = [f_0, f_0]\<rparr>),
       (\<lparr>af_channels = 1, af_sample_rate = 0, samples = []\<rparr>, \<lparr>af_channels = 1, af_sample_rate = 0, samples = [f_0, f_0]\<rparr>)]"
  let ?node = "FileSource_new [f_1, f_2, f_0] 1 48000 True"
  have ok: "file_ok ?node" by (simp add: file_ok_def FileSource_new_def total_frames_def)
  have dvd: "\<forall>io \<in> set ?ios. unat (1 :: u16) dvd length (samples (snd io))" by simp
  have four: "[0..<4] = [0, 1, 2, 3 :: nat]" by (simp add: numeral_eq_Suc)
  have plays: "map (file_at ?node 0) [0..<4] = [f_1, f_2, f_0, f_1]"
    unfolding four by (simp add: file_at_def FileSource_new_def total_frames_def Let_def numeral_3_eq_3 [symmetric])
  have len: "sum_list (map (\<lambda>io. length (samples (snd io)) div unat (1 :: u16)) ?ios) = 4" by simp
  obtain ys node' where run: "run_cycles FileSource_process ?ios ?node = Some (ys, node')"
      and ch: "\<forall>c < unat (1 :: u16). concat (map (frame_channel c) ys) = map (file_at ?node c) [0..<4]"
    using file_source_plays [OF refl ok dvd, unfolded len] by blast
  have "concat (map (frame_channel 0) ys) = [f_1, f_2, f_0, f_1]" unfolding plays [symmetric] using ch by (simp del: upt_Suc)
  with run show ?thesis by blast
qed

section \<open>Loading\<close>

text \<open>A decoder that yields these frames and then the end of the stream.\<close>

primrec decodes :: "('d \<Rightarrow> 'e + AudioFrame option \<times> 'd) \<Rightarrow> AudioFrame list \<Rightarrow> 'd \<Rightarrow> bool" where
  "decodes next [] d \<longleftrightarrow> (\<exists>d'. next d = Inr (None, d'))"
| "decodes next (f # fs) d \<longleftrightarrow> (\<exists>d'. next d = Inr (Some f, d') \<and> decodes next fs d')"

lemma decode_all_frames: "decodes next fs d \<Longrightarrow> decode_all next d acc = Some (Inr (acc @ concat (map samples fs)))"
  by (induction fs arbitrary: d acc) (auto simp: decode_all.simps)

text \<open>
  Loading a file ends: a decoder that opens and yields finitely many frames is drained, the source holds the
  concatenation of their sample blocks with the stream's channel count and rate, at its start, and a stream of
  no samples is refused with the documented error.\<close>

theorem load_file_source_drains:
  assumes "c_open cdc path = Inr d0" "c_info cdc path d0 = Inr (info, d)" "decodes (c_next_frame cdc) fs d"
  shows "load_file_source cdc path looping =
    Some (if concat (map samples fs) = [] then Inl (c_Decode cdc ''empty stream: zero frames decoded'')
          else Inr (FileSource_new (concat (map samples fs)) (ai_channels info) (ai_sample_rate info) looping))"
  using assms decode_all_frames [OF assms(3), of "[]"] by (simp add: load_file_source_def)

text \<open>A decoder whose state is the list of the frames to come.\<close>

definition list_codec :: "AudioInfo \<Rightarrow> AudioFrame list \<Rightarrow> (AudioFrame list, string) codec" where
  "list_codec info fs =
     \<lparr>c_open = (\<lambda>_. Inr fs), c_info = (\<lambda>_ d. Inr (info, d)),
      c_next_frame = (\<lambda>d. case d of [] \<Rightarrow> Inr (None, []) | f # d \<Rightarrow> Inr (Some f, d)), c_Decode = id\<rparr>"

lemma list_codec_decodes: "decodes (c_next_frame (list_codec info gs)) fs fs"
  by (induction fs) (simp_all add: list_codec_def)

theorem load_file_source_drains_witness:
  "load_file_source (list_codec \<lparr>ai_channels = 1, ai_sample_rate = 48000\<rparr>
      [\<lparr>af_channels = 1, af_sample_rate = 48000, samples = [f_1]\<rparr>, \<lparr>af_channels = 1, af_sample_rate = 48000, samples = [f_2]\<rparr>])
    ''a.wav'' True = Some (Inr (FileSource_new [f_1, f_2] 1 48000 True))"
proof -
  let ?info = "\<lparr>ai_channels = 1, ai_sample_rate = 48000\<rparr>"
  let ?fs = "[\<lparr>af_channels = 1, af_sample_rate = 48000, samples = [f_1]\<rparr>, \<lparr>af_channels = 1, af_sample_rate = 48000, samples = [f_2]\<rparr>]"
  show ?thesis
    using load_file_source_drains [of "list_codec ?info ?fs" "''a.wav''" ?fs ?info ?fs ?fs True] list_codec_decodes [of ?info ?fs ?fs]
    by (simp add: list_codec_def)
qed

text \<open>
  C38: The loader appends the planar blocks of the decoded frames one after the other, which is not the planar
  layout of the whole file: a stereo file that decodes into two frames of equal length plays the left and then
  the right channel of the first frame on the left, and those of the second frame on the right.\<close>

theorem load_file_source_scrambles:
  assumes "c_open cdc path = Inr d0" "c_info cdc path d0 = Inr (info, d)" "decodes (c_next_frame cdc) [f, g] d"
    "ai_channels info = 2" "af_channels f = 2" "af_channels g = 2" "length (samples f) = 2 * p" "length (samples g) = 2 * p" "0 < p"
  shows "\<exists>node. load_file_source cdc path looping = Some (Inr node) \<and>
    map (file_at node 0) [0..<2 * p] = frame_channel 0 f @ frame_channel 1 f \<and>
    map (file_at node 1) [0..<2 * p] = frame_channel 0 g @ frame_channel 1 g"
proof -
  let ?node = "FileSource_new (samples f @ samples g) 2 (ai_sample_rate info) looping"
  have "samples f @ samples g \<noteq> []" using assms(7,9) by auto
  then have load: "load_file_source cdc path looping = Some (Inr ?node)"
    using decode_all_frames [OF assms(3), of "[]"] assms(1,2,4) by (simp add: load_file_source_def)
  have stride: "total_frames ?node = 2 * p" using assms(7,8) by (simp add: total_frames_channels FileSource_new_def)
  have at: "file_at ?node c n = (samples f @ samples g) ! (c * (2 * p) + n)" if "n < 2 * p" for c n
    using that unfolding file_at_def stride Let_def by (simp add: FileSource_new_def)
  have halves: "frame_channel 0 h @ frame_channel 1 h = samples h" if "af_channels h = 2" "length (samples h) = 2 * p" for h
    using that by (simp add: frame_channel_def segment_def)
  have "map (file_at ?node 0) [0..<2 * p] = samples f"
    using at [of _ 0] assms(7) by (intro nth_equalityI) (simp_all add: nth_append)
  moreover have "map (file_at ?node 1) [0..<2 * p] = samples g"
    using at [of _ 1] assms(7,8) by (intro nth_equalityI) (simp_all add: nth_append)
  ultimately show ?thesis using load halves [OF assms(5,7)] halves [OF assms(6,8)] by (intro exI [of _ ?node]) simp
qed

theorem load_file_source_scrambles_witness:
  "\<exists>node. load_file_source (list_codec \<lparr>ai_channels = 2, ai_sample_rate = 48000\<rparr>
      [\<lparr>af_channels = 2, af_sample_rate = 48000, samples = [f_1, f_2]\<rparr>, \<lparr>af_channels = 2, af_sample_rate = 48000, samples = [f_1, f_2]\<rparr>])
      ''a.wav'' True = Some (Inr node) \<and> map (file_at node 0) [0..<2] = [f_1, f_2]"
proof -
  let ?info = "\<lparr>ai_channels = 2, ai_sample_rate = 48000\<rparr>" and ?f = "\<lparr>af_channels = 2, af_sample_rate = 48000, samples = [f_1, f_2]\<rparr>"
  have "frame_channel 0 ?f @ frame_channel 1 ?f = [f_1, f_2]" by (simp add: frame_channel_def segment_def)
  then show ?thesis
    using load_file_source_scrambles [of "list_codec ?info [?f, ?f]" "''a.wav''" "[?f, ?f]" ?info "[?f, ?f]" ?f ?f 1 True]
      list_codec_decodes [of ?info "[?f, ?f]" "[?f, ?f]"]
    by (auto simp: list_codec_def)
qed

end
