(* ===== verification/Node_Factory.thy ===== *)
theory Node_Factory
  imports Dsp_Sources
begin

text \<open>
  The factory that renders an audio node from its kind and typed parameters, and the parsers of the textual
  parameters (\<open>sonicbrew/src/main.rs\<close>: \<open>render_node\<close>, \<open>parse_*\<close>). A rendered node is one of the nodes of the
  library; \<open>Node_process\<close> is the dispatch of the trait object.
\<close>

section \<open>Parameters as text\<close>

text \<open>\<open>str::to_ascii_lowercase\<close>.\<close>

definition ascii_lower :: "string \<Rightarrow> string" where
  "ascii_lower = map (\<lambda>c. let n = of_char c :: nat in if 65 \<le> n \<and> n \<le> 90 then char_of (n + 32) else c)"

definition parse_filter_type :: "string \<Rightarrow> FilterType" where
  "parse_filter_type s =
     (let s = ascii_lower s
      in if s = ''lowpass'' then LowPass else if s = ''highpass'' then HighPass
         else if s = ''bandpass'' then BandPass else if s = ''peaking'' then Peaking
         else if s = ''lowshelf'' then LowShelf else if s = ''highshelf'' then HighShelf else Peaking)"

definition parse_channel_mode :: "string \<Rightarrow> f32 option \<Rightarrow> ChannelMode" where
  "parse_channel_mode s pan =
     (let s = ascii_lower s
      in if s = ''passthrough'' then Passthrough else if s = ''swap'' then Swap
         else if s = ''mute_left'' then MuteLeft else if s = ''mute_right'' then MuteRight
         else if s = ''pan'' then Pan (case pan of None \<Rightarrow> f_0 | Some p \<Rightarrow> p)
         else if s = ''mono_to_stereo'' then MonoToStereo else if s = ''stereo_to_mono'' then StereoToMono
         else Passthrough)"

definition parse_noise_color :: "string \<Rightarrow> NoiseColor" where
  "parse_noise_color s = (if ascii_lower s = ''pink'' then Pink else White)"

definition parse_waveform :: "string \<Rightarrow> Waveform" where
  "parse_waveform s =
     (let s = ascii_lower s
      in if s = ''square'' then Square else if s = ''saw'' then Saw else if s = ''triangle'' then Triangle else Sine)"

definition parse_distortion_mode :: "string \<Rightarrow> DistortionMode" where
  "parse_distortion_mode s =
     (let s = ascii_lower s
      in if s = ''hard_clip'' \<or> s = ''hardclip'' then HardClip else if s = ''foldback'' then Foldback
         else if s = ''overdrive'' then Overdrive else SoftClip)"

section \<open>Rendering\<close>

datatype AnyNode =
    PGain f32
  | PEq EqNode
  | PCompressor CompressorNode
  | PLimiter f32
  | PMeter MeterNode
  | PMixer "f32 list"
  | PChannelMap ChannelMode
  | PDelay DelayNode
  | PNoiseGate NoiseGateNode
  | PNoise NoiseSource
  | PTone ToneGenerator
  | PReverb ReverbNode
  | PChorus ChorusNode
  | PDistortion DistortionNode
  | PFlanger FlangerNode
  | PAuxSend f32
  | PPhaser PhaserNode
  | PBitcrusher BitcrusherNode
  | PTremolo TremoloNode
  | PStereoWidener f32

definition ms_to_samples :: "f32 \<Rightarrow> u32 \<Rightarrow> nat" where
  "ms_to_samples ms sample_rate = f_to_usize (f_mul (f_mul ms (f32_lit 1 1000)) (f_of_nat (unat sample_rate)))"

text \<open>The arms of the match with the parameters of the kind's own variant.\<close>

definition render_params :: "libm \<Rightarrow> NodeParams \<Rightarrow> u32 \<Rightarrow> u16 \<Rightarrow> AnyNode option" where
  "render_params lm params sr ch =
     (case params of
        Gain gain \<Rightarrow> Some (PGain gain)
      | Eq filter_type freq gain_db q \<Rightarrow> Some (PEq (EqNode_new lm (parse_filter_type filter_type) freq gain_db q sr ch))
      | Compressor threshold_db ratio attack_ms release_ms makeup_db \<Rightarrow>
          Some (PCompressor (CompressorNode_new lm threshold_db ratio attack_ms release_ms makeup_db sr ch))
      | Limiter threshold_db \<Rightarrow> Some (PLimiter (LimiterNode_new lm threshold_db))
      | Meter \<Rightarrow> Some (PMeter MeterNode_new)
      | Mixer inputs gains \<Rightarrow> Some (PMixer (MixerNode_new (unat inputs) gains))
      | ChannelMap mode pan \<Rightarrow> Some (PChannelMap (parse_channel_mode mode pan))
      | Delay max_delay_ms delay_ms feedback mix \<Rightarrow>
          Some (PDelay (DelayNode_new (ms_to_samples max_delay_ms sr) (ms_to_samples delay_ms sr) feedback mix ch))
      | NoiseGate threshold_db attack_ms hold_ms release_ms \<Rightarrow>
          Some (PNoiseGate (NoiseGateNode_new lm threshold_db attack_ms hold_ms release_ms sr ch))
      | Noise color amp seed \<Rightarrow> Some (PNoise (NoiseSource_new (parse_noise_color color) amp seed ch))
      | Tone waveform freq amp \<Rightarrow> Some (PTone (ToneGenerator_new (parse_waveform waveform) freq amp sr ch))
      | Reverb room_size damping wet dry \<Rightarrow> Some (PReverb (ReverbNode_new room_size damping wet dry sr ch))
      | Chorus rate_hz depth_ms center_delay_ms mix \<Rightarrow>
          Some (PChorus (ChorusNode_new rate_hz depth_ms center_delay_ms mix sr ch))
      | Distortion mode drive threshold output_level \<Rightarrow>
          Some (PDistortion (DistortionNode_new (parse_distortion_mode mode) drive threshold output_level))
      | Flanger rate_hz depth_ms center_delay_ms feedback mix \<Rightarrow>
          Some (PFlanger (FlangerNode_new rate_hz depth_ms center_delay_ms feedback mix sr ch))
      | AuxSend send_level \<Rightarrow> Some (PAuxSend (AuxSendNode_new send_level))
      | Phaser rate_hz base_freq depth feedback mix stages \<Rightarrow>
          map_option PPhaser (PhaserNode_new rate_hz base_freq depth feedback mix (unat stages) sr ch)
      | Bitcrusher bits hold_factor \<Rightarrow> Some (PBitcrusher (BitcrusherNode_new (unat bits) (unat hold_factor) ch))
      | Tremolo rate_hz depth \<Rightarrow> Some (PTremolo (TremoloNode_new rate_hz depth sr))
      | StereoWidener width \<Rightarrow> Some (PStereoWidener (StereoWidenerNode_new width)))"

text \<open>The arms with a kind and no parameters of its variant; any other kind passes the signal through.\<close>

definition render_default :: "libm \<Rightarrow> string \<Rightarrow> u32 \<Rightarrow> u16 \<Rightarrow> AnyNode option" where
  "render_default lm kind sr ch =
     (let rate = f_of_nat (unat sr)
      in if kind = ''gain'' then Some (PGain (f32_lit 5 10))
         else if kind = ''eq'' then Some (PEq (EqNode_new lm Peaking (f_of_int 1000) f_0 (f32_lit 707 1000) sr ch))
         else if kind = ''compressor'' then
           Some (PCompressor (CompressorNode_new lm (f_of_int (- 12)) (f_of_int 4) f_1 (f_of_int 50) f_0 sr ch))
         else if kind = ''limiter'' then Some (PLimiter (LimiterNode_new lm (f_of_int (- 1))))
         else if kind = ''meter'' then Some (PMeter MeterNode_new)
         else if kind = ''mixer'' then Some (PMixer (MixerNode_new 2 [f32_lit 5 10, f32_lit 5 10]))
         else if kind = ''channel_map'' then Some (PChannelMap Passthrough)
         else if kind = ''delay'' then
           Some (PDelay (DelayNode_new (f_to_usize (f_mul (f32_lit 5 10) rate)) (f_to_usize (f_mul (f32_lit 25 100) rate))
             (f32_lit 3 10) (f32_lit 3 10) ch))
         else if kind = ''noise_gate'' then
           Some (PNoiseGate (NoiseGateNode_new lm (f_of_int (- 50)) f_1 (f_of_int 50) (f_of_int 100) sr ch))
         else if kind = ''noise'' then Some (PNoise (NoiseSource_new White (f32_lit 5 10) 12345 ch))
         else if kind = ''tone'' then Some (PTone (ToneGenerator_new Sine (f_of_int 440) (f32_lit 5 10) sr ch))
         else if kind = ''reverb'' then
           Some (PReverb (ReverbNode_new (f32_lit 5 10) (f32_lit 5 10) (f32_lit 3 10) (f32_lit 7 10) sr ch))
         else if kind = ''chorus'' then
           Some (PChorus (ChorusNode_new (f32_lit 15 10) (f_of_int 3) (f_of_int 20) (f32_lit 5 10) sr ch))
         else if kind = ''distortion'' then
           Some (PDistortion (DistortionNode_new SoftClip (f_of_int 3) (f32_lit 7 10) f_1))
         else if kind = ''flanger'' then
           Some (PFlanger (FlangerNode_new (f32_lit 5 10) f_2 (f_of_int 3) (f32_lit 5 10) (f32_lit 5 10) sr ch))
         else if kind = ''aux_send'' then Some (PAuxSend (AuxSendNode_new (f32_lit 5 10)))
         else if kind = ''phaser'' then
           map_option PPhaser (PhaserNode_new (f32_lit 5 10) (f_of_int 800) (f32_lit 5 10) (f32_lit 3 10) (f32_lit 5 10) 4 sr ch)
         else if kind = ''bitcrusher'' then Some (PBitcrusher (BitcrusherNode_new 8 1 ch))
         else if kind = ''tremolo'' then Some (PTremolo (TremoloNode_new (f_of_int 5) (f32_lit 5 10) sr))
         else if kind = ''stereo_widener'' then Some (PStereoWidener (StereoWidenerNode_new f_1))
         else Some (PGain f_1))"

definition render_node :: "libm \<Rightarrow> string option \<Rightarrow> NodeParams option \<Rightarrow> u32 \<Rightarrow> u16 \<Rightarrow> AnyNode option" where
  "render_node lm kind params sample_rate channels =
     (case kind of
        None \<Rightarrow> Some (PGain f_1)
      | Some k \<Rightarrow>
          (case params of
             Some p \<Rightarrow> if kind_name p = k then render_params lm p sample_rate channels
                        else render_default lm k sample_rate channels
           | None \<Rightarrow> render_default lm k sample_rate channels))"

section \<open>Processing\<close>

definition Node_process :: "libm \<Rightarrow> AnyNode node_fn" where
  "Node_process lm node ins outs =
     (case node of
        PGain g \<Rightarrow> Some (node, Gain_process g ins outs)
      | PEq n \<Rightarrow> map_option (map_prod PEq id) (EqNode_process n ins outs)
      | PCompressor n \<Rightarrow> map_option (map_prod PCompressor id) (CompressorNode_process lm n ins outs)
      | PLimiter t \<Rightarrow> Some (node, LimiterNode_process t ins outs)
      | PMeter n \<Rightarrow> map_option (map_prod PMeter id) (MeterNode_process lm n ins outs)
      | PMixer gains \<Rightarrow> Some (node, MixerNode_process gains ins outs)
      | PChannelMap mode \<Rightarrow> map_option (map_prod PChannelMap id) (ChannelMapNode_process lm mode ins outs)
      | PDelay n \<Rightarrow> map_option (map_prod PDelay id) (DelayNode_process n ins outs)
      | PNoiseGate n \<Rightarrow> map_option (map_prod PNoiseGate id) (NoiseGateNode_process n ins outs)
      | PNoise n \<Rightarrow> map_option (map_prod PNoise id) (NoiseSource_process n ins outs)
      | PTone n \<Rightarrow> map_option (map_prod PTone id) (ToneGenerator_process lm n ins outs)
      | PReverb n \<Rightarrow> map_option (map_prod PReverb id) (ReverbNode_process n ins outs)
      | PChorus n \<Rightarrow> map_option (map_prod PChorus id) (ChorusNode_process lm n ins outs)
      | PDistortion n \<Rightarrow> map_option (map_prod PDistortion id) (DistortionNode_process lm n ins outs)
      | PFlanger n \<Rightarrow> map_option (map_prod PFlanger id) (FlangerNode_process lm n ins outs)
      | PAuxSend level \<Rightarrow> Some (node, AuxSendNode_process level ins outs)
      | PPhaser n \<Rightarrow> map_option (map_prod PPhaser id) (PhaserNode_process lm n ins outs)
      | PBitcrusher n \<Rightarrow> map_option (map_prod PBitcrusher id) (BitcrusherNode_process n ins outs)
      | PTremolo n \<Rightarrow> map_option (map_prod PTremolo id) (TremoloNode_process lm n ins outs)
      | PStereoWidener w \<Rightarrow> map_option (map_prod PStereoWidener id) (StereoWidenerNode_process w ins outs))"

section \<open>Which nodes never panic\<close>

fun node_ok :: "AnyNode \<Rightarrow> bool" where
  "node_ok (PEq n) = eq_ok n"
| "node_ok (PDelay n) = delay_ok n"
| "node_ok (PNoiseGate n) = gate_ok n"
| "node_ok (PNoise n) = noise_ok n"
| "node_ok (PTone n) = tone_ok n"
| "node_ok (PReverb n) = reverb_ok n"
| "node_ok (PChorus n) = False"
| "node_ok (PDistortion n) = distortion_ok n"
| "node_ok (PFlanger n) = False"
| "node_ok (PPhaser n) = phaser_ok n"
| "node_ok (PBitcrusher n) = crusher_ok n"
| "node_ok _ = True"

text \<open>How many channels a node serves; those without state per channel serve any number.\<close>

fun node_chans :: "AnyNode \<Rightarrow> nat" where
  "node_chans (PEq n) = length (eq_z1 n)"
| "node_chans (PCompressor n) = length (co_envelope n)"
| "node_chans (PDelay n) = length (dl_buffer n)"
| "node_chans (PNoiseGate n) = length (ng_envelope n)"
| "node_chans (PReverb n) = reverb_chans n"
| "node_chans (PPhaser n) = length (ph_feedback_state n)"
| "node_chans (PBitcrusher n) = length (bc_counters n)"
| "node_chans _ = 2 ^ 16"

lemma one_to_one_sizes:
  "(\<And>inp out. length (samples (f inp out)) = length (samples out)) \<Longrightarrow> frame_sizes (one_to_one f ins outs) = frame_sizes outs"
  by (auto simp: one_to_one_def split: list.splits)

lemma stateless_sizes:
  "frame_sizes (Gain_process g ins outs) = frame_sizes outs"
  "frame_sizes (LimiterNode_process t ins outs) = frame_sizes outs"
  "frame_sizes (MixerNode_process gains ins outs) = frame_sizes outs"
  "frame_sizes (AuxSendNode_process level ins outs) = frame_sizes outs"
  by (simp_all add: Gain_process_def LimiterNode_process_def one_to_one_sizes)
     (simp add: MixerNode_process_def split: list.splits,
      cases "(level, ins, outs)" rule: AuxSendNode_process.cases, simp_all add: send_into_def)

lemma MeterNode_safe:
  "\<exists>node' outs'. MeterNode_process lm node ins outs = Some (node', outs') \<and> frame_sizes outs' = frame_sizes outs"
  by (auto simp: MeterNode_process_def Let_def split: list.splits)

lemma u16_lt: "unat (k :: u16) \<le> 65536"
  using unsigned_less [of k, where ?'a = nat] by simp

text \<open>A processed node is again in order, serves as many channels, and has filled frames of the same sizes.\<close>

definition node_step_ok :: "AnyNode \<Rightarrow> AudioFrame list \<Rightarrow> (AnyNode \<times> AudioFrame list) option \<Rightarrow> bool" where
  "node_step_ok node outs r \<longleftrightarrow>
     (\<exists>node' outs'. r = Some (node', outs') \<and> node_ok node' \<and> node_chans node' = node_chans node \<and> frame_sizes outs' = frame_sizes outs)"

lemma node_step_map:
  assumes "\<exists>n' outs'. r = Some (n', outs') \<and> node_ok (c n') \<and> node_chans (c n') = node_chans (c n) \<and> frame_sizes outs' = frame_sizes outs"
  shows "node_step_ok (c n) outs (map_option (map_prod c id) r)"
  using assms by (auto simp: node_step_ok_def)

lemma Node_process_safe:
  assumes "node_ok node" "\<forall>inp \<in> set ins. unat (af_channels inp) \<le> node_chans node"
  shows "node_step_ok node outs (Node_process lm node ins outs)"
proof (cases node)
  case (PGain g)
  then show ?thesis by (simp add: Node_process_def node_step_ok_def stateless_sizes)
next
  case (PEq n)
  have "\<exists>n' outs'. EqNode_process n ins outs = Some (n', outs') \<and> eq_ok n' \<and> length (eq_z1 n') = length (eq_z1 n) \<and>
      frame_sizes outs' = frame_sizes outs"
    unfolding EqNode_process_def using assms PEq by (intro equalizer.process_safe) simp_all
  then show ?thesis using PEq by (simp add: Node_process_def node_step_map)
next
  case (PCompressor n)
  have "\<exists>n' outs'. CompressorNode_process lm n ins outs = Some (n', outs') \<and> True \<and>
      length (co_envelope n') = length (co_envelope n) \<and> frame_sizes outs' = frame_sizes outs"
    unfolding CompressorNode_process_def using assms PCompressor by (intro compressor.process_safe) simp_all
  then show ?thesis using PCompressor by (simp add: Node_process_def node_step_map)
next
  case (PLimiter t)
  then show ?thesis by (simp add: Node_process_def node_step_ok_def stateless_sizes)
next
  case (PMeter n)
  then show ?thesis using MeterNode_safe [of lm n ins outs] by (auto simp: Node_process_def node_step_ok_def)
next
  case (PMixer gains)
  then show ?thesis by (simp add: Node_process_def node_step_ok_def stateless_sizes)
next
  case (PChannelMap mode)
  then show ?thesis using ChannelMapNode_safe [of lm mode ins outs] by (auto simp: Node_process_def node_step_ok_def)
next
  case (PDelay n)
  have "\<exists>n' outs'. DelayNode_process n ins outs = Some (n', outs') \<and> delay_ok n' \<and>
      length (dl_buffer n') = length (dl_buffer n) \<and> frame_sizes outs' = frame_sizes outs"
    unfolding DelayNode_process_def using assms PDelay by (intro delay.process_safe) simp_all
  then show ?thesis using PDelay by (simp add: Node_process_def node_step_map)
next
  case (PNoiseGate n)
  have "\<exists>n' outs'. NoiseGateNode_process n ins outs = Some (n', outs') \<and> gate_ok n' \<and>
      length (ng_envelope n') = length (ng_envelope n) \<and> frame_sizes outs' = frame_sizes outs"
    unfolding NoiseGateNode_process_def using assms PNoiseGate by (intro gate.process_safe) simp_all
  then show ?thesis using PNoiseGate by (simp add: Node_process_def node_step_map)
next
  case (PNoise n)
  then show ?thesis using NoiseSource_safe [of n ins outs] assms(1) by (auto simp: Node_process_def node_step_ok_def)
next
  case (PTone n)
  then show ?thesis using ToneGenerator_safe [of n lm ins outs] assms(1) by (auto simp: Node_process_def node_step_ok_def)
next
  case (PReverb n)
  have "\<exists>n' outs'. ReverbNode_process n ins outs = Some (n', outs') \<and> reverb_ok n' \<and>
      reverb_chans n' = reverb_chans n \<and> frame_sizes outs' = frame_sizes outs"
    unfolding ReverbNode_process_def using assms PReverb by (intro reverb.process_safe) simp_all
  then show ?thesis using PReverb by (simp add: Node_process_def node_step_map)
next
  case (PDistortion n)
  have "\<exists>n' outs'. DistortionNode_process lm n ins outs = Some (n', outs') \<and> distortion_ok n' \<and>
      (2 :: nat) ^ 16 = 2 ^ 16 \<and> frame_sizes outs' = frame_sizes outs"
    unfolding DistortionNode_process_def using assms(1) PDistortion u16_lt by (intro distortion.process_safe) simp_all
  then show ?thesis using PDistortion by (simp add: Node_process_def node_step_map)
next
  case (PAuxSend level)
  then show ?thesis by (simp add: Node_process_def node_step_ok_def stateless_sizes)
next
  case (PPhaser n)
  have "\<exists>n' outs'. PhaserNode_process lm n ins outs = Some (n', outs') \<and> phaser_ok n' \<and>
      length (ph_feedback_state n') = length (ph_feedback_state n) \<and> frame_sizes outs' = frame_sizes outs"
    unfolding PhaserNode_process_shared using assms PPhaser by (intro phaser.process_safe) simp_all
  then show ?thesis using PPhaser by (simp add: Node_process_def node_step_map)
next
  case (PBitcrusher n)
  have "\<exists>n' outs'. BitcrusherNode_process n ins outs = Some (n', outs') \<and> crusher_ok n' \<and>
      length (bc_counters n') = length (bc_counters n) \<and> frame_sizes outs' = frame_sizes outs"
    unfolding BitcrusherNode_process_def using assms PBitcrusher by (intro crusher.process_safe) simp_all
  then show ?thesis using PBitcrusher by (simp add: Node_process_def node_step_map)
next
  case (PTremolo n)
  have "\<exists>n' outs'. TremoloNode_process lm n ins outs = Some (n', outs') \<and> True \<and> (2 :: nat) ^ 16 = 2 ^ 16 \<and>
      frame_sizes outs' = frame_sizes outs"
    unfolding TremoloNode_process_shared using u16_lt by (intro tremolo.process_safe) simp_all
  then show ?thesis using PTremolo by (simp add: Node_process_def node_step_map)
next
  case (PStereoWidener w)
  then show ?thesis using StereoWidenerNode_safe [of w ins outs] by (auto simp: Node_process_def node_step_ok_def)
qed (use assms(1) in simp_all)

section \<open>What the factory renders\<close>

lemma f_body_neg [simp]: "f_body (f_neg x) = f_body x"
proof -
  have "take_bit 31 (f_neg x) = take_bit 31 x"
    by (simp add: f_neg_def take_bit_xor)
  then have "uint (take_bit 31 (f_neg x)) = uint (take_bit 31 x)" by simp
  then show ?thesis by (simp only: f_body_def unsigned_take_bit_eq) (simp add: take_bit_eq_mod)
qed

lemma DistortionNode_new_ok:
  assumes "\<not> is_nan threshold"
  shows "distortion_ok (DistortionNode_new mode drive threshold output_level)"
proof -
  let ?lo = "f32_lit 1 100" and ?t = "f_clamp threshold (f32_lit 1 100) f_1"
  have lo: "is_finite ?lo" "f_val ?lo \<le> f_val f_1" "0 < f_val ?lo" by (code_simp, code_simp, code_simp)
  have one: "is_finite f_1" by code_simp
  have t: "is_finite ?t" "0 < f_val ?t" using f_clamp_range [OF assms lo(1) one lo(2)] lo(3) by auto
  then have "\<not> f_sign ?t" by (auto simp: f_val_def split: if_splits) (meson f_mag_nonneg leD neg_0_less_iff_less)
  moreover have "0 \<le> f_body ?t" by (simp add: f_body_def)
  ultimately have "f_key (f_neg ?t) \<le> f_key ?t" by (simp add: f_key_def)
  then have "f_le (f_neg ?t) ?t" using finite_not_nan_inf [OF t(1)] by (simp add: f_le_def is_nan_def)
  then show ?thesis by (simp add: distortion_ok_def DistortionNode_new_def)
qed

lemma NoiseSource_new_ok: "noise_ok (NoiseSource_new color amp seed ch)"
  and ToneGenerator_new_ok: "tone_ok (ToneGenerator_new waveform freq amp sr ch)"
  by (simp_all add: noise_ok_def NoiseSource_new_def tone_ok_def ToneGenerator_new_def Let_def)

lemmas new_ok = DelayNode_new_ok BitcrusherNode_new_ok CompressorNode_new_ok NoiseGateNode_new_ok EqNode_new_ok
  ReverbNode_new_ok DistortionNode_new_ok NoiseSource_new_ok ToneGenerator_new_ok

text \<open>The parameters and rates with which a constructor or a clamp cannot panic.\<close>

definition params_ok :: "NodeParams \<Rightarrow> bool" where
  "params_ok p \<longleftrightarrow> (case p of Distortion mode drive threshold level \<Rightarrow> \<not> is_nan threshold | _ \<Rightarrow> True)"

definition rate_ok :: "u32 \<Rightarrow> bool" where
  "rate_ok sr \<longleftrightarrow> f_le (f_of_int 10) (f_mul (f_of_nat (unat sr)) (f32_lit 24 100))"

definition modulated :: "string list" where
  "modulated = [''chorus'', ''flanger'']"

lemma PhaserNode_new_some:
  "rate_ok sr \<Longrightarrow> \<exists>node. PhaserNode_new r b d f m n sr ch = Some node \<and> phaser_ok node \<and> unat ch \<le> length (ph_feedback_state node)"
  by (simp add: PhaserNode_new_def rate_ok_def phaser_ok_def Let_def)

lemma render_params_ok:
  assumes "params_ok p" "rate_ok sr" "kind_name p \<notin> set modulated"
  shows "\<exists>node. render_params lm p sr ch = Some node \<and> node_ok node \<and> unat ch \<le> node_chans node"
proof (cases p)
  case (Phaser r b d f m n)
  then show ?thesis
    using PhaserNode_new_some [OF assms(2), of r b d f m "unat n" ch] by (auto simp: render_params_def)
qed (use assms u16_lt [of ch] in \<open>simp_all add: render_params_def new_ok params_ok_def modulated_def\<close>)

lemma render_default_ok:
  assumes "rate_ok sr" "kind \<notin> set modulated"
  shows "\<exists>node. render_default lm kind sr ch = Some node \<and> node_ok node \<and> unat ch \<le> node_chans node"
proof (cases "kind = ''phaser''")
  case True
  then show ?thesis
    using PhaserNode_new_some [OF assms(1), of "f32_lit 5 10" "f_of_int 800" "f32_lit 5 10" "f32_lit 3 10" "f32_lit 5 10" 4 ch]
    by (auto simp: render_default_def Let_def)
next
  case False
  have "\<not> is_nan (f32_lit 7 10)" by code_simp
  then show ?thesis using False assms(2) u16_lt [of ch]
    by (simp add: render_default_def new_ok modulated_def Let_def)
qed

definition node_cycles :: "libm \<Rightarrow> (AudioFrame list \<times> AudioFrame list) list \<Rightarrow> AnyNode \<Rightarrow> AnyNode option" where
  "node_cycles lm = for_in (\<lambda>(ins, outs) node. map_option fst (Node_process lm node ins outs))"



section \<open>Defaults\<close>

lemmas default_defs =
  default_mixer_inputs_def default_mixer_gains_def default_filter_type_def default_freq_def default_q_def
  default_threshold_def default_ratio_def default_attack_def default_release_def default_limiter_threshold_def
  default_channel_mode_def default_delay_max_ms_def default_delay_ms_def default_feedback_def default_mix_def
  default_gate_threshold_def default_gate_attack_def default_gate_hold_def default_gate_release_def default_noise_color_def
  default_noise_amp_def default_seed_def default_waveform_def default_tone_freq_def default_tone_amp_def
  default_room_size_def default_damping_def default_wet_def default_dry_def default_chorus_rate_def
  default_chorus_depth_def default_chorus_center_def default_chorus_mix_def default_distortion_mode_def default_drive_def
  default_distortion_threshold_def default_output_level_def default_flanger_rate_def default_flanger_depth_def default_flanger_center_def
  default_flanger_feedback_def default_flanger_mix_def default_send_level_def default_phaser_rate_def default_phaser_base_def
  default_phaser_depth_def default_phaser_feedback_def default_phaser_mix_def default_phaser_stages_def default_bits_def
  default_hold_factor_def default_tremolo_rate_def default_tremolo_depth_def default_width_def

text \<open>
  The defaults of the factory are those of the control API: for every kind but gain, rendering with the
  parameters the API fills in is rendering without parameters; a gain node gets 1.0 from the API's defaults and
  0.5 from the factory's.\<close>

theorem factory_defaults_agree:
  assumes "params_default kind = Some p" "kind \<noteq> ''gain''"
  shows "render_node lm (Some kind) (Some p) sr ch = render_node lm (Some kind) None sr ch \<and>
    render_node lm (Some ''gain'') (params_default ''gain'') sr ch = Some (PGain (f32_lit 1 1)) \<and>
    render_node lm (Some ''gain'') None sr ch = Some (PGain (f32_lit 5 10))"
proof -
  have lit: "f32_lit i 1 = f_of_int i" for i by (simp add: f32_lit_def f_of_int_def)
  have ms: "f_mul (f_of_int 500) (f32_lit 1 1000) = f32_lit 5 10" "f_mul (f_of_int 250) (f32_lit 1 1000) = f32_lit 25 100"
    by (code_simp, code_simp)
  have low: "ascii_lower ''peaking'' = ''peaking''" "ascii_lower ''passthrough'' = ''passthrough''" "ascii_lower ''white'' = ''white''"
      "ascii_lower ''sine'' = ''sine''" "ascii_lower ''soft_clip'' = ''soft_clip''"
    by (code_simp, code_simp, code_simp, code_simp, code_simp)
  have p: "p \<in> set all_defaults" "kind_name p = kind"
    using assms(1) by (auto simp: params_default_def find_Some_iff)
  then have tail: "p \<in> set (tl all_defaults)" using assms(2) by (auto simp: all_defaults_def)
  have "\<forall>q \<in> set (tl all_defaults). render_params lm q sr ch = render_default lm (kind_name q) sr ch"
    unfolding all_defaults_def default_defs list.sel list.set ball_simps lit
    by (intro conjI)
       (simp_all add: render_params_def render_default_def Let_def ms_to_samples_def ms low parse_filter_type_def
        parse_channel_mode_def parse_noise_color_def parse_waveform_def parse_distortion_mode_def)
  with tail have "render_params lm p sr ch = render_default lm (kind_name p) sr ch" by blast
  then have "render_node lm (Some kind) (Some p) sr ch = render_node lm (Some kind) None sr ch"
    using p(2) by (simp add: render_node_def)
  moreover have "render_node lm (Some ''gain'') (params_default ''gain'') sr ch = Some (PGain (f32_lit 1 1))"
    by (simp add: render_node_def params_default_def all_defaults_def render_params_def default_gain_def)
  moreover have "render_node lm (Some ''gain'') None sr ch = Some (PGain (f32_lit 5 10))"
    by (simp add: render_node_def render_default_def Let_def)
  ultimately show ?thesis by blast
qed

theorem factory_defaults_agree_witness:
  "render_node \<lparr>m_sin = id, m_cos = id, m_exp = id, m_tanh = id, m_powf = (\<lambda>x y. x), m_sqrt = id\<rparr>
     (Some ''limiter'') (Some (Limiter default_limiter_threshold)) 48000 2 =
   render_node \<lparr>m_sin = id, m_cos = id, m_exp = id, m_tanh = id, m_powf = (\<lambda>x y. x), m_sqrt = id\<rparr> (Some ''limiter'') None 48000 2"
  by (rule factory_defaults_agree [THEN conjunct1]) (simp_all add: params_default_def all_defaults_def)

end
