(* ===== verification/Monitor.thy ===== *)
theory Monitor
  imports Prelude
begin

text \<open>
  The metrics of \<open>monitor/src/lib.rs\<close>: the sliding window of cycle latencies and its statistics, the xrun
  counter that several threads raise with a compare-and-exchange loop, and the Prometheus text. A \<open>u128\<close> sum
  of at most \<open>2^64\<close> samples is a \<open>nat\<close>. Relaxed atomics on one location are interleavings of their operations.
\<close>

section \<open>The latency window\<close>

definition LATENCY_WINDOW :: nat where "LATENCY_WINDOW = 1024"

type_synonym LatencyHistogram = "u64 list"

definition LatencyHistogram_new :: LatencyHistogram where
  "LatencyHistogram_new = []"

definition LatencyHistogram_record :: "u64 \<Rightarrow> LatencyHistogram \<Rightarrow> LatencyHistogram" where
  "LatencyHistogram_record latency_us buf =
     (if LATENCY_WINDOW \<le> length buf then tl buf else buf) @ [latency_us]"

definition LatencyHistogram_snapshot :: "LatencyHistogram \<Rightarrow> u64 list" where
  "LatencyHistogram_snapshot buf = buf"

record LatencyStats =
  st_min :: u64
  st_max :: u64
  st_avg :: u64

definition stats_step :: "u64 \<Rightarrow> u64 \<times> u64 \<times> nat \<Rightarrow> u64 \<times> u64 \<times> nat" where
  "stats_step v = (\<lambda>(lo, hi, sum). (min lo v, max hi v, sum + unat v))"

definition from_samples :: "u64 list \<Rightarrow> LatencyStats" where
  "from_samples smps =
     (if smps = [] then \<lparr>st_min = 0, st_max = 0, st_avg = 0\<rparr>
      else let (lo, hi, sum) = fold stats_step smps (- 1, 0, 0);
               q = sum div length smps
           in \<lparr>st_min = lo, st_max = hi, st_avg = (if q < 2 ^ 64 then of_nat q else - 1)\<rparr>)"

section \<open>The recorder\<close>

record MetricsRecorder =
  mr_window :: LatencyHistogram
  last_p50 :: u64
  last_p99 :: u64
  xrun_total :: u64
  mr_prefix :: string

definition MetricsRecorder_with_prefix :: "string \<Rightarrow> MetricsRecorder" where
  "MetricsRecorder_with_prefix prefix =
     \<lparr>mr_window = LatencyHistogram_new, last_p50 = 0, last_p99 = 0, xrun_total = 0, mr_prefix = prefix\<rparr>"

definition MetricsRecorder_new :: MetricsRecorder where
  "MetricsRecorder_new = MetricsRecorder_with_prefix ''sonicbrew''"

definition record_cycle :: "u64 \<Rightarrow> MetricsRecorder \<Rightarrow> MetricsRecorder" where
  "record_cycle latency_us rec = rec\<lparr>mr_window := LatencyHistogram_record latency_us (mr_window rec)\<rparr>"

definition record_latency :: "u64 \<Rightarrow> u64 \<Rightarrow> MetricsRecorder \<Rightarrow> MetricsRecorder" where
  "record_latency p50_us p99_us rec =
     record_cycle p99_us (record_cycle p50_us (rec\<lparr>last_p50 := p50_us, last_p99 := p99_us\<rparr>))"

text \<open>\<open>record_xrun\<close> on its own, without other reporters.\<close>

definition record_xrun :: "u64 \<Rightarrow> MetricsRecorder \<Rightarrow> MetricsRecorder" where
  "record_xrun count rec = (if count \<le> xrun_total rec then rec else rec\<lparr>xrun_total := count\<rparr>)"

definition nl :: string where
  "nl = [CHR 0x0A]"

definition quantile :: "string \<Rightarrow> string" where
  "quantile q = ''{quantile='' @ [CHR 0x22] @ q @ [CHR 0x22] @ ''}''"

definition export_lines :: "MetricsRecorder \<Rightarrow> string list" where
  "export_lines rec =
     (let stats = from_samples (LatencyHistogram_snapshot (mr_window rec)); p = mr_prefix rec
      in [''# HELP '' @ p @ ''_process_latency_us Process-cycle latency in microseconds'',
          ''# TYPE '' @ p @ ''_process_latency_us summary'',
          p @ ''_process_latency_us'' @ quantile ''0.5'' @ '' '' @ show_word (last_p50 rec),
          p @ ''_process_latency_us'' @ quantile ''0.99'' @ '' '' @ show_word (last_p99 rec),
          p @ ''_process_latency_us_min '' @ show_word (st_min stats),
          p @ ''_process_latency_us_max '' @ show_word (st_max stats),
          p @ ''_process_latency_us_avg '' @ show_word (st_avg stats),
          ''# HELP '' @ p @ ''_xrun_total Cumulative xrun count'',
          ''# TYPE '' @ p @ ''_xrun_total counter'',
          p @ ''_xrun_total '' @ show_word (xrun_total rec)])"

definition export_prometheus :: "MetricsRecorder \<Rightarrow> string" where
  "export_prometheus rec = concat (map (\<lambda>line. line @ nl) (export_lines rec))"

text \<open>The answer to every scrape.\<close>

definition metrics_response :: "MetricsRecorder \<Rightarrow> string" where
  "metrics_response rec =
     (let body = export_prometheus rec; crlf = [CHR 0x0D, CHR 0x0A]
      in ''HTTP/1.1 200 OK'' @ crlf @ ''Content-Type: text/plain; version=0.0.4'' @ crlf @
         ''Content-Length: '' @ show_nat (length body) @ crlf @ ''Connection: close'' @ crlf @ crlf @ body)"

section \<open>Concurrent reports\<close>

text \<open>
  A thread in \<open>record_xrun\<close>: before the load, in the loop with the count it reports and the value it last
  saw, or returned. The weak exchange may fail even when the value is the one expected.
\<close>

datatype reporter = Entering u64 | Looping u64 u64 | Returned

inductive xrun_step :: "u64 \<times> reporter list \<Rightarrow> u64 \<times> reporter list \<Rightarrow> bool" where
  load: "i < length ts \<Longrightarrow> ts ! i = Entering count \<Longrightarrow> xrun_step (tot, ts) (tot, ts[i := Looping count tot])"
| settled: "i < length ts \<Longrightarrow> ts ! i = Looping count current \<Longrightarrow> count \<le> current \<Longrightarrow> xrun_step (tot, ts) (tot, ts[i := Returned])"
| exchanged: "i < length ts \<Longrightarrow> ts ! i = Looping count current \<Longrightarrow> current < count \<Longrightarrow> tot = current \<Longrightarrow>
    xrun_step (tot, ts) (count, ts[i := Returned])"
| observed: "i < length ts \<Longrightarrow> ts ! i = Looping count current \<Longrightarrow> current < count \<Longrightarrow>
    xrun_step (tot, ts) (tot, ts[i := Looping count tot])"

section \<open>The window and its statistics\<close>

lemma window_record:
  assumes "buf = drop (length xs - LATENCY_WINDOW) xs"
  shows "LatencyHistogram_record v buf = drop (length (xs @ [v]) - LATENCY_WINDOW) (xs @ [v])"
proof (cases "LATENCY_WINDOW \<le> length xs")
  case True
  then have "LATENCY_WINDOW \<le> length buf" using assms by simp
  moreover have "length (xs @ [v]) - LATENCY_WINDOW = Suc (length xs - LATENCY_WINDOW)" using True by simp
  moreover have "Suc 0 - LATENCY_WINDOW = 0" by (simp add: LATENCY_WINDOW_def)
  ultimately show ?thesis
    using True assms by (simp add: LatencyHistogram_record_def tl_drop [symmetric] drop_Suc)
next
  case False
  then show ?thesis using assms by (simp add: LatencyHistogram_record_def)
qed

lemma window_fold:
  "fold LatencyHistogram_record xs LatencyHistogram_new = drop (length xs - LATENCY_WINDOW) xs"
proof (induction xs rule: rev_induct)
  case (snoc v xs)
  then show ?case using window_record [OF snoc, of v] by simp
qed (simp add: LatencyHistogram_new_def)

lemma stats_fold:
  "fold stats_step xs (lo, hi, acc) = (fold min xs lo, fold max xs hi, acc + sum_list (map unat xs))"
  by (induction xs arbitrary: lo hi acc) (simp_all add: stats_step_def min.commute max.commute)

lemma fold_min: "xs \<noteq> [] \<Longrightarrow> fold min xs (- 1) = Min (set xs)" for xs :: "u64 list"
proof -
  assume "xs \<noteq> []"
  have "fold min xs (- 1) = Min (set (- 1 # xs))" by (simp only: Min.set_eq_fold)
  also have "\<dots> = min (- 1) (Min (set xs))" using \<open>xs \<noteq> []\<close> by simp
  also have "\<dots> = Min (set xs)" by (simp add: min_absorb2)
  finally show ?thesis .
qed

lemma fold_max: "xs \<noteq> [] \<Longrightarrow> fold max xs 0 = Max (set xs)" for xs :: "u64 list"
proof -
  assume "xs \<noteq> []"
  have "fold max xs 0 = Max (set (0 # xs))" by (simp only: Max.set_eq_fold)
  also have "\<dots> = max 0 (Max (set xs))" using \<open>xs \<noteq> []\<close> by simp
  also have "\<dots> = Max (set xs)" by (simp add: max_absorb2)
  finally show ?thesis .
qed

lemma sum_unat_bound: "sum_list (map unat (xs :: u64 list)) \<le> length xs * (2 ^ 64 - 1)"
proof (induction xs)
  case (Cons x xs)
  have "unat x < 2 ^ 64" using unsigned_less [of x, where ?'a = nat] by simp
  then show ?case using Cons by simp
qed simp

lemma from_samples_stats:
  assumes "smps \<noteq> []"
  shows "st_min (from_samples smps) = Min (set smps)" "st_max (from_samples smps) = Max (set smps)"
    "unat (st_avg (from_samples smps)) = sum_list (map unat smps) div length smps"
proof -
  have "sum_list (map unat smps) div length smps \<le> 2 ^ 64 - 1"
    using div_le_mono [OF sum_unat_bound [of smps], of "length smps"] assms by simp
  then have "sum_list (map unat smps) div length smps < 2 ^ 64" by simp
  then show "st_min (from_samples smps) = Min (set smps)" "st_max (from_samples smps) = Max (set smps)"
      "unat (st_avg (from_samples smps)) = sum_list (map unat smps) div length smps"
    using assms by (simp_all add: from_samples_def stats_fold fold_min fold_max unat_of_nat take_bit_nat_eq_self)
qed

text \<open>
  The exported latencies are those of the last 1024 samples. After any sequence of recorded cycles, the
  window is its last 1024 latencies in order, and the statistics of a non-empty window are its true minimum,
  maximum and average (rounded down), with no overflow.\<close>

theorem window_statistics:
  assumes "lats \<noteq> []" "recent = drop (length lats - 1024) lats"
    "rec = fold record_cycle lats (MetricsRecorder_with_prefix prefix)" "stats = from_samples (LatencyHistogram_snapshot (mr_window rec))"
  shows "LatencyHistogram_snapshot (mr_window rec) = recent \<and> st_min stats = Min (set recent) \<and> st_max stats = Max (set recent) \<and>
    unat (st_avg stats) = sum_list (map unat recent) div length recent"
proof -
  have "mr_window (fold record_cycle xs rec) = fold LatencyHistogram_record xs (mr_window rec)" for xs rec
    by (induction xs arbitrary: rec) (simp_all add: record_cycle_def)
  then have w: "LatencyHistogram_snapshot (mr_window rec) = recent"
    using window_fold [of lats] assms(2,3)
    by (simp add: LatencyHistogram_snapshot_def MetricsRecorder_with_prefix_def LATENCY_WINDOW_def)
  have "0 < length lats" using assms(1) by simp
  then have "length lats - 1024 < length lats" by (rule diff_less [rotated]) simp
  then have "recent \<noteq> []" using assms(2) by simp
  from from_samples_stats [OF this] w assms(4) show ?thesis by simp
qed

theorem window_statistics_witness:
  "st_max (from_samples (LatencyHistogram_snapshot (mr_window
     (fold record_cycle [3, 8] (MetricsRecorder_with_prefix ''p''))))) = 8"
proof -
  have "st_max (from_samples (LatencyHistogram_snapshot (mr_window
     (fold record_cycle [3, 8] (MetricsRecorder_with_prefix ''p''))))) = Max (set [3, 8])"
    by (rule window_statistics [of _ "[3, 8]", OF _ _ refl refl, THEN conjunct2, THEN conjunct2, THEN conjunct1]) simp_all
  then show ?thesis by simp
qed

section \<open>The xrun counter\<close>

definition xrun_inv :: "u64 \<Rightarrow> u64 list \<Rightarrow> u64 \<times> reporter list \<Rightarrow> bool" where
  "xrun_inv tot0 counts = (\<lambda>(tot, ts).
     tot0 \<le> tot \<and> tot \<in> insert tot0 (set counts) \<and>
     list_all2 (\<lambda>t c. case t of Entering d \<Rightarrow> d = c | Looping d cur \<Rightarrow> d = c \<and> cur \<le> tot | Returned \<Rightarrow> c \<le> tot) ts counts)"

lemma xrun_inv_start: "xrun_inv tot counts (tot, map Entering counts)"
  by (simp add: xrun_inv_def list_all2_conv_all_nth)

lemma xrun_inv_update:
  assumes "xrun_inv tot0 counts (tot, ts)" "i < length ts" "tot \<le> tot'" "tot' \<in> insert tot0 (set counts)"
    "case t' of Entering d \<Rightarrow> d = counts ! i | Looping d cur \<Rightarrow> d = counts ! i \<and> cur \<le> tot' | Returned \<Rightarrow> counts ! i \<le> tot'"
  shows "xrun_inv tot0 counts (tot', ts[i := t'])"
proof -
  have "case ts ! j of Entering d \<Rightarrow> d = counts ! j | Looping d cur \<Rightarrow> d = counts ! j \<and> cur \<le> tot' | Returned \<Rightarrow> counts ! j \<le> tot'"
    if "j < length ts" for j
    using assms(1,3) that by (fastforce simp: xrun_inv_def list_all2_conv_all_nth split: reporter.splits)
  then show ?thesis using assms by (auto simp: xrun_inv_def list_all2_conv_all_nth nth_list_update)
qed

lemma xrun_inv_thread:
  assumes "xrun_inv tot0 counts (tot, ts)" "i < length ts"
  shows "tot \<in> insert tot0 (set counts)" "i < length counts"
    "case ts ! i of Entering d \<Rightarrow> d = counts ! i | Looping d cur \<Rightarrow> d = counts ! i \<and> cur \<le> tot | Returned \<Rightarrow> counts ! i \<le> tot"
  using assms by (simp_all add: xrun_inv_def list_all2_conv_all_nth)

lemma xrun_inv_step:
  assumes "xrun_step s s'" "xrun_inv tot0 counts s"
  shows "xrun_inv tot0 counts s'" "fst s \<le> fst s'"
proof -
  show "xrun_inv tot0 counts s'"
    using assms
  proof (induction rule: xrun_step.induct)
    case (load i ts count tot)
    note th = xrun_inv_thread [OF load(3) load(1)]
    show ?case by (rule xrun_inv_update [OF load(3,1)]) (use load th in auto)
  next
    case (settled i ts count current tot)
    note th = xrun_inv_thread [OF settled(4) settled(1)]
    show ?case by (rule xrun_inv_update [OF settled(4,1)]) (use settled th in auto)
  next
    case (exchanged i ts count current tot)
    note th = xrun_inv_thread [OF exchanged(5) exchanged(1)]
    show ?case by (rule xrun_inv_update [OF exchanged(5,1)]) (use exchanged th in auto)
  next
    case (observed i ts count current tot)
    note th = xrun_inv_thread [OF observed(4) observed(1)]
    show ?case by (rule xrun_inv_update [OF observed(4,1)]) (use observed th in auto)
  qed
  show "fst s \<le> fst s'" using assms(1) by (induction rule: xrun_step.induct) auto
qed

lemma xrun_inv_run:
  assumes "xrun_step\<^sup>*\<^sup>* (tot, map Entering counts) s"
  shows "xrun_inv tot counts s"
  using assms by (induction rule: rtranclp_induct) (auto intro: xrun_inv_start xrun_inv_step(1))

text \<open>A step that does not change anything is an exchange that failed for no reason.\<close>

definition xrun_move :: "u64 \<times> reporter list \<Rightarrow> u64 \<times> reporter list \<Rightarrow> bool" where
  "xrun_move s s' \<longleftrightarrow> xrun_step s s' \<and> s' \<noteq> s"

definition weight :: "u64 \<Rightarrow> reporter \<Rightarrow> nat" where
  "weight tot t = (case t of Entering _ \<Rightarrow> 2 | Looping _ cur \<Rightarrow> if cur = tot then 0 else 1 | Returned \<Rightarrow> 0)"

definition at_work :: "reporter list \<Rightarrow> nat" where
  "at_work ts = sum_list (map (\<lambda>t. if t = Returned then 0 else 1) ts)"

definition xrun_measure :: "u64 \<times> reporter list \<Rightarrow> nat" where
  "xrun_measure = (\<lambda>(tot, ts). (2 * length ts + 1) * at_work ts + sum_list (map (weight tot) ts))"

lemma sum_update:
  "i < length xs \<Longrightarrow> sum_list (map f (xs[i := y])) + f (xs ! i) = sum_list (map f xs) + f y" for f :: "'a \<Rightarrow> nat"
  by (induction xs arbitrary: i) (auto split: nat.splits)

lemma sum_weights: "sum_list (map (weight tot) ts) \<le> 2 * length ts"
  by (induction ts) (auto simp: weight_def split: reporter.splits)

lemma measure_returned:
  assumes "i < length ts" "ts ! i \<noteq> Returned"
  shows "xrun_measure (tot', ts[i := Returned]) < xrun_measure (tot, ts)"
proof -
  have "Suc (at_work (ts[i := Returned])) = at_work ts"
    using sum_update [OF assms(1), of "\<lambda>t. if t = Returned then 0 else 1" Returned] assms(2) by (simp add: at_work_def)
  then have "(2 * length ts + 1) * at_work ts = (2 * length ts + 1) * at_work (ts[i := Returned]) + (2 * length ts + 1)"
    by (metis add.commute mult_Suc_right)
  then show ?thesis using sum_weights [of tot' "ts[i := Returned]"] by (simp add: xrun_measure_def)
qed

lemma measure_observed:
  assumes "i < length ts" "ts ! i \<noteq> Returned" "0 < weight tot (ts ! i)"
  shows "xrun_measure (tot, ts[i := Looping count tot]) < xrun_measure (tot, ts)"
proof -
  have "at_work (ts[i := Looping count tot]) = at_work ts"
    using sum_update [OF assms(1), of "\<lambda>t. if t = Returned then 0 else 1" "Looping count tot"] assms(2) by (simp add: at_work_def)
  moreover have "sum_list (map (weight tot) (ts[i := Looping count tot])) < sum_list (map (weight tot) ts)"
    using sum_update [OF assms(1), of "weight tot" "Looping count tot"] assms(3) by (simp add: weight_def)
  ultimately show ?thesis by (simp add: xrun_measure_def)
qed

lemma xrun_move_measure: "xrun_move s s' \<Longrightarrow> xrun_measure s' < xrun_measure s"
  unfolding xrun_move_def
proof (elim conjE, induction rule: xrun_step.induct)
  case (observed i ts count current tot)
  then have "current \<noteq> tot" by auto (metis list_update_id)
  then show ?case using observed by (intro measure_observed) (simp_all add: weight_def)
qed (auto intro: measure_returned measure_observed simp: weight_def)

lemma xrun_moves_measure: "(xrun_move ^^ n) s s' \<Longrightarrow> xrun_measure s' + n \<le> xrun_measure s"
  by (induction n arbitrary: s') (fastforce dest: xrun_move_measure)+

lemma measure_start: "xrun_measure (tot, map Entering counts) \<le> (2 * length counts + 3) * length counts"
proof -
  have "at_work (map Entering counts) = length counts" by (induction counts) (simp_all add: at_work_def)
  then show ?thesis using sum_weights [of tot "map Entering counts"] by (simp add: xrun_measure_def algebra_simps)
qed

lemma xrun_progress:
  assumes "t \<in> set ts" "t \<noteq> Returned"
  shows "\<exists>s'. xrun_move (tot, ts) s'"
proof -
  obtain i where i: "i < length ts" "ts ! i = t" using assms(1) by (metis in_set_conv_nth)
  have changed: "ts[i := t'] \<noteq> ts" if "t' \<noteq> t" for t' using that i by (metis nth_list_update_eq)
  show ?thesis
  proof (cases t)
    case (Entering count)
    then show ?thesis using xrun_step.load [of i ts count tot] i changed by (auto simp: xrun_move_def)
  next
    case (Looping count current)
    consider "count \<le> current" | "current < count" "tot = current" | "current < count" "tot \<noteq> current" by fastforce
    then show ?thesis
      using xrun_step.settled [of i ts count current tot] xrun_step.exchanged [of i ts count current tot]
        xrun_step.observed [of i ts count current tot] i changed Looping
      by cases (fastforce simp: xrun_move_def)+
  qed (use assms(2) in simp)
qed

text \<open>
  C9: The xrun counter is right under concurrency. Whatever reports threads make at once, and however their steps
  interleave, the counter never decreases and never exceeds the largest report; as long as some thread has not
  returned, one can move; the moves (steps other than exchanges that fail for no reason) are bounded; and when
  all have returned, the counter is the maximum of its old value and all reports.\<close>

theorem xrun_counter:
  assumes "xrun_step\<^sup>*\<^sup>* (tot0, map Entering counts) (tot, ts)"
  shows "tot0 \<le> tot \<and> tot \<le> fold max counts tot0 \<and>
    (\<forall>s'. xrun_step (tot, ts) s' \<longrightarrow> tot \<le> fst s') \<and>
    (if \<forall>t \<in> set ts. t = Returned then tot = fold max counts tot0 else \<exists>s'. xrun_move (tot, ts) s') \<and>
    (\<forall>n s'. (xrun_move ^^ n) (tot0, map Entering counts) s' \<longrightarrow> n \<le> (2 * length counts + 3) * length counts)"
proof -
  note inv = xrun_inv_run [OF assms]
  have mx: "fold max counts tot0 = Max (insert tot0 (set counts))" by (simp only: Max.set_eq_fold list.set [symmetric])
  have "tot \<in> insert tot0 (set counts)" "tot0 \<le> tot" using inv by (simp_all add: xrun_inv_def)
  then have up: "tot \<le> fold max counts tot0" unfolding mx by (intro Max_ge) simp_all
  have "tot = fold max counts tot0" if "\<forall>t \<in> set ts. t = Returned"
  proof -
    have "\<forall>c \<in> set counts. c \<le> tot"
      using inv that by (fastforce simp: xrun_inv_def list_all2_conv_all_nth in_set_conv_nth split: reporter.splits)
    then have "fold max counts tot0 \<le> tot" unfolding mx using \<open>tot0 \<le> tot\<close> by simp
    with up show ?thesis by simp
  qed
  moreover have "n \<le> (2 * length counts + 3) * length counts" if "(xrun_move ^^ n) (tot0, map Entering counts) s'" for n s'
    using xrun_moves_measure [OF that] measure_start [of tot0 counts] by simp
  ultimately show ?thesis using up \<open>tot0 \<le> tot\<close> xrun_inv_step(2) [OF _ inv] xrun_progress by fastforce
qed

theorem xrun_counter_witness:
  "xrun_step\<^sup>*\<^sup>* (5, map Entering [9, 7]) (9, [Returned, Looping 7 9]) \<and> (\<exists>s'. xrun_move (9, [Returned, Looping 7 9]) s')"
proof -
  have "xrun_step (5, [Entering 9, Entering 7]) (5, [Looping 9 5, Entering 7])"
    using xrun_step.load [of 0 "[Entering 9, Entering 7]" 9 5] by simp
  moreover have "xrun_step (5, [Looping 9 5, Entering 7]) (5, [Looping 9 5, Looping 7 5])"
    using xrun_step.load [of 1 "[Looping 9 5, Entering 7]" 7 5] by simp
  moreover have "xrun_step (5, [Looping 9 5, Looping 7 5]) (9, [Returned, Looping 7 5])"
    using xrun_step.exchanged [of 0 "[Looping 9 5, Looping 7 5]" 9 5 5] by simp
  moreover have "xrun_step (9, [Returned, Looping 7 5]) (9, [Returned, Looping 7 9])"
    using xrun_step.observed [of 1 "[Returned, Looping 7 5]" 7 5 9] by simp
  ultimately have run: "xrun_step\<^sup>*\<^sup>* (5, map Entering [9, 7]) (9, [Returned, Looping 7 9])"
    by (simp add: converse_rtranclp_into_rtranclp)
  with xrun_counter [OF run] show ?thesis by simp
qed

end
