(* ===== verification/Server_Main.thy ===== *)
theory Server_Main
  imports Monitor Audio_Engine "HOL-Library.Sublist"
begin

text \<open>
  The server binary apart from its node factory (\<open>sonicbrew/src/main.rs\<close>): the command line, the choice of
  the mode, the real-time loops with what they record, and the latency summary in the log. Parsing a socket
  address is a parameter; the clock is a list of measured latencies.
\<close>

section \<open>Constants\<close>

definition CHANNELS :: u16 where "CHANNELS = 2"
definition SAMPLE_RATE :: u32 where "SAMPLE_RATE = 48000"
definition NUM_FRAMES :: nat where "NUM_FRAMES = 256"

definition FRAME_DURATION :: nat where
  "FRAME_DURATION = NUM_FRAMES * 1000000000 div unat SAMPLE_RATE"

definition DEFAULT_WS_ADDR :: string where "DEFAULT_WS_ADDR = ''127.0.0.1:9001''"
definition DEFAULT_API_ADDR :: string where "DEFAULT_API_ADDR = ''127.0.0.1:9002''"
definition DEFAULT_METRICS_ADDR :: string where "DEFAULT_METRICS_ADDR = ''127.0.0.1:9003''"

section \<open>The command line\<close>

record 'a Args =
  self_test :: bool
  hot_reload_test :: bool
  live_rebuild_test :: bool
  engine_live_rebuild_test :: bool
  gateway_live_reload_test :: bool
  diagnose :: bool
  server_engine :: bool
  show_help :: bool
  ws_addr :: 'a
  api_addr :: 'a
  metrics_addr :: 'a
  load_file :: "string option"

text \<open>An address that does not parse panics here: \<open>None\<close>.\<close>

definition Args_default :: "(string \<Rightarrow> string + 'a) \<Rightarrow> 'a Args option" where
  "Args_default parse =
     (case (parse DEFAULT_WS_ADDR, parse DEFAULT_API_ADDR, parse DEFAULT_METRICS_ADDR) of
        (Inr ws, Inr api, Inr metrics) \<Rightarrow>
          Some \<lparr>self_test = False, hot_reload_test = False, live_rebuild_test = False,
                engine_live_rebuild_test = False, gateway_live_reload_test = False, diagnose = False,
                server_engine = False, show_help = False, ws_addr = ws, api_addr = api, metrics_addr = metrics,
                load_file = None\<rparr>
      | _ \<Rightarrow> None)"

definition addr_value :: "(string \<Rightarrow> string + 'a) \<Rightarrow> string \<Rightarrow> string \<Rightarrow> string + 'a" where
  "addr_value parse flag v = map_err (\<lambda>e. flag @ '' '' @ [CHR 0x27] @ v @ [CHR 0x27] @ '': '' @ e) (parse v)"

fun parse_args_loop :: "(string \<Rightarrow> string + 'a) \<Rightarrow> string list \<Rightarrow> 'a Args \<Rightarrow> string + 'a Args" where
  "parse_args_loop parse [] args = Ok args"
| "parse_args_loop parse (arg # iter) args =
     (if arg = ''--self-test'' then parse_args_loop parse iter (args\<lparr>self_test := True\<rparr>)
      else if arg = ''--hot-reload-test'' then parse_args_loop parse iter (args\<lparr>hot_reload_test := True\<rparr>)
      else if arg = ''--live-rebuild-test'' then parse_args_loop parse iter (args\<lparr>live_rebuild_test := True\<rparr>)
      else if arg = ''--engine-live-rebuild-test'' then parse_args_loop parse iter (args\<lparr>engine_live_rebuild_test := True\<rparr>)
      else if arg = ''--gateway-live-reload-test'' then parse_args_loop parse iter (args\<lparr>gateway_live_reload_test := True\<rparr>)
      else if arg = ''--diagnose'' then parse_args_loop parse iter (args\<lparr>diagnose := True\<rparr>)
      else if arg = ''--server-engine'' then parse_args_loop parse iter (args\<lparr>server_engine := True\<rparr>)
      else if arg = ''--help'' \<or> arg = ''-h'' then parse_args_loop parse iter (args\<lparr>show_help := True\<rparr>)
      else if arg = ''--ws-addr'' then
        (case iter of
           [] \<Rightarrow> Err ''--ws-addr requires a value''
         | v # iter \<Rightarrow> rbind (addr_value parse ''--ws-addr'' v) (\<lambda>a. parse_args_loop parse iter (args\<lparr>ws_addr := a\<rparr>)))
      else if arg = ''--api-addr'' then
        (case iter of
           [] \<Rightarrow> Err ''--api-addr requires a value''
         | v # iter \<Rightarrow> rbind (addr_value parse ''--api-addr'' v) (\<lambda>a. parse_args_loop parse iter (args\<lparr>api_addr := a\<rparr>)))
      else if arg = ''--metrics-addr'' then
        (case iter of
           [] \<Rightarrow> Err ''--metrics-addr requires a value''
         | v # iter \<Rightarrow> rbind (addr_value parse ''--metrics-addr'' v) (\<lambda>a. parse_args_loop parse iter (args\<lparr>metrics_addr := a\<rparr>)))
      else if arg = ''--load-file'' then
        (case iter of
           [] \<Rightarrow> Err ''--load-file requires a value''
         | v # iter \<Rightarrow> parse_args_loop parse iter (args\<lparr>load_file := Some v\<rparr>))
      else Err (''unknown argument '' @ [CHR 0x27] @ arg @ [CHR 0x27] @ '' (try --help)''))"

definition parse_args :: "(string \<Rightarrow> string + 'a) \<Rightarrow> string list \<Rightarrow> (string + 'a Args) option" where
  "parse_args parse iter = map_option (parse_args_loop parse iter) (Args_default parse)"

text \<open>What \<open>main\<close> does with them; the diagnostic display is a build feature.\<close>

datatype mode =
    PrintUsage | HotReloadTest | LiveRebuildTest | EngineLiveRebuildTest | GatewayLiveReloadTest
  | Diagnose | ServerEngine | SelfTest | Server

definition main_mode :: "bool \<Rightarrow> 'a Args \<Rightarrow> mode" where
  "main_mode diagnose_feature args =
     (if show_help args then PrintUsage
      else if hot_reload_test args then HotReloadTest
      else if live_rebuild_test args then LiveRebuildTest
      else if engine_live_rebuild_test args then EngineLiveRebuildTest
      else if gateway_live_reload_test args then GatewayLiveReloadTest
      else if diagnose_feature \<and> diagnose args then Diagnose
      else if server_engine args then ServerEngine
      else if self_test args then SelfTest
      else Server)"

section \<open>The real-time loops\<close>

text \<open>
  One cycle of the loop of the default mode and one of the engine server, given its measured latency: a
  processed cycle and a flush, whose errors are only logged, a recorded latency and the next position.
\<close>

definition rt_cycle ::
  "('g, 'n, 'c) graph_ops \<Rightarrow> (nat \<Rightarrow> u64 \<Rightarrow> u32 \<Rightarrow> 'c) \<Rightarrow> u64 \<Rightarrow> 'g \<times> MetricsRecorder \<times> u64 \<Rightarrow> 'g \<times> MetricsRecorder \<times> u64" where
  "rt_cycle gops ctx_new us = (\<lambda>(g, rec, position).
     let (_, _, g) = g_process_cycle gops (ctx_new NUM_FRAMES position SAMPLE_RATE) g;
         (_, g) = g_flush_sinks gops g
     in (g, record_cycle us rec, position + of_nat NUM_FRAMES))"

definition run_rt_loop where
  "run_rt_loop gops ctx_new lats g rec = fold (rt_cycle gops ctx_new) lats (g, rec, 0)"

definition engine_cycle ::
  "('g, 'n, 'c) graph_ops \<Rightarrow> (nat \<Rightarrow> u64 \<Rightarrow> u32 \<Rightarrow> 'c) \<Rightarrow> u64 \<Rightarrow> 'g GraphEngine \<times> MetricsRecorder \<times> u64
   \<Rightarrow> 'g GraphEngine \<times> MetricsRecorder \<times> u64" where
  "engine_cycle gops ctx_new us = (\<lambda>(eng, rec, position).
     (snd (GraphEngine_step gops (ctx_new NUM_FRAMES position SAMPLE_RATE) eng), record_cycle us rec,
      position + of_nat NUM_FRAMES))"

definition run_engine_loop where
  "run_engine_loop gops ctx_new lats eng rec = fold (engine_cycle gops ctx_new) lats (eng, rec, 0)"

section \<open>The latency summary\<close>

text \<open>\<open>str::lines\<close>: ended by a newline, before which a carriage return is dropped.\<close>

definition strip_cr :: "string \<Rightarrow> string" where
  "strip_cr line = (if line \<noteq> [] \<and> last line = CHR 0x0D then butlast line else line)"

function str_lines :: "string \<Rightarrow> string list" where
  "str_lines s =
     (if s = [] then []
      else let line = takeWhile (\<lambda>c. c \<noteq> CHR 0x0A) s; rest = dropWhile (\<lambda>c. c \<noteq> CHR 0x0A) s
           in (if rest = [] then line else strip_cr line) # str_lines (tl rest))"
  by pat_completeness auto

termination
proof (relation "measure length")
  fix s line rest :: string
  assume "s \<noteq> []" "rest = dropWhile (\<lambda>c. c \<noteq> CHR 0x0A) s"
  then show "(tl rest, s) \<in> measure length" using length_dropWhile_le [of "\<lambda>c. c \<noteq> CHR 0x0A" s] by (cases s) auto
qed simp

declare str_lines.simps [simp del]

definition split_space :: "string \<Rightarrow> (string \<times> string) option" where
  "split_space s =
     (case dropWhile (\<lambda>c. c \<noteq> CHR '' '') s of [] \<Rightarrow> None | _ # rest \<Rightarrow> Some (takeWhile (\<lambda>c. c \<noteq> CHR '' '') s, rest))"

record summary =
  s_p50 :: "nat option"
  s_p99 :: "nat option"
  s_max :: "nat option"

definition quantile_key :: "string \<Rightarrow> string" where
  "quantile_key q = ''quantile='' @ [CHR 0x22] @ q @ [CHR 0x22]"

primrec summary_lines :: "string list \<Rightarrow> summary \<Rightarrow> summary option" where
  "summary_lines [] s = Some s"
| "summary_lines (line # ls) s =
     (case split_space line of
        None \<Rightarrow> None
      | Some (key, val) \<Rightarrow>
          (case parse_unsigned 64 val of
             None \<Rightarrow> None
           | Some v \<Rightarrow>
               summary_lines ls
                 (if sublist (quantile_key ''0.5'') key then s\<lparr>s_p50 := Some v\<rparr>
                  else if sublist (quantile_key ''0.99'') key then s\<lparr>s_p99 := Some v\<rparr>
                  else if suffix ''_process_latency_us_max'' key then s\<lparr>s_max := Some v\<rparr>
                  else s)))"

text \<open>The micro sign, in UTF-8.\<close>

definition micros :: "nat \<Rightarrow> string" where
  "micros v = show_nat v @ [CHR 0xC2, CHR 0xB5] @ ''s''"

definition parse_metrics_summary :: "string \<Rightarrow> string option" where
  "parse_metrics_summary exported =
     (case summary_lines (str_lines exported) \<lparr>s_p50 = None, s_p99 = None, s_max = None\<rparr> of
        None \<Rightarrow> None
      | Some s \<Rightarrow>
          (case (s_p50 s, s_p99 s, s_max s) of
             (Some p50, Some p99, Some mx) \<Rightarrow>
               Some (''latency p50='' @ micros p50 @ '' p99='' @ micros p99 @ '' max='' @ micros mx)
           | _ \<Rightarrow> None))"

section \<open>Arguments written and read\<close>

definition flag :: "bool \<Rightarrow> string \<Rightarrow> string list" where
  "flag b w = (if b then [w] else [])"

definition render_args :: "('a \<Rightarrow> string) \<Rightarrow> 'a Args \<Rightarrow> string list" where
  "render_args sh a =
     flag (self_test a) ''--self-test'' @ flag (hot_reload_test a) ''--hot-reload-test'' @
     flag (live_rebuild_test a) ''--live-rebuild-test'' @ flag (engine_live_rebuild_test a) ''--engine-live-rebuild-test'' @
     flag (gateway_live_reload_test a) ''--gateway-live-reload-test'' @ flag (diagnose a) ''--diagnose'' @
     flag (server_engine a) ''--server-engine'' @ flag (show_help a) ''--help'' @
     [''--ws-addr'', sh (ws_addr a), ''--api-addr'', sh (api_addr a), ''--metrics-addr'', sh (metrics_addr a)] @
     (case load_file a of None \<Rightarrow> [] | Some p \<Rightarrow> [''--load-file'', p])"

lemma parse_flag:
  "\<not> self_test a \<Longrightarrow> parse_args_loop pr (flag b ''--self-test'' @ iter) a = parse_args_loop pr iter (a\<lparr>self_test := b\<rparr>)"
  "\<not> hot_reload_test a \<Longrightarrow> parse_args_loop pr (flag b ''--hot-reload-test'' @ iter) a = parse_args_loop pr iter (a\<lparr>hot_reload_test := b\<rparr>)"
  "\<not> live_rebuild_test a \<Longrightarrow> parse_args_loop pr (flag b ''--live-rebuild-test'' @ iter) a = parse_args_loop pr iter (a\<lparr>live_rebuild_test := b\<rparr>)"
  "\<not> engine_live_rebuild_test a \<Longrightarrow>
     parse_args_loop pr (flag b ''--engine-live-rebuild-test'' @ iter) a = parse_args_loop pr iter (a\<lparr>engine_live_rebuild_test := b\<rparr>)"
  "\<not> gateway_live_reload_test a \<Longrightarrow>
     parse_args_loop pr (flag b ''--gateway-live-reload-test'' @ iter) a = parse_args_loop pr iter (a\<lparr>gateway_live_reload_test := b\<rparr>)"
  "\<not> diagnose a \<Longrightarrow> parse_args_loop pr (flag b ''--diagnose'' @ iter) a = parse_args_loop pr iter (a\<lparr>diagnose := b\<rparr>)"
  "\<not> server_engine a \<Longrightarrow> parse_args_loop pr (flag b ''--server-engine'' @ iter) a = parse_args_loop pr iter (a\<lparr>server_engine := b\<rparr>)"
  "\<not> show_help a \<Longrightarrow> parse_args_loop pr (flag b ''--help'' @ iter) a = parse_args_loop pr iter (a\<lparr>show_help := b\<rparr>)"
  by (cases b; cases a; simp add: flag_def)+

text \<open>
  The command line is read completely: where the default addresses parse and rendered addresses parse
  back, every setting of the arguments, written out as flags and values, is read back exactly.\<close>

theorem parse_args_roundtrip:
  assumes "\<And>x. parse (sh x) = Ok x" "Args_default parse = Some dflt"
  shows "parse_args parse (render_args sh a) = Some (Ok a)"
proof -
  have off: "\<not> self_test dflt" "\<not> hot_reload_test dflt" "\<not> live_rebuild_test dflt" "\<not> engine_live_rebuild_test dflt"
      "\<not> gateway_live_reload_test dflt" "\<not> diagnose dflt" "\<not> server_engine dflt" "\<not> show_help dflt" "load_file dflt = None"
    using assms(2) by (auto simp: Args_default_def split: sum.splits)
  show ?thesis
    by (cases dflt; cases a; cases "load_file a")
      (use off assms in \<open>simp_all add: parse_args_def render_args_def parse_flag addr_value_def\<close>)
qed

theorem parse_args_roundtrip_witness:
  "\<exists>a. self_test a \<and> ws_addr a = ''127.0.0.1:7'' \<and> parse_args Ok (render_args id a) = Some (Ok a)"
proof -
  let ?a = "\<lparr>self_test = True, hot_reload_test = False, live_rebuild_test = False, engine_live_rebuild_test = False,
    gateway_live_reload_test = False, diagnose = False, server_engine = False, show_help = False, ws_addr = ''127.0.0.1:7'',
    api_addr = ''127.0.0.1:8'', metrics_addr = ''127.0.0.1:9'', load_file = Some ''a.wav''\<rparr>"
  have "\<exists>d. Args_default Ok = Some d" by (simp add: Args_default_def)
  then have "parse_args Ok (render_args id ?a) = Some (Ok ?a)" using parse_args_roundtrip [of Ok id _ ?a] by auto
  then show ?thesis by (intro exI [of _ ?a]) simp
qed

section \<open>The summary never appears\<close>

lemma strip_cr_append: "y \<noteq> [] \<Longrightarrow> last y \<noteq> CHR 0x0D \<Longrightarrow> \<exists>z. strip_cr (y @ x) = y @ z"
  by (cases "x = []") (auto simp: strip_cr_def butlast_append)

lemma str_lines_first:
  assumes "CHR 0x0A \<notin> set y" "y \<noteq> []" "last y \<noteq> CHR 0x0D"
  shows "\<exists>x ls. str_lines (y @ t) = (y @ x) # ls"
proof -
  let ?w = "takeWhile (\<lambda>c. c \<noteq> CHR 0x0A) t"
  have "takeWhile (\<lambda>c. c \<noteq> CHR 0x0A) (y @ t) = y @ ?w" using assms(1) by (subst takeWhile_append2) auto
  moreover obtain z where "strip_cr (y @ ?w) = y @ z" using strip_cr_append [OF assms(2,3)] by blast
  ultimately show ?thesis using assms(2) by (subst str_lines.simps) (auto simp: Let_def)
qed

lemma str_lines_line:
  assumes "CHR 0x0A \<notin> set line" "line \<noteq> []" "last line \<noteq> CHR 0x0D"
  shows "str_lines (line @ CHR 0x0A # t) = line # str_lines t"
proof -
  have "takeWhile (\<lambda>c. c \<noteq> CHR 0x0A) (line @ CHR 0x0A # t) = line" "dropWhile (\<lambda>c. c \<noteq> CHR 0x0A) (line @ CHR 0x0A # t) = CHR 0x0A # t"
    using assms(1) by (auto simp: takeWhile_append dropWhile_append)
  then show ?thesis using assms(2,3) by (subst str_lines.simps) (simp add: Let_def strip_cr_def)
qed

lemma str_lines_Nil [simp]: "str_lines [] = []"
  by (simp add: str_lines.simps)

definition sample_line :: "string \<Rightarrow> u64 \<Rightarrow> string" where
  "sample_line key v = key @ '' '' @ show_word v"

lemma show_word_clean:
  "show_word (v :: u64) \<noteq> []" "CHR 0x0A \<notin> set (show_word v)" "last (show_word v) \<noteq> CHR 0x0D"
proof -
  show ne: "show_word v \<noteq> []" using show_nat_digits [of "unat v"] by (simp add: show_word_def)
  show "CHR 0x0A \<notin> set (show_word v)" unfolding show_word_def by (rule not_digit_in_show_nat) (simp add: is_digit_def)
  have "CHR 0x0D \<notin> set (show_word v)" unfolding show_word_def by (rule not_digit_in_show_nat) (simp add: is_digit_def)
  then show "last (show_word v) \<noteq> CHR 0x0D" using last_in_set [OF ne] by metis
qed

lemma str_lines_samples:
  assumes "\<forall>(k, v) \<in> set kvs. CHR 0x0A \<notin> set k"
  shows "str_lines (concat (map (\<lambda>(k, v). sample_line k v @ nl) kvs)) = map (\<lambda>(k, v). sample_line k v) kvs"
  using assms
proof (induction kvs)
  case (Cons kv kvs)
  obtain k v where kv: "kv = (k, v)" by fastforce
  have "str_lines (sample_line k v @ CHR 0x0A # t) = sample_line k v # str_lines t" for t
    by (rule str_lines_line) (use Cons.prems kv show_word_clean [of v] in \<open>auto simp: sample_line_def\<close>)
  then show ?case using Cons by (simp add: kv nl_def)
qed simp

definition note_sample :: "string \<Rightarrow> u64 \<Rightarrow> summary \<Rightarrow> summary" where
  "note_sample key v s =
     (if sublist (quantile_key ''0.5'') key then s\<lparr>s_p50 := Some (unat v)\<rparr>
      else if sublist (quantile_key ''0.99'') key then s\<lparr>s_p99 := Some (unat v)\<rparr>
      else if suffix ''_process_latency_us_max'' key then s\<lparr>s_max := Some (unat v)\<rparr> else s)"

lemma summary_sample:
  assumes "CHR '' '' \<notin> set key"
  shows "summary_lines (sample_line key v # ls) s = summary_lines ls (note_sample key v s)"
proof -
  have "takeWhile (\<lambda>c. c \<noteq> CHR '' '') (key @ '' '' @ show_word v) = key"
      "dropWhile (\<lambda>c. c \<noteq> CHR '' '') (key @ '' '' @ show_word v) = '' '' @ show_word v"
    using assms by (auto simp: takeWhile_append dropWhile_append)
  then have "split_space (sample_line key v) = Some (key, show_word v)" by (simp add: split_space_def sample_line_def)
  moreover have "parse_unsigned 64 (show_word v) = Some (unat v)"
    unfolding show_word_def by (rule parse_show_nat) (use unsigned_less [of v, where ?'a = nat] in simp)
  ultimately show ?thesis by (simp add: note_sample_def)
qed

text \<open>
  The latency summary never appears in the log: the text every recorder exports begins with a comment
  line, whose second word is no number, and the parser gives up at the first line it cannot read. From the
  same text without the comment lines it would read the summary.\<close>

theorem summary_never_logged:
  "parse_metrics_summary (export_prometheus rec) = None \<and>
   parse_metrics_summary (concat (map (\<lambda>line. line @ nl) (filter (\<lambda>line. hd line \<noteq> CHR ''#'')
     (export_lines (rec\<lparr>mr_prefix := ''sonicbrew''\<rparr>))))) =
     Some (''latency p50='' @ micros (unat (last_p50 rec)) @ '' p99='' @ micros (unat (last_p99 rec)) @
           '' max='' @ micros (unat (st_max (from_samples (mr_window rec)))))"
proof
  obtain t where t: "export_prometheus rec = ''# HELP '' @ t"
    by (simp add: export_prometheus_def export_lines_def Let_def)
  obtain x ls where lines: "str_lines (''# HELP '' @ t) = (''# HELP '' @ x) # ls"
    using str_lines_first [of "''# HELP ''" t] by auto
  have "split_space (''# HELP '' @ x) = Some (''#'', ''HELP '' @ x)" by (simp add: split_space_def)
  moreover have "parse_unsigned 64 (''HELP '' @ x) = None" by (simp add: parse_unsigned_def is_digit_def)
  ultimately show "parse_metrics_summary (export_prometheus rec) = None"
    unfolding parse_metrics_summary_def t lines by simp
  let ?p = "''sonicbrew_process_latency_us''"
  let ?st = "from_samples (mr_window rec)"
  let ?kvs = "[(?p @ quantile ''0.5'', last_p50 rec), (?p @ quantile ''0.99'', last_p99 rec), (?p @ ''_min'', st_min ?st),
     (?p @ ''_max'', st_max ?st), (?p @ ''_avg'', st_avg ?st), (''sonicbrew_xrun_total'', xrun_total rec)]"
  have body: "concat (map (\<lambda>line. line @ nl) (filter (\<lambda>line. hd line \<noteq> CHR ''#'') (export_lines (rec\<lparr>mr_prefix := ''sonicbrew''\<rparr>)))) =
      concat (map (\<lambda>(k, v). sample_line k v @ nl) ?kvs)"
    by (simp add: export_lines_def Let_def LatencyHistogram_snapshot_def sample_line_def)
  have "str_lines (concat (map (\<lambda>(k, v). sample_line k v @ nl) ?kvs)) = map (\<lambda>(k, v). sample_line k v) ?kvs"
    by (rule str_lines_samples) (simp add: quantile_def)
  moreover have keys: "note_sample (?p @ quantile ''0.5'') = (\<lambda>v. s_p50_update (\<lambda>_. Some (unat v)))"
      "note_sample (?p @ quantile ''0.99'') = (\<lambda>v. s_p99_update (\<lambda>_. Some (unat v)))"
      "note_sample (?p @ ''_min'') = (\<lambda>v s. s)" "note_sample (?p @ ''_max'') = (\<lambda>v. s_max_update (\<lambda>_. Some (unat v)))"
      "note_sample (?p @ ''_avg'') = (\<lambda>v s. s)" "note_sample ''sonicbrew_xrun_total'' = (\<lambda>v s. s)"
    by (simp_all add: note_sample_def [abs_def] quantile_def quantile_key_def sublist_Cons_right suffix_def)
  ultimately show "parse_metrics_summary (concat (map (\<lambda>line. line @ nl) (filter (\<lambda>line. hd line \<noteq> CHR ''#'')
     (export_lines (rec\<lparr>mr_prefix := ''sonicbrew''\<rparr>))))) =
     Some (''latency p50='' @ micros (unat (last_p50 rec)) @ '' p99='' @ micros (unat (last_p99 rec)) @
           '' max='' @ micros (unat (st_max ?st)))"
    unfolding body parse_metrics_summary_def
    by (simp only: list.map prod.case)
       ((subst summary_sample, simp add: quantile_def, simp only: keys)+, simp)
qed

section \<open>What the loops record\<close>

lemma run_rt_loop_recorder:
  "fst (snd (fold (rt_cycle gops ctx_new) lats (g, rec, pos))) = fold record_cycle lats rec \<and>
   snd (snd (fold (rt_cycle gops ctx_new) lats (g, rec, pos))) = pos + of_nat (NUM_FRAMES * length lats)"
  by (induction lats arbitrary: g rec pos) (auto simp: rt_cycle_def Let_def case_prod_unfold algebra_simps)

lemma run_engine_loop_recorder:
  "fst (snd (fold (engine_cycle gops ctx_new) lats (g, rec, pos))) = fold record_cycle lats rec \<and>
   snd (snd (fold (engine_cycle gops ctx_new) lats (g, rec, pos))) = pos + of_nat (NUM_FRAMES * length lats)"
  by (induction lats arbitrary: g rec pos) (auto simp: engine_cycle_def algebra_simps)

lemma record_cycle_only_window:
  "last_p50 (fold record_cycle lats rec) = last_p50 rec \<and> last_p99 (fold record_cycle lats rec) = last_p99 rec \<and>
   xrun_total (fold record_cycle lats rec) = xrun_total rec"
  by (induction lats arbitrary: rec) (simp_all add: record_cycle_def)

text \<open>
  The servers export zero quantiles and zero xruns. Both real-time loops record every cycle's latency in
  the window and advance the position by one block per cycle, whatever the graph does; nothing records
  percentiles or xruns, so the exported text, after any number of cycles and of failed flushes, has 0 for
  both quantiles and for the xrun counter.\<close>

theorem exported_quantiles_zero:
  assumes "run_rt_loop gops ctx_new lats g MetricsRecorder_new = (g', rec, pos) \<or>
    run_engine_loop gops2 ctx_new2 lats eng MetricsRecorder_new = (eng', rec, pos)"
  shows "rec = fold record_cycle lats MetricsRecorder_new \<and> pos = of_nat (256 * length lats) \<and>
    export_lines rec ! 2 = ''sonicbrew_process_latency_us'' @ quantile ''0.5'' @ '' 0'' \<and>
    export_lines rec ! 3 = ''sonicbrew_process_latency_us'' @ quantile ''0.99'' @ '' 0'' \<and>
    export_lines rec ! 9 = ''sonicbrew_xrun_total 0''"
proof -
  have rec: "rec = fold record_cycle lats MetricsRecorder_new" and pos: "pos = of_nat (256 * length lats)"
    using assms run_rt_loop_recorder [of gops ctx_new lats g MetricsRecorder_new 0]
      run_engine_loop_recorder [of gops2 ctx_new2 lats eng MetricsRecorder_new 0]
    by (auto simp: run_rt_loop_def run_engine_loop_def NUM_FRAMES_def)
  have prefix: "mr_prefix (fold record_cycle lats r) = mr_prefix r" for r
    by (induction lats arbitrary: r) (simp_all add: record_cycle_def)
  have zero: "show_word (0 :: u64) = ''0''" by code_simp
  have "last_p50 rec = 0 \<and> last_p99 rec = 0 \<and> xrun_total rec = 0" "mr_prefix rec = ''sonicbrew''"
    unfolding rec using record_cycle_only_window [of lats MetricsRecorder_new]
    by (simp_all add: prefix MetricsRecorder_new_def MetricsRecorder_with_prefix_def)
  then show ?thesis using rec pos by (simp add: export_lines_def Let_def zero)
qed

text \<open>A graph that always fails to flush.\<close>

definition broken_graph :: "(unit, unit, u64) graph_ops" where
  "broken_graph =
     \<lparr>g_new = (), g_add_node = \<lambda>n g. (0, g), g_add_sink = \<lambda>n g. (0, g), g_link = \<lambda>a b g. Ok g, g_compile = Ok,
      g_process_cycle = \<lambda>c g. (Some ''no cycle'', c, g), g_flush_sinks = \<lambda>g. ((0, Some ''ring full''), g)\<rparr>"

theorem exported_quantiles_zero_witness:
  "export_lines (fst (snd (run_rt_loop broken_graph (\<lambda>n p r. p) [150, 170] () MetricsRecorder_new))) ! 9 = ''sonicbrew_xrun_total 0''"
proof -
  obtain g rec pos where run: "run_rt_loop broken_graph (\<lambda>n p r. p) [150, 170] () MetricsRecorder_new = (g, rec, pos)"
    by (rule prod_cases3)
  from exported_quantiles_zero [OF disjI1, OF run] show ?thesis unfolding run fst_conv snd_conv by blast
qed

end
