(* ===== verification/Gateway_Bridge.thy ===== *)
theory Gateway_Bridge
  imports Audio_Engine
begin

text \<open>
  The bridge between a gateway's worker and a graph that is rebuilt (\<open>audio-engine/src/bridge.rs\<close>). The ring
  buffers are another crate's: a ring is a handle into a heap \<open>'h\<close>, shared by its producer and its consumer,
  and the operations on it are a parameter with the laws of a bounded queue. The mutexes of the bridge are held
  for one operation each.
\<close>

section \<open>Rings\<close>

record ('h, 'r, 'f) ring_ops =
  r_new :: "nat \<Rightarrow> 'h \<Rightarrow> 'r \<times> 'h"
  r_push :: "'r \<Rightarrow> 'f \<Rightarrow> 'h \<Rightarrow> ('f + unit) \<times> 'h"
  r_pop :: "'r \<Rightarrow> 'h \<Rightarrow> 'f option \<times> 'h"

text \<open>
  What a ring holds (\<open>None\<close>: there is no such ring) and how much it can hold. A new ring is empty and none of
  the present ones; a push appends, or hands the frame back when the ring is full; a pop takes the oldest
  frame; both leave the other rings alone.
\<close>

definition ring_laws :: "('h, 'r, 'f) ring_ops \<Rightarrow> ('h \<Rightarrow> 'r \<Rightarrow> (nat \<times> 'f list) option) \<Rightarrow> bool" where
  "ring_laws rops view \<longleftrightarrow>
     (\<forall>n h r h'. r_new rops n h = (r, h') \<longrightarrow> view h r = None \<and> view h' = (view h)(r \<mapsto> (n, []))) \<and>
     (\<forall>r f h n fs. view h r = Some (n, fs) \<longrightarrow>
        (if length fs < n then fst (r_push rops r f h) = Ok () \<and> view (snd (r_push rops r f h)) = (view h)(r \<mapsto> (n, fs @ [f]))
         else fst (r_push rops r f h) = Err f \<and> view (snd (r_push rops r f h)) = view h)) \<and>
     (\<forall>r h n fs. view h r = Some (n, fs) \<longrightarrow>
        fst (r_pop rops r h) = (case fs of [] \<Rightarrow> None | f # _ \<Rightarrow> Some f) \<and>
        view (snd (r_pop rops r h)) = (view h)(r \<mapsto> (n, tl fs)))"

section \<open>The bridge\<close>

definition DEFAULT_CAPACITY :: nat where "DEFAULT_CAPACITY = 128"

record 'r GatewayBridge =
  gb_channels :: u16
  gb_sample_rate :: u32
  gb_num_frames :: nat
  capacity :: nat
  inbound :: "'r option"
  outbound :: "'r option"

datatype 'r ring_node = RingSource 'r u16 u32 nat | RingSink 'r u16 u32 nat

definition GatewayBridge_with_capacity :: "u16 \<Rightarrow> u32 \<Rightarrow> nat \<Rightarrow> nat \<Rightarrow> 'r GatewayBridge" where
  "GatewayBridge_with_capacity channels sample_rate num_frames cap =
     \<lparr>gb_channels = channels, gb_sample_rate = sample_rate, gb_num_frames = num_frames, capacity = cap,
      inbound = None, outbound = None\<rparr>"

definition GatewayBridge_new :: "u16 \<Rightarrow> u32 \<Rightarrow> nat \<Rightarrow> 'r GatewayBridge" where
  "GatewayBridge_new channels sample_rate num_frames =
     GatewayBridge_with_capacity channels sample_rate num_frames DEFAULT_CAPACITY"

definition make_source_node ::
  "('h, 'r, 'f) ring_ops \<Rightarrow> 'r GatewayBridge \<Rightarrow> 'h \<Rightarrow> 'r ring_node BuiltNode \<times> 'r GatewayBridge \<times> 'h" where
  "make_source_node rops br h =
     (let (r, h) = r_new rops (capacity br) h
      in (Plain (RingSource r (gb_channels br) (gb_sample_rate br) (gb_num_frames br)), br\<lparr>inbound := Some r\<rparr>, h))"

definition make_sink_node ::
  "('h, 'r, 'f) ring_ops \<Rightarrow> 'r GatewayBridge \<Rightarrow> 'h \<Rightarrow> 'r ring_node BuiltNode \<times> 'r GatewayBridge \<times> 'h" where
  "make_sink_node rops br h =
     (let (r, h) = r_new rops (capacity br) h
      in (Sink (RingSink r (gb_channels br) (gb_sample_rate br) (gb_num_frames br)), br\<lparr>outbound := Some r\<rparr>, h))"

definition push_inbound :: "('h, 'r, 'f) ring_ops \<Rightarrow> 'f \<Rightarrow> 'r GatewayBridge \<Rightarrow> 'h \<Rightarrow> ('f + unit) \<times> 'h" where
  "push_inbound rops frame br h = (case inbound br of Some p \<Rightarrow> r_push rops p frame h | None \<Rightarrow> (Err frame, h))"

definition pop_outbound :: "('h, 'r, 'f) ring_ops \<Rightarrow> 'r GatewayBridge \<Rightarrow> 'h \<Rightarrow> 'f option \<times> 'h" where
  "pop_outbound rops br h = (case outbound br of Some c \<Rightarrow> r_pop rops c h | None \<Rightarrow> (None, h))"

section \<open>The bridge as a pair of queues\<close>

text \<open>
  What can happen to a bridge and its rings: the factory makes nodes, the worker pushes and pops, and the nodes
  of this and of earlier graphs pop and push their own rings.
\<close>

datatype ('r, 'f) bridge_op =
    MakeSource | MakeSink | PushInbound 'f | PopOutbound | SourcePops 'r | SinkPushes 'r 'f

datatype 'f answer = Made | Accepted | Refused 'f | Popped "'f option"

definition push_answer :: "('f + unit) \<Rightarrow> 'f answer" where
  "push_answer r = (case r of Inl f \<Rightarrow> Refused f | Inr _ \<Rightarrow> Accepted)"

fun bridge_step ::
  "('h, 'r, 'f) ring_ops \<Rightarrow> ('r, 'f) bridge_op \<Rightarrow> 'r GatewayBridge \<times> 'h \<Rightarrow> 'f answer \<times> 'r GatewayBridge \<times> 'h" where
  "bridge_step rops MakeSource (br, h) = (Made, snd (make_source_node rops br h))"
| "bridge_step rops MakeSink (br, h) = (Made, snd (make_sink_node rops br h))"
| "bridge_step rops (PushInbound f) (br, h) = (let (r, h) = push_inbound rops f br h in (push_answer r, br, h))"
| "bridge_step rops PopOutbound (br, h) = (let (r, h) = pop_outbound rops br h in (Popped r, br, h))"
| "bridge_step rops (SourcePops r) (br, h) = (let (x, h) = r_pop rops r h in (Popped x, br, h))"
| "bridge_step rops (SinkPushes r f) (br, h) = (let (x, h) = r_push rops r f h in (push_answer x, br, h))"

text \<open>
  The specification: one bounded queue each way, empty again when a node is made; the nodes of earlier graphs
  have no effect on them.
\<close>

record 'f queues =
  q_in :: "'f list option"
  q_out :: "'f list option"

definition q_pop :: "'f list option \<Rightarrow> 'f option \<times> 'f list option" where
  "q_pop q = (case q of Some (f # fs) \<Rightarrow> (Some f, Some fs) | _ \<Rightarrow> (None, q))"

definition q_push :: "nat \<Rightarrow> 'f \<Rightarrow> 'f list option \<Rightarrow> 'f answer \<times> 'f list option" where
  "q_push n f q = (case q of Some fs \<Rightarrow> if length fs < n then (Accepted, Some (fs @ [f])) else (Refused f, q) | None \<Rightarrow> (Refused f, q))"

fun spec_step :: "nat \<Rightarrow> bool \<Rightarrow> ('r, 'f) bridge_op \<Rightarrow> 'f queues \<Rightarrow> 'f answer option \<times> 'f queues" where
  "spec_step n live MakeSource q = (Some Made, q\<lparr>q_in := Some []\<rparr>)"
| "spec_step n live MakeSink q = (Some Made, q\<lparr>q_out := Some []\<rparr>)"
| "spec_step n live (PushInbound f) q = (let (a, fs) = q_push n f (q_in q) in (Some a, q\<lparr>q_in := fs\<rparr>))"
| "spec_step n live PopOutbound q = (let (x, fs) = q_pop (q_out q) in (Some (Popped x), q\<lparr>q_out := fs\<rparr>))"
| "spec_step n live (SourcePops r) q =
     (if live then let (x, fs) = q_pop (q_in q) in (Some (Popped x), q\<lparr>q_in := fs\<rparr>) else (None, q))"
| "spec_step n live (SinkPushes r f) q =
     (if live then let (a, fs) = q_push n f (q_out q) in (Some a, q\<lparr>q_out := fs\<rparr>) else (None, q))"

definition held_by :: "('h \<Rightarrow> 'r \<Rightarrow> (nat \<times> 'f list) option) \<Rightarrow> 'h \<Rightarrow> 'r option \<Rightarrow> 'f list option" where
  "held_by view h r = (case r of None \<Rightarrow> None | Some r \<Rightarrow> map_option snd (view h r))"

definition abs_queues :: "('h \<Rightarrow> 'r \<Rightarrow> (nat \<times> 'f list) option) \<Rightarrow> 'r GatewayBridge \<times> 'h \<Rightarrow> 'f queues" where
  "abs_queues view = (\<lambda>(br, h). \<lparr>q_in = held_by view h (inbound br), q_out = held_by view h (outbound br)\<rparr>)"

text \<open>Whether an operation is one of the nodes the bridge made last, and whether its ring exists.\<close>

fun of_newest :: "('r, 'f) bridge_op \<Rightarrow> 'r GatewayBridge \<Rightarrow> bool" where
  "of_newest (SourcePops r) br = (inbound br = Some r)"
| "of_newest (SinkPushes r f) br = (outbound br = Some r)"
| "of_newest _ br = True"

fun op_ok :: "('h \<Rightarrow> 'r \<Rightarrow> (nat \<times> 'f list) option) \<Rightarrow> ('r, 'f) bridge_op \<Rightarrow> 'r GatewayBridge \<times> 'h \<Rightarrow> bool" where
  "op_ok view (SourcePops r) (br, h) = (view h r \<noteq> None \<and> outbound br \<noteq> Some r)"
| "op_ok view (SinkPushes r f) (br, h) = (view h r \<noteq> None \<and> inbound br \<noteq> Some r)"
| "op_ok view _ s = True"

definition ring_present :: "('h \<Rightarrow> 'r \<Rightarrow> (nat \<times> 'f list) option) \<Rightarrow> 'h \<Rightarrow> nat \<Rightarrow> 'r option \<Rightarrow> bool" where
  "ring_present view h n r \<longleftrightarrow> (\<forall>x. r = Some x \<longrightarrow> (\<exists>fs. view h x = Some (n, fs)))"

definition bridge_ok :: "('h \<Rightarrow> 'r \<Rightarrow> (nat \<times> 'f list) option) \<Rightarrow> 'r GatewayBridge \<times> 'h \<Rightarrow> bool" where
  "bridge_ok view = (\<lambda>(br, h). ring_present view h (capacity br) (inbound br) \<and> ring_present view h (capacity br) (outbound br) \<and>
     (inbound br = None \<or> inbound br \<noteq> outbound br))"

text \<open>A run of operations, with the answers of the code and those the queues promise.\<close>

primrec bridge_run where
  "bridge_run rops [] s = ([], s)"
| "bridge_run rops (op # ops) s = (let (a, s) = bridge_step rops op s; (as, s) = bridge_run rops ops s in (a # as, s))"

primrec bridge_run_ok where
  "bridge_run_ok rops view [] s = True"
| "bridge_run_ok rops view (op # ops) s = (op_ok view op s \<and> bridge_run_ok rops view ops (snd (bridge_step rops op s)))"

primrec spec_run where
  "spec_run rops [] s q = ([], q)"
| "spec_run rops (op # ops) s q =
     (let (a, q) = spec_step (capacity (fst s)) (of_newest op (fst s)) op q;
          (as, q) = spec_run rops ops (snd (bridge_step rops op s)) q
      in (a # as, q))"

lemma ring_lawsD:
  assumes "ring_laws rops view"
  shows "r_new rops n h = (r, h') \<Longrightarrow> view h r = None \<and> view h' = (view h)(r \<mapsto> (n, []))"
    "view h r = Some (n, fs) \<Longrightarrow> r_push rops r f h = (x, h') \<Longrightarrow>
      if length fs < n then x = Ok () \<and> view h' = (view h)(r \<mapsto> (n, fs @ [f])) else x = Err f \<and> view h' = view h"
    "view h r = Some (n, fs) \<Longrightarrow> r_pop rops r h = (y, h') \<Longrightarrow>
      y = (case fs of [] \<Rightarrow> None | f # _ \<Rightarrow> Some f) \<and> view h' = (view h)(r \<mapsto> (n, tl fs))"
  using assms unfolding ring_laws_def by (metis, metis fst_conv snd_conv, metis fst_conv snd_conv)

lemma step_make:
  assumes "ring_laws rops view" "bridge_ok view (br, h)" "r_new rops (capacity br) h = (r, h')"
  shows "bridge_ok view (br\<lparr>inbound := Some r\<rparr>, h')" "bridge_ok view (br\<lparr>outbound := Some r\<rparr>, h')"
    "held_by view h' (Some r) = Some []"
    "held_by view h' (inbound br) = held_by view h (inbound br)" "held_by view h' (outbound br) = held_by view h (outbound br)"
proof -
  note new = ring_lawsD(1) [OF assms(1,3)]
  have other: "inbound br \<noteq> Some r" "outbound br \<noteq> Some r"
    using assms(2) new by (auto simp: bridge_ok_def ring_present_def)
  show "bridge_ok view (br\<lparr>inbound := Some r\<rparr>, h')" "bridge_ok view (br\<lparr>outbound := Some r\<rparr>, h')"
    using assms(2) new other by (auto simp: bridge_ok_def ring_present_def)
  show "held_by view h' (Some r) = Some []" using new by (simp add: held_by_def)
  show "held_by view h' (inbound br) = held_by view h (inbound br)" "held_by view h' (outbound br) = held_by view h (outbound br)"
    using other new by (auto simp: held_by_def split: option.splits)
qed

text \<open>Changing one ring, which is none, the inbound one or the outbound one of the bridge.\<close>

lemma step_ring:
  assumes "bridge_ok view (br, h)" "view h r = Some (n, fs)" "view h' = (view h)(r \<mapsto> (n, fs'))"
  shows "bridge_ok view (br, h')"
    "held_by view h' (inbound br) = (if inbound br = Some r then Some fs' else held_by view h (inbound br))"
    "held_by view h' (outbound br) = (if outbound br = Some r then Some fs' else held_by view h (outbound br))"
  using assms by (auto simp: bridge_ok_def ring_present_def held_by_def split: option.splits)

lemma step_pop:
  assumes "ring_laws rops view" "bridge_ok view (br, h)" "view h r = Some (n, fs)" "r_pop rops r h = (x, h')"
  shows "bridge_ok view (br, h')" "(x, Some (tl fs)) = q_pop (Some fs)"
    "held_by view h' (inbound br) = (if inbound br = Some r then Some (tl fs) else held_by view h (inbound br))"
    "held_by view h' (outbound br) = (if outbound br = Some r then Some (tl fs) else held_by view h (outbound br))"
proof -
  note pop = ring_lawsD(3) [OF assms(1,3,4)]
  note step_ring [OF assms(2,3), of h' "tl fs"]
  with pop show "bridge_ok view (br, h')" 
    "held_by view h' (inbound br) = (if inbound br = Some r then Some (tl fs) else held_by view h (inbound br))"
    "held_by view h' (outbound br) = (if outbound br = Some r then Some (tl fs) else held_by view h (outbound br))" by blast+
  show "(x, Some (tl fs)) = q_pop (Some fs)" using pop by (cases fs) (simp_all add: q_pop_def)
qed

lemma step_push:
  assumes "ring_laws rops view" "bridge_ok view (br, h)" "view h r = Some (n, fs)" "r_push rops r f h = (x, h')"
  shows "\<exists>fs'. bridge_ok view (br, h') \<and> (push_answer x, Some fs') = q_push n f (Some fs) \<and>
    held_by view h' (inbound br) = (if inbound br = Some r then Some fs' else held_by view h (inbound br)) \<and>
    held_by view h' (outbound br) = (if outbound br = Some r then Some fs' else held_by view h (outbound br))"
proof (cases "length fs < n")
  case True
  then have push: "x = Ok ()" "view h' = (view h)(r \<mapsto> (n, fs @ [f]))" using ring_lawsD(2) [OF assms(1,3,4)] by simp_all
  then show ?thesis using step_ring [OF assms(2,3) push(2)] True by (auto simp: q_push_def push_answer_def)
next
  case False
  then have push: "x = Err f" "view h' = view h" using ring_lawsD(2) [OF assms(1,3,4)] by simp_all
  then have "view h' = (view h)(r \<mapsto> (n, fs))" using assms(3) by (auto intro!: ext)
  from step_ring [OF assms(2,3) this] push False show ?thesis by (auto simp: q_push_def push_answer_def)
qed

lemma bridge_step_refines:
  assumes "ring_laws rops view" "bridge_ok view s" "op_ok view op s" "bridge_step rops op s = (a, s')"
    "spec_step (capacity (fst s)) (of_newest op (fst s)) op (abs_queues view s) = (b, q)"
  shows "bridge_ok view s' \<and> abs_queues view s' = q \<and> (b = None \<or> b = Some a)"
proof -
  obtain br h where s: "s = (br, h)" by fastforce
  have ring: "\<exists>fs. view h r = Some (capacity br, fs)" if "inbound br = Some r \<or> outbound br = Some r" for r
    using assms(2) that by (auto simp: s bridge_ok_def ring_present_def)
  show ?thesis
  proof (cases op)
    case MakeSource
    obtain r h' where r: "r_new rops (capacity br) h = (r, h')" by fastforce
    show ?thesis using assms(4,5) step_make [OF assms(1) assms(2) [unfolded s] r] MakeSource
      by (auto simp: s make_source_node_def r abs_queues_def)
  next
    case MakeSink
    obtain r h' where r: "r_new rops (capacity br) h = (r, h')" by fastforce
    show ?thesis using assms(4,5) step_make [OF assms(1) assms(2) [unfolded s] r] MakeSink
      by (auto simp: s make_sink_node_def r abs_queues_def)
  next
    case (PushInbound f)
    show ?thesis
    proof (cases "inbound br")
      case None
      then show ?thesis using assms PushInbound
        by (auto simp: s push_inbound_def abs_queues_def held_by_def q_push_def push_answer_def)
    next
      case (Some r)
      obtain fs where fs: "view h r = Some (capacity br, fs)" using ring Some by blast
      obtain x h' where x: "r_push rops r f h = (x, h')" by fastforce
      have "outbound br \<noteq> Some r" using assms(2) Some by (auto simp: s bridge_ok_def)
      then show ?thesis
        using assms(4,5) PushInbound Some step_push [OF assms(1) assms(2) [unfolded s] fs x] fs
        by (auto simp: s push_inbound_def abs_queues_def x held_by_def split: prod.splits)
    qed
  next
    case PopOutbound
    show ?thesis
    proof (cases "outbound br")
      case None
      then show ?thesis using assms PopOutbound
        by (auto simp: s pop_outbound_def abs_queues_def held_by_def q_pop_def)
    next
      case (Some r)
      obtain fs where fs: "view h r = Some (capacity br, fs)" using ring Some by blast
      obtain x h' where x: "r_pop rops r h = (x, h')" by fastforce
      have "inbound br \<noteq> Some r" using assms(2) Some by (auto simp: s bridge_ok_def)
      then show ?thesis
        using assms(4,5) PopOutbound Some step_pop [OF assms(1) assms(2) [unfolded s] fs x] fs
        by (auto simp: s pop_outbound_def abs_queues_def x held_by_def split: prod.splits)
    qed
  next
    case (SourcePops r)
    obtain n fs where fs: "view h r = Some (n, fs)" using assms(3) by (auto simp: s SourcePops)
    obtain x h' where x: "r_pop rops r h = (x, h')" by fastforce
    show ?thesis
      using assms(3-5) SourcePops step_pop [OF assms(1) assms(2) [unfolded s] fs x] fs
      by (auto simp: s abs_queues_def x held_by_def split: prod.splits if_splits)
  next
    case (SinkPushes r f)
    obtain n fs where fs: "view h r = Some (n, fs)" using assms(3) by (auto simp: s SinkPushes)
    obtain x h' where x: "r_push rops r f h = (x, h')" by fastforce
    have "outbound br = Some r \<Longrightarrow> n = capacity br" using ring [of r] fs by auto
    then show ?thesis
      using assms(3-5) SinkPushes step_push [OF assms(1) assms(2) [unfolded s] fs x] fs
      by (auto simp: s abs_queues_def x held_by_def split: prod.splits if_splits)
  qed
qed

text \<open>
  C8: The bridge is a pair of bounded queues that survives rebuilds. Over any sequence of operations of the
  factory, of the gateway's worker and of the nodes of this and earlier graphs, the worker and the newest nodes
  get exactly the answers of one first-in first-out queue each way, which starts empty when its node is made
  and refuses a frame, handing it back, when it is full or has no node; nodes of earlier graphs, which
  may still run, cannot disturb them.\<close>

theorem bridge_refines_queues:
  assumes "ring_laws rops view" "bridge_ok view s" "bridge_run_ok rops view ops s"
    "bridge_run rops ops s = (as, s')" "spec_run rops ops s (abs_queues view s) = (bs, q)"
  shows "list_all2 (\<lambda>a b. b = None \<or> b = Some a) as bs \<and> abs_queues view s' = q"
  using assms(2-5)
proof (induction ops arbitrary: s as bs)
  case (Cons op ops)
  obtain a s1 where a: "bridge_step rops op s = (a, s1)" by (cases "bridge_step rops op s") blast
  obtain b q1 where b: "spec_step (capacity (fst s)) (of_newest op (fst s)) op (abs_queues view s) = (b, q1)" by fastforce
  have "op_ok view op s" using Cons.prems(2) by simp
  note step = bridge_step_refines [OF assms(1) Cons.prems(1) this a b]
  obtain as1 where as1: "bridge_run rops ops s1 = (as1, s')" "as = a # as1"
    using Cons.prems(3) a by (auto split: prod.splits)
  obtain bs1 where bs1: "spec_run rops ops s1 (abs_queues view s1) = (bs1, q)" "bs = b # bs1"
    using Cons.prems(4) a b step by (auto split: prod.splits)
  show ?case using Cons.IH [OF _ _ as1(1) bs1(1)] Cons.prems(2) step a as1(2) bs1(2) by simp
qed auto

section \<open>Rings in a list\<close>

text \<open>Rings numbered in the order they were made.\<close>

definition list_rings :: "((nat \<times> 'f list) list, nat, 'f) ring_ops" where
  "list_rings =
     \<lparr>r_new = (\<lambda>n h. (length h, h @ [(n, [])])),
      r_push = (\<lambda>r f h. let (n, fs) = h ! r in if length fs < n then (Ok (), h[r := (n, fs @ [f])]) else (Err f, h)),
      r_pop = (\<lambda>r h. let (n, fs) = h ! r in (case fs of [] \<Rightarrow> None | f # _ \<Rightarrow> Some f, h[r := (n, tl fs)]))\<rparr>"

definition list_view :: "(nat \<times> 'f list) list \<Rightarrow> nat \<Rightarrow> (nat \<times> 'f list) option" where
  "list_view h r = (if r < length h then Some (h ! r) else None)"

lemma list_rings_laws: "ring_laws list_rings list_view"
  by (auto simp: ring_laws_def list_rings_def list_view_def nth_append nth_list_update split: if_splits intro!: ext)

text \<open>Frames pushed before and after a rebuild, with the first source still popping.\<close>

theorem bridge_refines_queues_witness:
  "fst (bridge_run list_rings [MakeSource, PushInbound ''a'', MakeSource, PushInbound ''b'', PushInbound ''c'', SourcePops 0, SourcePops 1]
     (GatewayBridge_with_capacity 2 48000 256 1, [])) =
   [Made, Accepted, Made, Accepted, Refused ''c'', Popped (Some ''a''), Popped (Some ''b'')]"
proof -
  let ?ops = "[MakeSource, PushInbound ''a'', MakeSource, PushInbound ''b'', PushInbound ''c'', SourcePops 0, SourcePops 1]"
  let ?s = "(GatewayBridge_with_capacity 2 48000 256 1, []) :: nat GatewayBridge \<times> (nat \<times> string list) list"
  have ok: "bridge_ok list_view ?s" by (simp add: bridge_ok_def ring_present_def GatewayBridge_with_capacity_def)
  note eval = list_rings_def make_source_node_def push_inbound_def GatewayBridge_with_capacity_def push_answer_def
  have run_ok: "bridge_run_ok list_rings list_view ?ops ?s" by (simp add: eval list_view_def)
  obtain as s' where run: "bridge_run list_rings ?ops ?s = (as, s')" by (cases "bridge_run list_rings ?ops ?s") blast
  obtain bs q where spec: "spec_run list_rings ?ops ?s (abs_queues list_view ?s) = (bs, q)" by fastforce
  have "bs = [Some Made, Some Accepted, Some Made, Some Accepted, Some (Refused ''c''), None, Some (Popped (Some ''b''))]"
    using spec by (auto simp: eval q_push_def q_pop_def abs_queues_def)
  moreover have "as ! 5 = Popped (Some ''a'')" using run by (auto simp: eval)
  ultimately show ?thesis
    using bridge_refines_queues [OF list_rings_laws ok run_ok run spec] run
    by (auto simp: list_all2_Cons2)
qed

end
