(* ===== verification/Server_Engine.thy ===== *)
theory Server_Engine
  imports Server_Main Node_Factory Control_Api Gateway_Bridge
begin

text \<open>
  The engine server (\<open>run_server_engine\<close> of \<open>sonicbrew/src/main.rs\<close>): restoring the saved preset, seeding the
  topology, the node factory over the gateway bridge and the shared registries, the wait for the first graph and
  the autosave of the preset. The store, the graph and the rings are the parameters of their theories; reading and
  writing the preset file, and its JSON form, are arguments.
\<close>

section \<open>Starting up\<close>

record FileBuffer =
  fb_samples :: "f32 list"
  fb_channels :: u16
  fb_sample_rate :: u32
  fb_looping :: bool

text \<open>The file of \<open>--load-file\<close>; the outer option is that of the decoding loop, which may not end.\<close>

definition decode_file :: "('d, 'e) codec \<Rightarrow> string option \<Rightarrow> FileBuffer option option" where
  "decode_file cdc path =
     (case path of
        None \<Rightarrow> Some None
      | Some path \<Rightarrow>
          map_option (\<lambda>r. case r of
              Inl e \<Rightarrow> None
            | Inr node \<Rightarrow>
                let (smps, channels, sample_rate, looping) = into_parts node
                in Some \<lparr>fb_samples = smps, fb_channels = channels, fb_sample_rate = sample_rate, fb_looping = looping\<rparr>)
            (load_file_source cdc path True))"

record 's Server =
  sv_store :: 's
  sv_kinds :: "NodeId \<rightharpoonup> string"
  sv_params :: "NodeId \<rightharpoonup> NodeParams"
  sv_files :: "NodeId \<rightharpoonup> FileBuffer"

definition controller_of :: "'s Server \<Rightarrow> 's GraphController" where
  "controller_of sv = new_with_registries (sv_store sv) (sv_kinds sv) (sv_params sv)"

text \<open>The preset file: absent, unreadable or read. A failed import goes on with what it left.\<close>

definition restore_preset :: "'s store_ops \<Rightarrow> (string + Preset) option \<Rightarrow> 's Server \<Rightarrow> 's Server" where
  "restore_preset st preset_file sv =
     (case preset_file of
        Some (Inr preset) \<Rightarrow>
          let (_, c) = import_preset st preset (controller_of sv)
          in sv\<lparr>sv_store := store c, sv_kinds := kinds c, sv_params := params c\<rparr>
      | _ \<Rightarrow> sv)"

definition file_id :: "TopologySnapshot \<Rightarrow> NodeId" where
  "file_id topo = (if t_nodes topo = [] then 2 else fold max (node_ids topo) 0 + 1)"

definition file_snapshot :: "NodeId \<Rightarrow> FileBuffer \<Rightarrow> NodeSnapshot" where
  "file_snapshot i buf =
     \<lparr>ns_id = i, ns_inputs = [], ns_outputs = [\<lparr>direction = Output, pm_channels = fb_channels buf, sample_format = SampleF32\<rparr>]\<rparr>"

definition seed_port :: "PortDir \<Rightarrow> PortMeta list" where
  "seed_port d = [\<lparr>direction = d, pm_channels = CHANNELS, sample_format = SampleF32\<rparr>]"

definition seed_mutations :: "TopologySnapshot \<Rightarrow> FileBuffer option \<Rightarrow> Mutation list" where
  "seed_mutations topo loaded =
     (if t_nodes topo = [] then
        [AddNode \<lparr>ns_id = 0, ns_inputs = [], ns_outputs = seed_port Output\<rparr>,
         AddNode \<lparr>ns_id = 1, ns_inputs = seed_port Input, ns_outputs = []\<rparr>] @
        (case loaded of None \<Rightarrow> [] | Some buf \<Rightarrow> [AddNode (file_snapshot (file_id topo) buf)]) @
        (if \<exists>buf \<in> set_option loaded. fb_channels buf = CHANNELS
         then [AddLink \<lparr>se_from = (file_id topo, 0), se_to = (1, 0)\<rparr>]
         else [AddLink \<lparr>se_from = (0, 0), se_to = (1, 0)\<rparr>])
      else (case loaded of None \<Rightarrow> [] | Some buf \<Rightarrow> [AddNode (file_snapshot (file_id topo) buf)]))"

text \<open>Mutations applied in order, up to the first that is refused.\<close>

primrec apply_all :: "'s store_ops \<Rightarrow> Mutation list \<Rightarrow> 's \<Rightarrow> (StoreError + unit) \<times> 's" where
  "apply_all st [] s = (Ok (), s)"
| "apply_all st (m # ms) s =
     (case apply_mutation st m s of (Inl e, s) \<Rightarrow> (Err e, s) | (Inr _, s) \<Rightarrow> apply_all st ms s)"

definition register_file :: "NodeId \<Rightarrow> FileBuffer option \<Rightarrow> 's Server \<Rightarrow> 's Server" where
  "register_file i loaded sv =
     (case loaded of
        None \<Rightarrow> sv
      | Some buf \<Rightarrow> sv\<lparr>sv_kinds := (sv_kinds sv)(i \<mapsto> ''file''), sv_files := (sv_files sv)(i \<mapsto> buf)\<rparr>)"

definition server_boot ::
  "'s store_ops \<Rightarrow> (string + Preset) option \<Rightarrow> FileBuffer option \<Rightarrow> 's \<Rightarrow> (StoreError + unit) \<times> 's Server" where
  "server_boot st preset_file loaded s =
     (let sv = restore_preset st preset_file \<lparr>sv_store = s, sv_kinds = Map.empty, sv_params = Map.empty, sv_files = Map.empty\<rparr>;
          topo = get_topology st (sv_store sv);
          (r, s) = apply_all st (seed_mutations topo loaded) (sv_store sv);
          sv = sv\<lparr>sv_store := s\<rparr>
      in case r of Inl e \<Rightarrow> (Err e, sv) | Inr _ \<Rightarrow> (Ok (), register_file (file_id topo) loaded sv))"

section \<open>The factory\<close>

datatype 'r ServerNode = Ring "'r ring_node" | File FileSource | Rendered AnyNode

record ('r, 'h) World =
  w_bridge :: "'r GatewayBridge"
  w_heap :: 'h
  w_kinds :: "NodeId \<rightharpoonup> string"
  w_params :: "NodeId \<rightharpoonup> NodeParams"
  w_files :: "NodeId \<rightharpoonup> FileBuffer"

text \<open>
  The answer \<open>None\<close> could only come from a constructor that panics; at the server's rate none does
  (\<open>factory_total\<close>).
\<close>

definition EngineServerFactory_build :: "libm \<Rightarrow> ('h, 'r, 'f) ring_ops \<Rightarrow> ('r ServerNode, ('r, 'h) World) factory" where
  "EngineServerFactory_build lm rops i w =
     (if i = 0 then
        let (b, br, h) = make_source_node rops (w_bridge w) (w_heap w)
        in (Some (map_BuiltNode Ring b), w\<lparr>w_bridge := br, w_heap := h\<rparr>)
      else if i = 1 then
        let (b, br, h) = make_sink_node rops (w_bridge w) (w_heap w)
        in (Some (map_BuiltNode Ring b), w\<lparr>w_bridge := br, w_heap := h\<rparr>)
      else let kind = w_kinds w i
           in if kind = Some ''file'' then
                (Some (Plain (case w_files w i of
                    Some f \<Rightarrow> File (FileSource_new (fb_samples f) (fb_channels f) (fb_sample_rate f) (fb_looping f))
                  | None \<Rightarrow> Rendered (PGain f_0))), w)
              else (map_option (\<lambda>n. Plain (Rendered n)) (render_node lm kind (w_params w i) SAMPLE_RATE CHANNELS), w))"

definition server_world :: "'s Server \<Rightarrow> 'r GatewayBridge \<Rightarrow> 'h \<Rightarrow> ('r, 'h) World" where
  "server_world sv br h =
     \<lparr>w_bridge = br, w_heap = h, w_kinds = sv_kinds sv, w_params = sv_params sv, w_files = sv_files sv\<rparr>"

text \<open>The condition that ends the wait for the first graph: not \<open>(node_count, link_count) < (2, 1)\<close>.\<close>

definition initial_ready :: "(nat \<times> nat) option \<Rightarrow> bool" where
  "initial_ready counts =
     (let (n, l) = (case counts of None \<Rightarrow> (0, 0) | Some c \<Rightarrow> c) in \<not> (n < 2 \<or> n = 2 \<and> l < 1))"

section \<open>Autosave\<close>

text \<open>
  One round: the preset is exported, serialized, and written when it differs from what was written last.
  \<open>written\<close> says whether the file system accepts the write.
\<close>

record autosave =
  last_written :: "string option"
  preset_json :: "string option"

definition autosave_round :: "(Preset \<Rightarrow> string + string) \<Rightarrow> 's store_ops \<Rightarrow> bool \<Rightarrow> 's Server \<Rightarrow> autosave \<Rightarrow> autosave" where
  "autosave_round to_json st written sv a =
     (case to_json (export_preset st (controller_of sv)) of
        Inl e \<Rightarrow> a
      | Inr json \<Rightarrow>
          if last_written a = Some json then a
          else if written then a\<lparr>last_written := Some json, preset_json := Some json\<rparr> else a)"

section \<open>The factory always answers\<close>

lemma server_rate: "rate_ok SAMPLE_RATE"
proof -
  have "f_le (f_of_int 10) (f_mul (f_of_int 48000) (f32_lit 24 100))" by code_simp
  then show ?thesis by (simp add: rate_ok_def SAMPLE_RATE_def f_of_nat_def)
qed

lemma render_node_some:
  assumes "rate_ok sr"
  shows "render_node lm kind ps sr ch \<noteq> None"
proof -
  have ph: "\<exists>z. PhaserNode_new r b d f m n sr ch = Some z" for r b d f m n using PhaserNode_new_some [OF assms] by blast
  have "render_params lm p sr ch \<noteq> None" for p by (cases p) (simp_all add: render_params_def ph)
  moreover have "render_default lm k sr ch \<noteq> None" for k by (simp add: render_default_def Let_def ph)
  ultimately show ?thesis by (auto simp: render_node_def split: option.splits)
qed

lemma factory_total: "fst (EngineServerFactory_build lm rops i w) \<noteq> None"
  using render_node_some [OF server_rate]
  by (auto simp: EngineServerFactory_build_def Let_def split: prod.splits option.splits)

lemma build_nodes_total:
  assumes "\<And>i w. fst (factory i w) \<noteq> None"
  shows "\<exists>g' f' w'. build_nodes gops factory nss g f w = (Ok (g', f'), w')"
proof (induction nss arbitrary: g f w)
  case (Cons ns nss)
  obtain b w1 where "factory (ns_id ns) w = (Some b, w1)" using assms [of "ns_id ns" w] by (cases "factory (ns_id ns) w") auto
  moreover obtain i g1 where "add_built gops b g = (i, g1)" by fastforce
  ultimately show ?case using Cons.IH [of g1 "f(ns_id ns \<mapsto> i)" w1]
    by (simp only: build_nodes.simps prod.case option.case Let_def)
qed simp

section \<open>The bridge through a rebuild\<close>

definition same_shape :: "'r GatewayBridge \<Rightarrow> 'r GatewayBridge \<Rightarrow> bool" where
  "same_shape br br' \<longleftrightarrow> capacity br' = capacity br \<and> gb_channels br' = gb_channels br \<and>
     gb_sample_rate br' = gb_sample_rate br \<and> gb_num_frames br' = gb_num_frames br"

abbreviation source_on :: "'r GatewayBridge \<Rightarrow> 'r \<Rightarrow> 'r ServerNode BuiltNode" where
  "source_on br r \<equiv> Plain (Ring (RingSource r (gb_channels br) (gb_sample_rate br) (gb_num_frames br)))"

abbreviation sink_on :: "'r GatewayBridge \<Rightarrow> 'r \<Rightarrow> 'r ServerNode BuiltNode" where
  "sink_on br r \<equiv> Sink (Ring (RingSink r (gb_channels br) (gb_sample_rate br) (gb_num_frames br)))"

text \<open>A ring made between two worlds, empty, and one of the nodes \<open>bs\<close> on it.\<close>

definition fresh_ring where
  "fresh_ring view w w' r node bs \<longleftrightarrow>
     view (w_heap w) r = None \<and> view (w_heap w') r = Some (capacity (w_bridge w), []) \<and> node (w_bridge w) r \<in> set bs"

definition bridged where
  "bridged view ids w w' bs \<longleftrightarrow>
     (\<forall>r. view (w_heap w) r \<noteq> None \<longrightarrow> view (w_heap w') r = view (w_heap w) r) \<and> same_shape (w_bridge w) (w_bridge w') \<and>
     (if 0 \<in> set ids then \<exists>r. inbound (w_bridge w') = Some r \<and> fresh_ring view w w' r source_on bs
      else inbound (w_bridge w') = inbound (w_bridge w)) \<and>
     (if (1 :: NodeId) \<in> set ids then \<exists>r. outbound (w_bridge w') = Some r \<and> fresh_ring view w w' r sink_on bs
      else outbound (w_bridge w') = outbound (w_bridge w))"

lemma factory_bridged:
  assumes "ring_laws rops view" "EngineServerFactory_build lm rops i w = (Some b, w')"
  shows "bridged view [i] w w' [b]"
proof -
  obtain r h where r: "r_new rops (capacity (w_bridge w)) (w_heap w) = (r, h)" by fastforce
  note new = ring_lawsD(1) [OF assms(1) r]
  show ?thesis
    using assms(2) new
    by (auto simp: EngineServerFactory_build_def make_source_node_def make_sink_node_def r Let_def bridged_def
        same_shape_def fresh_ring_def split: if_splits)
qed

lemma bridged_seq:
  assumes "bridged view [i] w w1 [b]" "bridged view ids w1 w' bs" "i \<notin> set ids"
  shows "bridged view (i # ids) w w' (b # bs)"
proof -
  have kept: "\<forall>r. view (w_heap w) r \<noteq> None \<longrightarrow> view (w_heap w1) r = view (w_heap w) r"
      "\<forall>r. view (w_heap w1) r \<noteq> None \<longrightarrow> view (w_heap w') r = view (w_heap w1) r"
    using assms(1,2) by (simp_all add: bridged_def)
  have shape: "same_shape (w_bridge w) (w_bridge w1)" "same_shape (w_bridge w1) (w_bridge w')"
    using assms(1,2) by (simp_all add: bridged_def)
  have none: "view (w_heap w) r = None" if "view (w_heap w1) r = None" for r using kept(1) that by metis
  have early: "fresh_ring view w w' r node (b # bs)" if "fresh_ring view w w1 r node [b]" for r node
    using that kept(2) by (simp add: fresh_ring_def)
  have late: "fresh_ring view w w' r source_on (b # bs)" if "fresh_ring view w1 w' r source_on bs" for r
    using that none shape(1) by (simp add: fresh_ring_def same_shape_def)
  have late': "fresh_ring view w w' r sink_on (b # bs)" if "fresh_ring view w1 w' r sink_on bs" for r
    using that none shape(1) by (simp add: fresh_ring_def same_shape_def)
  have "\<forall>r. view (w_heap w) r \<noteq> None \<longrightarrow> view (w_heap w') r = view (w_heap w) r" using kept by metis
  moreover have "same_shape (w_bridge w) (w_bridge w')" using shape by (simp add: same_shape_def)
  ultimately show ?thesis
    using assms early late late' unfolding bridged_def by (auto split: if_splits)
qed

lemma factory_all_bridged:
  assumes "ring_laws rops view"
  shows "factory_all (EngineServerFactory_build lm rops) ids w = (Some bs, w') \<Longrightarrow> distinct ids \<Longrightarrow> bridged view ids w w' bs"
proof (induction ids arbitrary: w bs)
  case Nil
  then show ?case by (simp add: bridged_def same_shape_def)
next
  case (Cons i ids)
  obtain b w1 bs1 where b: "EngineServerFactory_build lm rops i w = (Some b, w1)"
      "factory_all (EngineServerFactory_build lm rops) ids w1 = (Some bs1, w')" "bs = b # bs1"
    using Cons.prems(1) by (auto split: prod.splits option.splits)
  show ?case unfolding b(3)
    by (rule bridged_seq [OF factory_bridged [OF assms b(1)] Cons.IH [OF b(2)]]) (use Cons.prems(2) in simp_all)
qed

definition push_all :: "('h, 'r, 'f) ring_ops \<Rightarrow> 'f list \<Rightarrow> 'r GatewayBridge \<Rightarrow> 'h \<Rightarrow> 'h" where
  "push_all rops fs br h = fold (\<lambda>f h. snd (push_inbound rops f br h)) fs h"

lemma push_all_other:
  assumes "ring_laws rops view" "inbound br = Some r" "view h r = Some (n, xs)" "r' \<noteq> r"
  shows "view (push_all rops fs br h) r' = view h r'"
  using assms(3)
proof (induction fs arbitrary: h xs)
  case (Cons f fs)
  obtain x h' where x: "r_push rops r f h = (x, h')" by fastforce
  obtain xs' where h': "view h' = (view h)(r \<mapsto> (n, xs'))"
    using ring_lawsD(2) [OF assms(1) Cons.prems x] map_upd_triv [of "view h" r "(n, xs)", OF Cons.prems] by (metis (full_types))
  then have "view h' r = Some (n, xs')" by simp
  from Cons.IH [OF this] show ?case using x h' assms(2,4) by (simp add: push_all_def push_inbound_def)
qed (simp add: push_all_def)

lemma build_graph_bridged:
  assumes "ring_laws rops view" "graph_laws gops gnodes gedges" "distinct (node_ids snap)" "length (t_nodes snap) < 2 ^ 64"
    "build_graph gops (EngineServerFactory_build lm rops) snap w = (res, w')"
  obtains bs where "bridged view (node_ids snap) w w' bs" "\<And>g. res = Ok g \<Longrightarrow> gnodes g = bs"
proof -
  obtain g1 f w1 where n: "build_nodes gops (EngineServerFactory_build lm rops) (t_nodes snap) (g_new gops) Map.empty w = (Ok (g1, f), w1)"
    using build_nodes_total [of "EngineServerFactory_build lm rops" gops "t_nodes snap" "g_new gops" Map.empty w, OF factory_total] by auto
  have w1: "w' = w1" "res = rbind (link_edges gops f (t_edges snap) g1) (\<lambda>g. map_err Build (g_compile gops g))"
    using assms(5) n by (simp_all add: build_graph_def)
  have new: "gnodes (g_new gops) = []" using assms(2) by (simp add: graph_laws_def)
  obtain bs where bs: "factory_all (EngineServerFactory_build lm rops) (node_ids snap) w = (Some bs, w1)" "gnodes g1 = bs"
    and pos: "positions (node_ids snap) f"
    using build_nodes_Ok [OF assms(2) n positions_Nil] assms(3,4) new by (auto simp: node_ids_def)
  have "gnodes g = bs" if ok: "res = Ok g" for g
  proof -
    obtain g2 where g2: "link_edges gops f (t_edges snap) g1 = Ok g2" "g_compile gops g2 = Ok g"
      using ok w1(2) by (auto simp: rbind_eq_Ok_iff map_err_eq_Ok_iff)
    then show ?thesis using link_edges_Ok [OF assms(2) pos g2(1)] assms(2) bs(2) by (auto simp: graph_laws_def)
  qed
  with factory_all_bridged [OF assms(1) bs(1) assms(3)] w1(1) that show ?thesis by blast
qed

text \<open>
  C16: A rebuild hands the gateway over. When a topology with the bridge's source and sink is built, the new graph
  contains a source and a sink on rings that did not exist before, empty, of the bridge's capacity, and these
  are the rings the gateway's worker uses from then on; the rings of the live graph are as they were.\<close>

theorem rebuild_hands_over:
  assumes "ring_laws rops view" "graph_laws gops gnodes gedges" "distinct (node_ids snap)" "length (t_nodes snap) < 2 ^ 64"
    "0 \<in> set (node_ids snap)" "1 \<in> set (node_ids snap)"
    "build_graph gops (EngineServerFactory_build lm rops) snap w = (Ok g, w')"
  shows "\<exists>r q. inbound (w_bridge w') = Some r \<and> source_on (w_bridge w) r \<in> set (gnodes g) \<and>
    outbound (w_bridge w') = Some q \<and> sink_on (w_bridge w) q \<in> set (gnodes g) \<and>
    view (w_heap w) r = None \<and> view (w_heap w) q = None \<and>
    view (w_heap w') r = Some (capacity (w_bridge w), []) \<and> view (w_heap w') q = Some (capacity (w_bridge w), []) \<and>
    (\<forall>x. view (w_heap w) x \<noteq> None \<longrightarrow> view (w_heap w') x = view (w_heap w) x)"
proof -
  obtain bs where bs: "bridged view (node_ids snap) w w' bs" "gnodes g = bs"
    using build_graph_bridged [OF assms(1-4,7)] by blast
  have "\<exists>r. inbound (w_bridge w') = Some r \<and> fresh_ring view w w' r source_on bs"
      "\<exists>r. outbound (w_bridge w') = Some r \<and> fresh_ring view w w' r sink_on bs"
      "\<forall>x. view (w_heap w) x \<noteq> None \<longrightarrow> view (w_heap w') x = view (w_heap w) x"
    using bs(1) assms(5,6) unfolding bridged_def by presburger+
  then show ?thesis unfolding fresh_ring_def bs(2) by blast
qed

text \<open>
  C6: A rebuild that fails cuts the gateway off. The factory makes the bridge's source before the links are
  checked; when linking or compiling then fails, the old graph stays live, but the worker pushes into a
  ring no graph reads: whatever it pushes, no ring that existed before the rebuild, and so not the one
  the live graph's source reads, ever receives a frame.\<close>

theorem failed_rebuild_disconnects:
  assumes "ring_laws rops view" "graph_laws gops gnodes gedges" "distinct (node_ids snap)" "length (t_nodes snap) < 2 ^ 64"
    "0 \<in> set (node_ids snap)" "build_graph gops (EngineServerFactory_build lm rops) snap w = (Err e, w')"
    "view (w_heap w) live \<noteq> None"
  shows "view (push_all rops frames (w_bridge w') (w_heap w')) live = view (w_heap w) live"
proof -
  obtain bs where bs: "bridged view (node_ids snap) w w' bs"
    using build_graph_bridged [OF assms(1-4,6)] by blast
  then obtain r where r: "inbound (w_bridge w') = Some r" "view (w_heap w) r = None" "view (w_heap w') r = Some (capacity (w_bridge w), [])"
    using assms(5) by (auto simp: bridged_def fresh_ring_def)
  then have "live \<noteq> r" using assms(7) by auto
  then have "view (push_all rops frames (w_bridge w') (w_heap w')) live = view (w_heap w') live"
    by (rule push_all_other [OF assms(1) r(1,3)])
  with bs assms(7) show ?thesis by (simp add: bridged_def)
qed

section \<open>Starting on an empty and on a stored topology\<close>

definition accepting :: "'s store_ops \<Rightarrow> bool" where
  "accepting st \<longleftrightarrow> (\<forall>m s. \<not> is_err (fst (apply_mutation st m s)))"

lemma acceptingE:
  assumes "accepting st"
  obtains i s' where "apply_mutation st m s = (Ok i, s')"
  using assms by (cases "apply_mutation st m s"; cases "fst (apply_mutation st m s)") (auto simp: accepting_def elim!: allE [of _ m] allE [of _ s])

context session_store
begin

lemma apply_all_accepted:
  assumes "accepting st"
  shows "\<exists>s'. apply_all st ms s = (Ok (), s') \<and> get_topology st s' = foldl app (get_topology st s) ms"
proof (induction ms arbitrary: s)
  case (Cons m ms)
  obtain i s1 where s1: "apply_mutation st m s = (Ok i, s1)" using assms by (rule acceptingE)
  show ?case using Cons.IH [of s1] s1 applied [OF s1] by simp
qed simp

lemma import_clear_accepted:
  assumes "accepting st"
  shows "\<exists>c'. import_clear st ids c = (Ok (), c') \<and>
    get_topology st (store c') = foldl app (get_topology st (store c)) (map RemoveNode ids) \<and>
    kinds c' = fold (\<lambda>i m. m(i := None)) ids (kinds c) \<and> params c' = fold (\<lambda>i m. m(i := None)) ids (params c)"
proof (induction ids arbitrary: c)
  case (Cons i ids)
  obtain j s1 where s1: "apply_mutation st (RemoveNode i) (store c) = (Ok j, s1)" using assms by (rule acceptingE)
  show ?case using Cons.IH [of "forget i (c\<lparr>store := s1\<rparr>)"] s1 applied [OF s1] by (simp add: forget_def)
qed simp

lemma import_nodes_accepted:
  assumes "accepting st"
  shows "\<exists>c'. import_nodes st ns c = (Ok (), c') \<and>
    get_topology st (store c') = foldl app (get_topology st (store c)) (map (\<lambda>n. AddNode (preset_node n)) ns) \<and>
    kinds c' = fold (\<lambda>n m. set_entry m (pn_id n) (pn_kind n)) ns (kinds c) \<and>
    params c' = fold (\<lambda>n m. set_entry m (pn_id n) (pn_params n)) ns (params c)"
proof (induction ns arbitrary: c)
  case (Cons n ns)
  obtain j s1 where s1: "apply_mutation st (AddNode (preset_node n)) (store c) = (Ok j, s1)" using assms by (rule acceptingE)
  show ?case
    using Cons.IH [of "c\<lparr>store := s1, labels := (labels c)(pn_id n \<mapsto> pn_label n),
        kinds := set_entry (kinds c) (pn_id n) (pn_kind n), params := set_entry (params c) (pn_id n) (pn_params n)\<rparr>"]
      s1 applied [OF s1] by simp
qed simp

lemma import_links_accepted:
  assumes "accepting st"
  shows "\<exists>c'. import_links st ls c = (Ok (), c') \<and>
    get_topology st (store c') = foldl app (get_topology st (store c)) (map (\<lambda>l. AddLink (preset_edge l)) ls) \<and>
    kinds c' = kinds c \<and> params c' = params c"
proof (induction ls arbitrary: c)
  case (Cons l ls)
  obtain j s1 where s1: "apply_mutation st (AddLink (preset_edge l)) (store c) = (Ok j, s1)" using assms by (rule acceptingE)
  show ?case using Cons.IH [of "c\<lparr>store := s1\<rparr>"] s1 applied [OF s1] by simp
qed simp

lemma import_preset_accepted:
  assumes "accepting st"
  obtains c' where "import_preset st p c = (Ok (), c')"
    "get_topology st (store c') = foldl app (get_topology st (store c))
       (map RemoveNode (node_ids (get_topology st (store c))) @ map (\<lambda>n. AddNode (preset_node n)) (pr_nodes p) @
        map (\<lambda>l. AddLink (preset_edge l)) (pr_links p))"
    "kinds c' = fold (\<lambda>n m. set_entry m (pn_id n) (pn_kind n)) (pr_nodes p)
       (fold (\<lambda>i m. m(i := None)) (node_ids (get_topology st (store c))) (kinds c))"
    "params c' = fold (\<lambda>n m. set_entry m (pn_id n) (pn_params n)) (pr_nodes p)
       (fold (\<lambda>i m. m(i := None)) (node_ids (get_topology st (store c))) (params c))"
proof -
  obtain c1 where c1: "import_clear st (node_ids (get_topology st (store c))) c = (Ok (), c1)"
      "get_topology st (store c1) = foldl app (get_topology st (store c)) (map RemoveNode (node_ids (get_topology st (store c))))"
      "kinds c1 = fold (\<lambda>i m. m(i := None)) (node_ids (get_topology st (store c))) (kinds c)"
      "params c1 = fold (\<lambda>i m. m(i := None)) (node_ids (get_topology st (store c))) (params c)"
    using import_clear_accepted [OF assms] by blast
  obtain c2 where c2: "import_nodes st (pr_nodes p) c1 = (Ok (), c2)"
      "get_topology st (store c2) = foldl app (get_topology st (store c1)) (map (\<lambda>n. AddNode (preset_node n)) (pr_nodes p))"
      "kinds c2 = fold (\<lambda>n m. set_entry m (pn_id n) (pn_kind n)) (pr_nodes p) (kinds c1)"
      "params c2 = fold (\<lambda>n m. set_entry m (pn_id n) (pn_params n)) (pr_nodes p) (params c1)"
    using import_nodes_accepted [OF assms] by blast
  obtain c3 where c3: "import_links st (pr_links p) c2 = (Ok (), c3)"
      "get_topology st (store c3) = foldl app (get_topology st (store c2)) (map (\<lambda>l. AddLink (preset_edge l)) (pr_links p))"
      "kinds c3 = kinds c2" "params c3 = params c2"
    using import_links_accepted [OF assms] by blast
  show ?thesis using that [of c3] c1 c2 c3 by (simp add: import_preset_def)
qed

lemma boot_without_preset:
  assumes "accepting st" "server_boot st None loaded s = (r, sv)"
  shows "r = Ok ()" "get_topology st (sv_store sv) = foldl app (get_topology st s) (seed_mutations (get_topology st s) loaded)"
    "sv_kinds sv = set_entry Map.empty (file_id (get_topology st s)) (map_option (\<lambda>_. ''file'') loaded)"
    "sv_params sv = Map.empty" "sv_files sv = set_entry Map.empty (file_id (get_topology st s)) loaded"
proof -
  obtain s' where s': "apply_all st (seed_mutations (get_topology st s) loaded) s = (Ok (), s')"
      "get_topology st s' = foldl app (get_topology st s) (seed_mutations (get_topology st s) loaded)"
    using apply_all_accepted [OF assms(1)] by blast
  show "r = Ok ()" "get_topology st (sv_store sv) = foldl app (get_topology st s) (seed_mutations (get_topology st s) loaded)"
    "sv_kinds sv = set_entry Map.empty (file_id (get_topology st s)) (map_option (\<lambda>_. ''file'') loaded)"
    "sv_params sv = Map.empty" "sv_files sv = set_entry Map.empty (file_id (get_topology st s)) loaded"
    using assms(2) s' by (cases loaded; auto simp: server_boot_def restore_preset_def Let_def register_file_def)+
qed

end

definition seeded :: "FileBuffer option \<Rightarrow> TopologySnapshot" where
  "seeded loaded =
     \<lparr>t_nodes = [\<lparr>ns_id = 0, ns_inputs = [], ns_outputs = seed_port Output\<rparr>,
                \<lparr>ns_id = 1, ns_inputs = seed_port Input, ns_outputs = []\<rparr>] @
               (case loaded of None \<Rightarrow> [] | Some buf \<Rightarrow> [file_snapshot 2 buf]),
      t_edges = [\<lparr>se_from = (if \<exists>buf. loaded = Some buf \<and> fb_channels buf = CHANNELS then 2 else 0, 0), se_to = (1, 0)\<rparr>]\<rparr>"

lemma seed_empty:
  assumes "topo_laws app"
  shows "foldl app topology_empty (seed_mutations topology_empty loaded) = seeded loaded"
  by (cases loaded)
    (simp_all add: seed_mutations_def topology_empty_def file_id_def topo_lawsD [OF assms] node_ids_def file_snapshot_def seeded_def)

lemma seeded_ids: "node_ids (seeded loaded) = [0, 1] @ (case loaded of None \<Rightarrow> [] | Some _ \<Rightarrow> [2])"
  by (cases loaded) (simp_all add: node_ids_def seeded_def file_snapshot_def)

lemma seeded_wf: "graph_wf (seeded loaded)"
  by (cases loaded) (auto simp: graph_wf_def node_ids_def edge_ok_def port_of_def seeded_def file_snapshot_def seed_port_def)

lemma factory_all_length: "factory_all factory ids w = (Some bs, w') \<Longrightarrow> length bs = length ids"
  by (induction ids arbitrary: w bs) (auto split: prod.splits option.splits)

text \<open>The counts the wait reads are those of the topology.\<close>

lemma built_counts:
  assumes "graph_laws gops gnodes gedges" "distinct (node_ids snap)" "length (t_nodes snap) < 2 ^ 64"
    "build_graph gops factory snap w = (Ok g, w')"
  shows "length (gnodes g) = length (t_nodes snap)" "length (gedges g) = length (t_edges snap)"
proof -
  obtain g1 f where n: "build_nodes gops factory (t_nodes snap) (g_new gops) Map.empty w = (Ok (g1, f), w')"
    and l: "rbind (link_edges gops f (t_edges snap) g1) (\<lambda>g. map_err Build (g_compile gops g)) = Ok g"
    using assms(4) by (auto simp: build_graph_def split: prod.splits sum.splits)
  have new: "gnodes (g_new gops) = []" "gedges (g_new gops) = []" using assms(1) by (simp_all add: graph_laws_def)
  obtain bs where bs: "factory_all factory (node_ids snap) w = (Some bs, w')" "gnodes g1 = bs" "gedges g1 = []"
    and pos: "positions (node_ids snap) f"
    using build_nodes_Ok [OF assms(1) n positions_Nil] assms(2,3) new by (auto simp: node_ids_def)
  obtain g2 where g2: "link_edges gops f (t_edges snap) g1 = Ok g2" "g_compile gops g2 = Ok g"
    using l by (auto simp: rbind_eq_Ok_iff map_err_eq_Ok_iff)
  have "gnodes g = gnodes g2" "gedges g = gedges g2" using assms(1) g2(2) by (auto simp: graph_laws_def)
  then show "length (gnodes g) = length (t_nodes snap)" "length (gedges g) = length (t_edges snap)"
    using link_edges_Ok [OF assms(1) pos g2(1)] bs factory_all_length [OF bs(1)] list_all2_lengthD
    by (fastforce simp: node_ids_def)+
qed

text \<open>
  C25: The first start works. On an empty store that accepts mutations, without a saved preset, the engine server
  seeds a well-formed topology: the bridge's source 0 and sink 1, the loaded file, if any, as node 2, and one
  link into the sink, from the file when its channels match and from the bridge otherwise; the factory renders
  node 2 as a player of the file, and any graph built of the topology ends the wait for the first graph.\<close>

theorem fresh_boot_seeds:
  assumes "topo_laws app" "accepting (engine_store ops cdc app)" "snapshot s = topology_empty"
    "server_boot (engine_store ops cdc app) None loaded s = (r, sv)" "graph_laws gops gnodes gedges"
  shows "r = Ok () \<and> graph_wf (snapshot (sv_store sv)) \<and>
    node_ids (snapshot (sv_store sv)) = [0, 1] @ (case loaded of None \<Rightarrow> [] | Some _ \<Rightarrow> [2]) \<and>
    t_edges (snapshot (sv_store sv)) =
      [\<lparr>se_from = (if \<exists>buf. loaded = Some buf \<and> fb_channels buf = 2 then 2 else 0, 0), se_to = (1, 0)\<rparr>] \<and>
    (\<forall>buf. loaded = Some buf \<longrightarrow> fst (EngineServerFactory_build lm rops 2 (server_world sv br h)) =
       Some (Plain (File (FileSource_new (fb_samples buf) (fb_channels buf) (fb_sample_rate buf) (fb_looping buf))))) \<and>
    (\<forall>w g w'. build_graph gops (EngineServerFactory_build lm rops) (snapshot (sv_store sv)) w = (Ok g, w') \<longrightarrow>
       initial_ready (Some (length (gnodes g), length (gedges g))))"
proof -
  let ?st = "engine_store ops cdc app"
  have top: "get_topology ?st t = snapshot t" for t by (simp add: engine_store_def)
  note boot = engine.boot_without_preset [OF assms(2,4), unfolded top assms(3)]
  have topo: "snapshot (sv_store sv) = seeded loaded" using boot(2) by (simp add: seed_empty [OF assms(1)])
  have fid: "file_id topology_empty = 2" by (simp add: file_id_def topology_empty_def)
  have "initial_ready (Some (length (gnodes g), length (gedges g)))"
    if "build_graph gops (EngineServerFactory_build lm rops) (seeded loaded) w = (Ok g, w')" for w g w'
  proof -
    have "distinct (node_ids (seeded loaded))" using seeded_wf by (simp add: graph_wf_def)
    moreover have "length (t_nodes (seeded loaded)) < 2 ^ 64" by (cases loaded) (simp_all add: seeded_def)
    ultimately show ?thesis using built_counts [OF assms(5) _ _ that] by (simp add: initial_ready_def seeded_def)
  qed
  moreover have "fst (EngineServerFactory_build lm rops 2 (server_world sv br h)) =
       Some (Plain (File (FileSource_new (fb_samples buf) (fb_channels buf) (fb_sample_rate buf) (fb_looping buf))))"
    if "loaded = Some buf" for buf
    using boot(3,5) that by (simp add: EngineServerFactory_build_def server_world_def fid)
  moreover have "t_edges (seeded loaded) =
      [\<lparr>se_from = (if \<exists>buf. loaded = Some buf \<and> fb_channels buf = 2 then 2 else 0, 0), se_to = (1, 0)\<rparr>]"
    by (simp add: seeded_def CHANNELS_def)
  ultimately show ?thesis using boot(1) seeded_wf seeded_ids unfolding topo by blast
qed

text \<open>
  C35: The wait for the first graph can never end. A server started on a stored topology with nodes, and no file to
  load, takes it as it is; a graph built of it ends the wait exactly when it has more than two nodes, or two nodes
  and a link. With the link between the bridge's nodes deleted, or one of the two gone, the server
  gives up at every start.\<close>

theorem stored_boot_wait:
  assumes "snapshot s = t" "t_nodes t \<noteq> []" "server_boot (engine_store ops cdc app) None None s = (r, sv)"
    "graph_laws gops gnodes gedges" "distinct (node_ids t)" "length (t_nodes t) < 2 ^ 64"
    "build_graph gops factory t w = (Ok g, w')"
  shows "r = Ok () \<and> sv_store sv = s \<and>
    (initial_ready (Some (length (gnodes g), length (gedges g))) \<longleftrightarrow>
       2 < length (t_nodes t) \<or> length (t_nodes t) = 2 \<and> t_edges t \<noteq> [])"
proof -
  have "r = Ok () \<and> sv_store sv = s"
    using assms(1-3) by (auto simp: server_boot_def restore_preset_def engine_store_def Let_def seed_mutations_def register_file_def)
  moreover have "initial_ready (Some (length (gnodes g), length (gedges g))) \<longleftrightarrow>
      2 < length (t_nodes t) \<or> length (t_nodes t) = 2 \<and> t_edges t \<noteq> []"
    unfolding built_counts [OF assms(4-7)] by (auto simp: initial_ready_def)
  ultimately show ?thesis by blast
qed

section \<open>Saving and starting again\<close>

text \<open>
  The saved preset is current. As long as nothing else touches the file, what was last written is what the
  file holds, in every round; and after a round whose serialization and write succeed, the file holds the preset
  of the graph as it is now.\<close>

theorem autosave_current:
  assumes "last_written a = None \<or> preset_json a = last_written a"
    "a' = autosave_round to_json st written sv a"
  shows "(last_written a' = None \<or> preset_json a' = last_written a') \<and>
    (\<forall>json. written \<and> to_json (export_preset st (controller_of sv)) = Ok json \<longrightarrow> preset_json a' = Some json)"
  using assms by (auto simp: autosave_round_def split: sum.splits)

definition restored :: "FileBuffer \<Rightarrow> TopologySnapshot" where
  "restored buf =
     \<lparr>t_nodes = [\<lparr>ns_id = 0, ns_inputs = [], ns_outputs = build_ports 1 Output\<rparr>,
                \<lparr>ns_id = 1, ns_inputs = build_ports 1 Input, ns_outputs = []\<rparr>,
                \<lparr>ns_id = 2, ns_inputs = [], ns_outputs = build_ports 1 Output\<rparr>],
      t_edges = [\<lparr>se_from = (2, 0), se_to = (1, 0)\<rparr>]\<rparr>"

lemma import_seeded:
  assumes "topo_laws app" "fb_channels buf = CHANNELS" "kd = set_entry Map.empty 2 (Some ''file'')"
    "p = export_preset st \<lparr>store = s, labels = Map.empty, kinds = kd, params = Map.empty\<rparr>" "get_topology st s = seeded (Some buf)"
  shows "foldl app (seeded (Some buf)) (map RemoveNode (node_ids (seeded (Some buf))) @
      map (\<lambda>n. AddNode (preset_node n)) (pr_nodes p) @ map (\<lambda>l. AddLink (preset_edge l)) (pr_links p)) = restored buf"
    "fold (\<lambda>n m. set_entry m (pn_id n) (pn_kind n)) (pr_nodes p) (fold (\<lambda>i m. m(i := None)) ids Map.empty) = kd"
    "fold (\<lambda>n m. set_entry m (pn_id n) (pn_params n)) (pr_nodes p) (fold (\<lambda>i m. m(i := None)) ids Map.empty) = Map.empty"
proof -
  have nodes: "map preset_node (pr_nodes p) = t_nodes (restored buf)" "map preset_edge (pr_links p) = t_edges (restored buf)"
    by (simp_all add: assms(4) export_preset_nodes export_preset_links assms(5) seeded_def file_snapshot_def seed_port_def
        restored_def preset_node_def preset_edge_def build_ports_def assms(2))
  have cleared: "foldl app (seeded (Some buf)) (map RemoveNode (node_ids (seeded (Some buf)))) = topology_empty"
    unfolding seeded_ids by (simp add: seeded_def file_snapshot_def topo_lawsD [OF assms(1)] edge_touches_def topology_empty_def)
  have maps: "map (\<lambda>n. AddNode (preset_node n)) (pr_nodes p) = map AddNode (t_nodes (restored buf))"
      "map (\<lambda>l. AddLink (preset_edge l)) (pr_links p) = map AddLink (t_edges (restored buf))"
    unfolding nodes [symmetric] by simp_all
  show "foldl app (seeded (Some buf)) (map RemoveNode (node_ids (seeded (Some buf))) @
      map (\<lambda>n. AddNode (preset_node n)) (pr_nodes p) @ map (\<lambda>l. AddLink (preset_edge l)) (pr_links p)) = restored buf"
    unfolding foldl_append cleared maps by (simp add: restored_def topology_empty_def topo_lawsD [OF assms(1)] node_ids_def)
  have forget: "fold (\<lambda>i m. m(i := None)) ids Map.empty = Map.empty" for ids :: "NodeId list" by (induction ids) simp_all
  show "fold (\<lambda>n m. set_entry m (pn_id n) (pn_kind n)) (pr_nodes p) (fold (\<lambda>i m. m(i := None)) ids Map.empty) = kd"
    "fold (\<lambda>n m. set_entry m (pn_id n) (pn_params n)) (pr_nodes p) (fold (\<lambda>i m. m(i := None)) ids Map.empty) = Map.empty"
    unfolding forget by (simp_all add: assms(3,4) export_preset_nodes assms(5) seeded_def file_snapshot_def set_entry_def)
qed

text \<open>
  C28: A restart silences the file. After a first start with a stereo file, which plays into the sink, the autosave
  and a second start with a file again, whatever file it is, over the store as it was: the saved preset
  brings node 2 back as a file node without its samples, which the factory renders as silence and which is still
  the only node linked to the sink; the file loaded anew becomes node 3 and is linked to nothing.\<close>

theorem restart_silences_file:
  assumes "topo_laws app" "accepting (engine_store ops cdc app)" "\<And>p j. to_json p = Ok j \<Longrightarrow> from_json j = Ok p"
    "snapshot s = topology_empty" "fb_channels buf = 2"
    "server_boot (engine_store ops cdc app) None (Some buf) s = (r1, sv1)"
    "autosave_round to_json (engine_store ops cdc app) True sv1 \<lparr>last_written = None, preset_json = None\<rparr> = a"
    "to_json (export_preset (engine_store ops cdc app) (controller_of sv1)) = Ok json"
    "snapshot s2 = snapshot (sv_store sv1)"
    "server_boot (engine_store ops cdc app) (map_option from_json (preset_json a)) (Some buf2) s2 = (r2, sv2)"
  shows "r2 = Ok () \<and> node_ids (snapshot (sv_store sv2)) = [0, 1, 2, 3] \<and>
    t_edges (snapshot (sv_store sv2)) = [\<lparr>se_from = (2, 0), se_to = (1, 0)\<rparr>] \<and>
    fst (EngineServerFactory_build lm rops 2 (server_world sv2 br h)) = Some (Plain (Rendered (PGain f_0))) \<and>
    fst (EngineServerFactory_build lm rops 3 (server_world sv2 br h)) =
      Some (Plain (File (FileSource_new (fb_samples buf2) (fb_channels buf2) (fb_sample_rate buf2) (fb_looping buf2))))"
proof -
  let ?st = "engine_store ops cdc app"
  have top: "get_topology ?st t = snapshot t" for t by (simp add: engine_store_def)
  note boot1 = engine.boot_without_preset [OF assms(2,6), unfolded top assms(4)]
  have topo1: "snapshot (sv_store sv1) = seeded (Some buf)" using boot1(2) by (simp add: seed_empty [OF assms(1)])
  have regs1: "sv_kinds sv1 = set_entry Map.empty 2 (Some ''file'')" "sv_params sv1 = Map.empty"
    using boot1(3,4) by (simp_all add: file_id_def topology_empty_def)
  define p where "p = export_preset ?st (controller_of sv1)"
  have "preset_json a = Some json" using assms(7,8) by (auto simp: autosave_round_def)
  moreover have "from_json json = Ok p" unfolding p_def by (rule assms(3) [OF assms(8)])
  ultimately have saved: "map_option from_json (preset_json a) = Some (Ok p)" by simp
  define c where "c = \<lparr>store = s2, labels = Map.empty, kinds = Map.empty, params = Map.empty\<rparr>"
  have topo2: "get_topology ?st (store c) = seeded (Some buf)" by (simp add: c_def top assms(9) topo1)
  have chans: "fb_channels buf = CHANNELS" using assms(5) by (simp add: CHANNELS_def)
  have p: "p = export_preset ?st \<lparr>store = sv_store sv1, labels = Map.empty, kinds = set_entry Map.empty 2 (Some ''file''), params = Map.empty\<rparr>"
    by (simp add: p_def controller_of_def new_with_registries_def regs1)
  have stored: "get_topology ?st (sv_store sv1) = seeded (Some buf)" by (simp add: top topo1)
  note imp = import_seeded [OF assms(1) chans refl p stored]
  obtain c' where c': "import_preset ?st p c = (Ok (), c')" "get_topology ?st (store c') = restored buf"
      "kinds c' = set_entry Map.empty 2 (Some ''file'')" "params c' = Map.empty"
    using engine.import_preset_accepted [OF assms(2), of p c] unfolding topo2 imp by (auto simp: c_def imp)
  obtain s3 where s3: "apply_all ?st (seed_mutations (restored buf) (Some buf2)) (store c') = (Ok (), s3)"
      "snapshot s3 = foldl app (restored buf) (seed_mutations (restored buf) (Some buf2))"
    using engine.apply_all_accepted [OF assms(2)] c'(2) top by metis
  have fid: "file_id (restored buf) = 3" by (simp add: file_id_def restored_def node_ids_def)
  have snap: "snapshot s3 = (restored buf)\<lparr>t_nodes := t_nodes (restored buf) @ [file_snapshot 3 buf2]\<rparr>"
    unfolding s3(2) seed_mutations_def fid by (simp add: restored_def topo_lawsD [OF assms(1)] node_ids_def file_snapshot_def)
  have boot: "r2 = Ok ()" "sv_store sv2 = s3" "sv_kinds sv2 = [2 \<mapsto> ''file'', 3 \<mapsto> ''file'']" "sv_files sv2 = [3 \<mapsto> buf2]"
    using assms(10) c' s3(1) fid unfolding saved
    by (auto simp: server_boot_def restore_preset_def controller_of_def new_with_registries_def c_def [symmetric] Let_def
        register_file_def)
  show ?thesis
    unfolding boot(2) snap using boot
    by (simp add: restored_def node_ids_def file_snapshot_def EngineServerFactory_build_def server_world_def Let_def)
qed

section \<open>Examples\<close>

lemma demo_accepting: "accepting demo_store"
  unfolding accepting_def
proof (intro allI)
  fix m and s :: "memdb EngineState"
  show "\<not> is_err (fst (apply_mutation demo_store m s))" using demo_store_apply(2) [of m s] by auto
qed

definition quiet_libm :: libm where
  "quiet_libm = \<lparr>m_sin = id, m_cos = id, m_exp = id, m_tanh = id, m_powf = (\<lambda>x y. x), m_sqrt = id\<rparr>"

abbreviation demo_factory :: "(nat ServerNode, (nat, (nat \<times> string list) list) World) factory" where
  "demo_factory \<equiv> EngineServerFactory_build quiet_libm list_rings"

definition demo_world :: "(nat, (nat \<times> string list) list) World" where
  "demo_world = \<lparr>w_bridge = (GatewayBridge_new 2 48000 256)\<lparr>inbound := Some 0\<rparr>, w_heap = [(128, [''old''])],
     w_kinds = Map.empty, w_params = Map.empty, w_files = Map.empty\<rparr>"

definition bridge_topo :: "SnapshotEdge list \<Rightarrow> TopologySnapshot" where
  "bridge_topo es = \<lparr>t_nodes = [\<lparr>ns_id = 0, ns_inputs = [], ns_outputs = seed_port Output\<rparr>,
     \<lparr>ns_id = 1, ns_inputs = seed_port Input, ns_outputs = []\<rparr>], t_edges = es\<rparr>"

lemmas demo_eval = demo_world_def bridge_topo_def GatewayBridge_new_def GatewayBridge_with_capacity_def list_rings_def
  list_graph_ops_def build_graph_def add_built_def EngineServerFactory_build_def make_source_node_def make_sink_node_def

lemma demo_rebuild:
  "\<exists>g w'. build_graph list_graph_ops demo_factory (bridge_topo [\<lparr>se_from = (0, 0), se_to = (1, 0)\<rparr>]) demo_world = (Ok g, w')"
  "\<exists>e w'. build_graph list_graph_ops demo_factory (bridge_topo [\<lparr>se_from = (7, 0), se_to = (1, 0)\<rparr>]) demo_world = (Err e, w')"
  by (simp_all add: demo_eval ok_or_def)

theorem rebuild_hands_over_witness:
  "\<exists>g w' r. build_graph list_graph_ops demo_factory (bridge_topo [\<lparr>se_from = (0, 0), se_to = (1, 0)\<rparr>]) demo_world = (Ok g, w') \<and>
     inbound (w_bridge w') = Some r \<and> list_view (w_heap w') r = Some (128, []) \<and> list_view (w_heap w') 0 = Some (128, [''old''])"
proof -
  obtain g w' where run: "build_graph list_graph_ops demo_factory (bridge_topo [\<lparr>se_from = (0, 0), se_to = (1, 0)\<rparr>]) demo_world = (Ok g, w')"
    using demo_rebuild(1) by blast
  have "list_view (w_heap demo_world) 0 = Some (128, [''old''])" "capacity (w_bridge demo_world) = 128"
    by (simp_all add: demo_world_def list_view_def GatewayBridge_new_def GatewayBridge_with_capacity_def DEFAULT_CAPACITY_def)
  then show ?thesis
    using rebuild_hands_over [OF list_rings_laws list_graph_laws _ _ _ _ run] run
    by (simp add: bridge_topo_def node_ids_def) metis
qed

theorem failed_rebuild_disconnects_witness:
  "\<exists>e w'. build_graph list_graph_ops demo_factory (bridge_topo [\<lparr>se_from = (7, 0), se_to = (1, 0)\<rparr>]) demo_world = (Err e, w') \<and>
     list_view (push_all list_rings [''a'', ''b''] (w_bridge w') (w_heap w')) 0 = Some (128, [''old''])"
proof -
  obtain e w' where run: "build_graph list_graph_ops demo_factory (bridge_topo [\<lparr>se_from = (7, 0), se_to = (1, 0)\<rparr>]) demo_world = (Err e, w')"
    using demo_rebuild(2) by blast
  have "list_view (w_heap demo_world) 0 = Some (128, [''old''])" by (simp add: demo_world_def list_view_def)
  then show ?thesis
    using failed_rebuild_disconnects [OF list_rings_laws list_graph_laws _ _ _ run, of 0 "[''a'', ''b'']"] run
    by (simp add: bridge_topo_def node_ids_def)
qed

definition demo_file :: FileBuffer where
  "demo_file = \<lparr>fb_samples = [f_1, f_1], fb_channels = 2, fb_sample_rate = 48000, fb_looping = True\<rparr>"

theorem fresh_boot_seeds_witness:
  "\<exists>sv. server_boot demo_store None (Some demo_file) fresh_engine = (Ok (), sv) \<and> node_ids (snapshot (sv_store sv)) = [0, 1, 2]"
proof -
  obtain r sv where boot: "server_boot demo_store None (Some demo_file) fresh_engine = (r, sv)"
    by (cases "server_boot demo_store None (Some demo_file) fresh_engine") blast
  have "snapshot fresh_engine = topology_empty" by (simp add: fresh_engine_def)
  from fresh_boot_seeds [OF plain_apply_laws demo_accepting this boot list_graph_laws, of quiet_libm list_rings
      "w_bridge demo_world" "w_heap demo_world"] boot show ?thesis by simp
qed

theorem stored_boot_wait_witness:
  "\<exists>g w'. build_graph list_graph_ops demo_factory (bridge_topo []) demo_world = (Ok g, w') \<and>
     \<not> initial_ready (Some (length (fst g), length (snd g)))"
proof -
  obtain g w' where run: "build_graph list_graph_ops demo_factory (bridge_topo []) demo_world = (Ok g, w')"
    by (simp add: demo_eval)
  let ?s = "fresh_engine\<lparr>snapshot := bridge_topo []\<rparr>"
  obtain r sv where boot: "server_boot demo_store None None ?s = (r, sv)" by (cases "server_boot demo_store None None ?s") blast
  have "snapshot ?s = bridge_topo []" "t_nodes (bridge_topo []) \<noteq> []" "distinct (node_ids (bridge_topo []))"
      "length (t_nodes (bridge_topo [])) < 2 ^ 64" "length (t_nodes (bridge_topo [])) = 2" "t_edges (bridge_topo []) = []"
    by (simp_all add: bridge_topo_def node_ids_def)
  then show ?thesis using stored_boot_wait [OF _ _ boot list_graph_laws _ _ run] run by auto
qed

theorem autosave_current_witness:
  "preset_json (autosave_round (\<lambda>p. Ok ''{}'') demo_store True
     \<lparr>sv_store = fresh_engine, sv_kinds = Map.empty, sv_params = Map.empty, sv_files = Map.empty\<rparr>
     \<lparr>last_written = None, preset_json = None\<rparr>) = Some ''{}''"
  by (rule autosave_current [OF _ refl, THEN conjunct2, rule_format]) simp_all

theorem restart_silences_file_witness:
  "\<exists>sv1 sv2. server_boot demo_store None (Some demo_file) fresh_engine = (Ok (), sv1) \<and>
     server_boot demo_store (Some (Ok (export_preset demo_store (controller_of sv1)))) (Some demo_file) (sv_store sv1) = (Ok (), sv2) \<and>
     node_ids (snapshot (sv_store sv2)) = [0, 1, 2, 3]"
proof -
  obtain r1 sv1 where boot1: "server_boot demo_store None (Some demo_file) fresh_engine = (r1, sv1)"
    by (cases "server_boot demo_store None (Some demo_file) fresh_engine") blast
  have empty: "snapshot fresh_engine = topology_empty" by (simp add: fresh_engine_def)
  have ok: "r1 = Ok ()" by (rule engine.boot_without_preset(1) [OF demo_accepting boot1])
  let ?p = "export_preset demo_store (controller_of sv1)"
  obtain r2 sv2 where boot2: "server_boot demo_store (Some (Ok ?p)) (Some demo_file) (sv_store sv1) = (r2, sv2)"
    by (cases "server_boot demo_store (Some (Ok ?p)) (Some demo_file) (sv_store sv1)") blast
  define to_json where "to_json = (\<lambda>q. if q = ?p then Ok ''preset'' else Err ''other'')"
  define from_json where "from_json = (\<lambda>j :: string. Ok ?p :: string + Preset)"
  have law: "\<And>q j. to_json q = Ok j \<Longrightarrow> from_json j = Ok q" by (auto simp: to_json_def from_json_def split: if_splits)
  have json: "to_json ?p = Ok ''preset''" by (simp add: to_json_def)
  have saved: "map_option from_json (preset_json (autosave_round to_json demo_store True sv1 \<lparr>last_written = None, preset_json = None\<rparr>)) =
      Some (Ok ?p)"
    by (simp add: autosave_round_def json from_json_def)
  note boot2' = boot2 [folded saved]
  have ch: "fb_channels demo_file = 2" by (simp add: demo_file_def)
  from restart_silences_file [of plain_apply memdb_ops blind_serde to_json from_json, OF plain_apply_laws demo_accepting law empty ch boot1 refl json refl boot2',
      of quiet_libm list_rings "w_bridge demo_world" "w_heap demo_world"] ok boot1 boot2
  show ?thesis by blast
qed

end
