(* ===== verification/Gateways.thy ===== *)
theory Gateways
  imports Browser_Gateway Gateway_Bridge Server_Main
begin

text \<open>
  The configuration of the browser, PulseAudio and ALSA gateways and how they register with a graph
  (\<open>gw-browser/src/lib.rs\<close>, \<open>gw-pulse/src/lib.rs\<close>, \<open>gw-alsa/src/lib.rs\<close>), the gateway interface they share, and
  the path of the default server from a client to the graph (\<open>main\<close> of \<open>sonicbrew/src/main.rs\<close>). Rings and graph
  are the parameters of \<open>Gateway_Bridge\<close> and \<open>Audio_Engine\<close>. The address literal is a parameter of the
  constructors, as the address type is.
\<close>

section \<open>Registering with a graph\<close>

definition RING_CAPACITY :: nat where "RING_CAPACITY = 128"

record 'a BrowserGateway =
  bg_listen_addr :: 'a
  bg_spec :: FrameSpec
  bg_num_frames :: nat

definition BrowserGateway_new :: "'a \<Rightarrow> 'a BrowserGateway" where
  "BrowserGateway_new loopback =
     \<lparr>bg_listen_addr = loopback, bg_spec = \<lparr>fs_channels = 2, fs_sample_rate = 48000\<rparr>, bg_num_frames = 256\<rparr>"

definition bg_with_listen_addr :: "'a \<Rightarrow> 'a BrowserGateway \<Rightarrow> 'a BrowserGateway" where
  "bg_with_listen_addr addr gw = gw\<lparr>bg_listen_addr := addr\<rparr>"

definition bg_with_channels :: "u16 \<Rightarrow> 'a BrowserGateway \<Rightarrow> 'a BrowserGateway" where
  "bg_with_channels channels gw = gw\<lparr>bg_spec := (bg_spec gw)\<lparr>fs_channels := channels\<rparr>\<rparr>"

definition bg_with_sample_rate :: "u32 \<Rightarrow> 'a BrowserGateway \<Rightarrow> 'a BrowserGateway" where
  "bg_with_sample_rate sample_rate gw = gw\<lparr>bg_spec := (bg_spec gw)\<lparr>fs_sample_rate := sample_rate\<rparr>\<rparr>"

definition bg_with_num_frames :: "nat \<Rightarrow> 'a BrowserGateway \<Rightarrow> 'a BrowserGateway" where
  "bg_with_num_frames num_frames gw = gw\<lparr>bg_num_frames := num_frames\<rparr>"

definition BrowserGateway_register ::
  "('h, 'r, 'f) ring_ops \<Rightarrow> ('g, 'r ring_node, 'c) graph_ops \<Rightarrow> 'a BrowserGateway \<Rightarrow> 'g \<Rightarrow> 'h
   \<Rightarrow> (NodeId \<times> NodeId \<times> 'r \<times> 'r) \<times> 'g \<times> 'h" where
  "BrowserGateway_register rops gops gw g h =
     (let (inb, h) = r_new rops RING_CAPACITY h;
          (outb, h) = r_new rops RING_CAPACITY h;
          (src, g) = g_add_node gops (RingSource inb (fs_channels (bg_spec gw)) (fs_sample_rate (bg_spec gw)) (bg_num_frames gw)) g;
          (sink, g) = g_add_sink gops (RingSink outb (fs_channels (bg_spec gw)) (fs_sample_rate (bg_spec gw)) (bg_num_frames gw)) g
      in ((src, sink, inb, outb), g, h))"

record 'a StubGateway =
  sg_listen_addr :: 'a
  sg_channels :: u16
  sg_sample_rate :: u32
  sg_num_frames :: nat

text \<open>
  The PulseAudio and the ALSA gateway are two structs with the same fields and the same methods; running either
  registers it and returns that the rest is not implemented.
\<close>

type_synonym 'a PulseGateway = "'a StubGateway"
type_synonym 'a AlsaGateway = "'a StubGateway"

datatype StubError = StubUnimplemented string | StubFailure string

definition PulseGateway_new :: "'a \<Rightarrow> 'a PulseGateway" where
  "PulseGateway_new loopback = \<lparr>sg_listen_addr = loopback, sg_channels = 2, sg_sample_rate = 48000, sg_num_frames = 256\<rparr>"

definition PulseGateway_register ::
  "('h, 'r, 'f) ring_ops \<Rightarrow> ('g, 'r ring_node, 'c) graph_ops \<Rightarrow> 'a PulseGateway \<Rightarrow> 'g \<Rightarrow> 'h
   \<Rightarrow> (NodeId \<times> NodeId \<times> 'r \<times> 'r) \<times> 'g \<times> 'h" where
  "PulseGateway_register rops gops gw g h =
     (let (inb, h) = r_new rops RING_CAPACITY h;
          (outb, h) = r_new rops RING_CAPACITY h;
          (src, g) = g_add_node gops (RingSource inb (sg_channels gw) (sg_sample_rate gw) (sg_num_frames gw)) g;
          (sink, g) = g_add_sink gops (RingSink outb (sg_channels gw) (sg_sample_rate gw) (sg_num_frames gw)) g
      in ((src, sink, inb, outb), g, h))"

definition PulseGateway_run where
  "PulseGateway_run rops gops gw g h =
     (let (_, g, h) = PulseGateway_register rops gops gw g h
      in (Err (StubUnimplemented ''async daemon serve loop deferred (handshake: see `daemon`)'') :: StubError + unit, g, h))"

definition AlsaGateway_new :: "'a \<Rightarrow> 'a AlsaGateway" where
  "AlsaGateway_new loopback = \<lparr>sg_listen_addr = loopback, sg_channels = 2, sg_sample_rate = 48000, sg_num_frames = 256\<rparr>"

definition AlsaGateway_register ::
  "('h, 'r, 'f) ring_ops \<Rightarrow> ('g, 'r ring_node, 'c) graph_ops \<Rightarrow> 'a AlsaGateway \<Rightarrow> 'g \<Rightarrow> 'h
   \<Rightarrow> (NodeId \<times> NodeId \<times> 'r \<times> 'r) \<times> 'g \<times> 'h" where
  "AlsaGateway_register rops gops gw g h =
     (let (inb, h) = r_new rops RING_CAPACITY h;
          (outb, h) = r_new rops RING_CAPACITY h;
          (src, g) = g_add_node gops (RingSource inb (sg_channels gw) (sg_sample_rate gw) (sg_num_frames gw)) g;
          (sink, g) = g_add_sink gops (RingSink outb (sg_channels gw) (sg_sample_rate gw) (sg_num_frames gw)) g
      in ((src, sink, inb, outb), g, h))"

definition AlsaGateway_run where
  "AlsaGateway_run rops gops gw g h =
     (let (_, g, h) = AlsaGateway_register rops gops gw g h
      in (Err (StubUnimplemented ''live libasound .so plugin deferred'') :: StubError + unit, g, h))"

definition sg_with_listen_addr :: "'a \<Rightarrow> 'a StubGateway \<Rightarrow> 'a StubGateway" where
  "sg_with_listen_addr addr gw = gw\<lparr>sg_listen_addr := addr\<rparr>"

definition sg_with_channels :: "u16 \<Rightarrow> 'a StubGateway \<Rightarrow> 'a StubGateway" where
  "sg_with_channels channels gw = gw\<lparr>sg_channels := channels\<rparr>"

definition sg_with_sample_rate :: "u32 \<Rightarrow> 'a StubGateway \<Rightarrow> 'a StubGateway" where
  "sg_with_sample_rate sample_rate gw = gw\<lparr>sg_sample_rate := sample_rate\<rparr>"

definition sg_with_num_frames :: "nat \<Rightarrow> 'a StubGateway \<Rightarrow> 'a StubGateway" where
  "sg_with_num_frames num_frames gw = gw\<lparr>sg_num_frames := num_frames\<rparr>"

section \<open>Serving\<close>

definition ring_push :: "('h, 'r, 'f) ring_ops \<Rightarrow> 'r \<Rightarrow> 'h \<Rightarrow> 'f \<Rightarrow> 'h option" where
  "ring_push rops r h frame = (case r_push rops r frame h of (Inr _, h) \<Rightarrow> Some h | (Inl _, _) \<Rightarrow> None)"

text \<open>\<open>serve\<close> on the handle of the inbound ring; \<open>bind\<close> gives what the listener will accept.\<close>

definition BrowserGateway_serve where
  "BrowserGateway_serve rops fo opus send close bind gw inb h =
     (case bind (bg_listen_addr gw) of
        Inl e \<Rightarrow> (Some (Err (WebSocket (''io: '' @ e))), h)
      | Inr accepts \<Rightarrow> run_accept_loop_io fo opus (ring_push rops inb) send close (bg_spec gw) accepts h)"

text \<open>One round of the Bluetooth worker of \<open>bt_input.rs\<close>: a frame read, or an error, after which it waits.\<close>

definition bt_read :: "('h, 'r, 'f) ring_ops \<Rightarrow> 'r \<Rightarrow> 'h \<Rightarrow> string + 'f \<Rightarrow> 'h" where
  "bt_read rops producer h r = (case r of Inl e \<Rightarrow> h | Inr frame \<Rightarrow> push_or_drop (ring_push rops producer) h frame)"

text \<open>\<open>main\<close>, from the configured gateway to the compiled graph.\<close>

definition default_gateway :: "'a \<Rightarrow> 'a Args \<Rightarrow> 'a BrowserGateway" where
  "default_gateway loopback args =
     bg_with_num_frames NUM_FRAMES (bg_with_sample_rate SAMPLE_RATE (bg_with_channels CHANNELS
       (bg_with_listen_addr (ws_addr args) (BrowserGateway_new loopback))))"

definition default_setup where
  "default_setup rops gops gw h =
     (let ((src, sink, inb, outb), g, h) = BrowserGateway_register rops gops gw (g_new gops) h
      in rbind (g_link gops (src, 0) (sink, 0) g) (\<lambda>g. rbind (g_compile gops g) (\<lambda>g. Ok (g, inb, outb, h))))"

section \<open>What a registration promises\<close>

text \<open>
  A registration adds a source and a sink of the configured shape, in this order, on two new rings.
\<close>

locale gateway =
  fixes register :: "('h, 'r, 'f) ring_ops \<Rightarrow> ('g, 'r ring_node, 'c) graph_ops \<Rightarrow> 'w \<Rightarrow> 'g \<Rightarrow> 'h
      \<Rightarrow> (NodeId \<times> NodeId \<times> 'r \<times> 'r) \<times> 'g \<times> 'h"
    and shape :: "'w \<Rightarrow> u16 \<times> u32 \<times> nat"
  assumes registers: "shape gw = (ch, sr, n) \<Longrightarrow> register rops gops gw g h =
    (let (i, h) = r_new rops 128 h; (q, h) = r_new rops 128 h;
         (src, g) = g_add_node gops (RingSource i ch sr n) g; (sink, g) = g_add_sink gops (RingSink q ch sr n) g
     in ((src, sink, i, q), g, h))"
begin

lemma registered:
  assumes "ring_laws rops view" "graph_laws gops gnodes gedges" "shape gw = (ch, sr, n)"
    "register rops gops gw g h = ((src, sink, i, q), g', h')"
  shows "gnodes g' = gnodes g @ [Plain (RingSource i ch sr n), Sink (RingSink q ch sr n)] \<and> gedges g' = gedges g \<and>
    src = of_nat (length (gnodes g)) \<and> sink = of_nat (Suc (length (gnodes g))) \<and>
    i \<noteq> q \<and> view h i = None \<and> view h q = None \<and> view h' = (view h)(i \<mapsto> (128, []), q \<mapsto> (128, []))"
proof -
  obtain h1 where h1: "r_new rops 128 h = (i, h1)" "r_new rops 128 h1 = (q, h')"
      and g: "\<exists>g1. add_built gops (Plain (RingSource i ch sr n)) g = (src, g1) \<and> add_built gops (Sink (RingSink q ch sr n)) g1 = (sink, g')"
    using assms(4) registers [OF assms(3)] by (auto simp: add_built_def Let_def split: prod.splits)
  note n1 = ring_lawsD(1) [OF assms(1) h1(1)] and n2 = ring_lawsD(1) [OF assms(1) h1(2)]
  from g obtain g1 where g1: "add_built gops (Plain (RingSource i ch sr n)) g = (src, g1)"
      "add_built gops (Sink (RingSink q ch sr n)) g1 = (sink, g')" by blast
  have "i \<noteq> q" using n1 n2 by auto
  then show ?thesis
    using n1 n2 graph_laws_add [OF assms(2) g1(1)] graph_laws_add [OF assms(2) g1(2)] by simp
qed

end

interpretation browser: gateway BrowserGateway_register "\<lambda>gw. (fs_channels (bg_spec gw), fs_sample_rate (bg_spec gw), bg_num_frames gw)"
  by unfold_locales (auto simp: BrowserGateway_register_def RING_CAPACITY_def)

interpretation pulse: gateway PulseGateway_register "\<lambda>gw. (sg_channels gw, sg_sample_rate gw, sg_num_frames gw)"
  by unfold_locales (auto simp: PulseGateway_register_def RING_CAPACITY_def)

interpretation alsa: gateway AlsaGateway_register "\<lambda>gw. (sg_channels gw, sg_sample_rate gw, sg_num_frames gw)"
  by unfold_locales (auto simp: AlsaGateway_register_def RING_CAPACITY_def)

text \<open>
  The stub gateways wire the graph before they give up: running the PulseAudio or the ALSA gateway always
  returns the documented error, and has added to the graph a source and a sink of the configured shape on two
  new empty rings; nothing else of the graph or the rings changed.\<close>

theorem stub_gateways_wire:
  assumes "ring_laws rops view" "graph_laws gops gnodes gedges"
    "PulseGateway_run rops gops gw g h = (r, g', h') \<or> AlsaGateway_run rops gops gw g h = (r, g', h')"
  shows "(\<exists>why. r = Err (StubUnimplemented why)) \<and>
    (\<exists>i q. gnodes g' = gnodes g @ [Plain (RingSource i (sg_channels gw) (sg_sample_rate gw) (sg_num_frames gw)),
        Sink (RingSink q (sg_channels gw) (sg_sample_rate gw) (sg_num_frames gw))] \<and> gedges g' = gedges g \<and>
      i \<noteq> q \<and> view h i = None \<and> view h q = None \<and> view h' = (view h)(i \<mapsto> (128, []), q \<mapsto> (128, [])))"
  using assms(3)
proof
  assume run: "PulseGateway_run rops gops gw g h = (r, g', h')"
  then obtain src sink i q where reg: "PulseGateway_register rops gops gw g h = ((src, sink, i, q), g', h')"
    by (auto simp: PulseGateway_run_def split: prod.splits)
  from pulse.registered [OF assms(1,2) refl reg] run show ?thesis by (auto simp: PulseGateway_run_def split: prod.splits)
next
  assume run: "AlsaGateway_run rops gops gw g h = (r, g', h')"
  then obtain src sink i q where reg: "AlsaGateway_register rops gops gw g h = ((src, sink, i, q), g', h')"
    by (auto simp: AlsaGateway_run_def split: prod.splits)
  from alsa.registered [OF assms(1,2) refl reg] run show ?thesis by (auto simp: AlsaGateway_run_def split: prod.splits)
qed

theorem stub_gateways_wire_witness:
  "\<exists>g' h'. PulseGateway_run (list_rings :: ((nat \<times> string list) list, nat, string) ring_ops) list_graph_ops
      (PulseGateway_new ''lo'') ([], []) [] =
      (Err (StubUnimplemented ''async daemon serve loop deferred (handshake: see `daemon`)''), g', h') \<and> length (fst g') = 2"
proof -
  obtain r g' h' where run: "PulseGateway_run (list_rings :: ((nat \<times> string list) list, nat, string) ring_ops) list_graph_ops
      (PulseGateway_new ''lo'') ([], []) [] = (r, g', h')" by (rule prod_cases3)
  have "r = Err (StubUnimplemented ''async daemon serve loop deferred (handshake: see `daemon`)'')"
    using run by (auto simp: PulseGateway_run_def split: prod.splits)
  with stub_gateways_wire [OF list_rings_laws list_graph_laws disjI1, OF run] run show ?thesis by auto
qed

section \<open>From the client to the graph\<close>

lemma ring_push_view:
  assumes "ring_laws rops view" "view h r = Some (n, fs)"
  shows "view (push_or_drop (ring_push rops r) h f) = (view h)(r \<mapsto> (n, if length fs < n then fs @ [f] else fs))"
proof -
  obtain x h' where x: "r_push rops r f h = (x, h')" by fastforce
  have triv: "(view h)(r \<mapsto> (n, fs)) = view h" using assms(2) by (rule map_upd_triv)
  show ?thesis using ring_lawsD(2) [OF assms x] x triv by (auto simp: push_or_drop_def ring_push_def split: if_splits)
qed

lemma ring_push_all:
  assumes "ring_laws rops view"
  shows "view h r = Some (n, fs) \<Longrightarrow> length fs \<le> n \<Longrightarrow>
    view (foldl (push_or_drop (ring_push rops r)) h xs) = (view h)(r \<mapsto> (n, take n (fs @ xs)))"
proof (induction xs arbitrary: h fs)
  case Nil
  then show ?case by (simp add: map_upd_triv)
next
  case (Cons x xs)
  let ?fs = "if length fs < n then fs @ [x] else fs"
  note step = ring_push_view [OF assms Cons.prems(1), of x]
  have "view (foldl (push_or_drop (ring_push rops r)) (push_or_drop (ring_push rops r) h x) xs) =
      (view (push_or_drop (ring_push rops r) h x))(r \<mapsto> (n, take n (?fs @ xs)))"
    by (rule Cons.IH) (use step Cons.prems(2) in auto)
  moreover have "take n (?fs @ xs) = take n (fs @ x # xs)"
    using Cons.prems(2) by (cases "length fs < n") (simp_all add: take_Cons')
  ultimately show ?case unfolding step by (simp only: foldl_Cons fun_upd_upd)
qed


abbreviation pcm_rings :: "((nat \<times> (u16 \<times> u32 \<times> f32 list) list) list, nat, u16 \<times> u32 \<times> f32 list) ring_ops" where
  "pcm_rings \<equiv> list_rings"

definition demo_args :: "string Args" where
  "demo_args = \<lparr>self_test = False, hot_reload_test = False, live_rebuild_test = False, engine_live_rebuild_test = False,
     gateway_live_reload_test = False, diagnose = False, server_engine = False, show_help = False, ws_addr = ''a'',
     api_addr = ''b'', metrics_addr = ''c'', load_file = None\<rparr>"

definition demo_clients :: "(u16 \<times> u32 \<times> f32 list, bytes list) client list" where
  "demo_clients = [\<lparr>cl_upgrade = Ok [],
     cl_events = [Incoming (Some (Inr (Binary (pcm_message \<lparr>fs_channels = 2, fs_sample_rate = 48000\<rparr> [7, 9])))), Incoming None]\<rparr>]"

definition demo_accepted :: "string \<Rightarrow> string + (string + (u16 \<times> u32 \<times> f32 list, bytes list) client) list" where
  "demo_accepted a = Ok (map Inr demo_clients)"


text \<open>
  The Bluetooth worker fills its ring in order: whatever reads fail in between, the ring, empty at first and
  not drained meanwhile, holds the first frames read, up to its capacity; the rest are dropped, and no
  other ring changes.\<close>

theorem bluetooth_fills_ring:
  assumes "ring_laws rops view" "view h r = Some (n, [])"
  shows "view (foldl (bt_read rops r) h reads) =
    (view h)(r \<mapsto> (n, take n (concat (map (\<lambda>x. case x of Inl e \<Rightarrow> [] | Inr frame \<Rightarrow> [frame]) reads))))"
proof -
  have "foldl (bt_read rops r) h reads =
      foldl (push_or_drop (ring_push rops r)) h (concat (map (\<lambda>x. case x of Inl e \<Rightarrow> [] | Inr frame \<Rightarrow> [frame]) reads))" for h
    by (induction reads arbitrary: h) (auto simp: bt_read_def split: sum.splits)
  then show ?thesis using ring_push_all [OF assms] by simp
qed

theorem bluetooth_fills_ring_witness:
  "list_view (foldl (bt_read list_rings 0) [(2, [])] [Inr ''a'', Inl ''no daemon'', Inr ''b'', Inr ''c'']) 0 = Some (2, [''a'', ''b''])"
  using bluetooth_fills_ring [OF list_rings_laws, of "[(2, [])]" 0 2 "[Inr ''a'', Inl ''no daemon'', Inr ''b'', Inr ''c'']"]
  by (simp add: list_view_def)

end
