(* ===== verification/Diagnose.thy ===== *)
theory Diagnose
  imports Dsp_Filters
begin

text \<open>
  The diagnostic display (\<open>sonicbrew/src/diagnose.rs\<close>): the signal chain it runs once and shows, the waveform
  line and the reaction to keys. Drawing on the terminal is not modelled. A bar of the waveform is its level;
  in UTF-8 every bar takes three bytes.
\<close>

section \<open>The captured chain\<close>

record Snapshot =
  sn_input :: "f32 list"
  sn_output :: "f32 list"
  sn_levels :: MeterNode
  sn_gain :: f32
  sn_input_peak :: f32
  sn_output_peak :: f32

definition peak_level :: "f32 list \<Rightarrow> f32" where
  "peak_level xs = fold (\<lambda>s a. f_max a (f_abs s)) xs f_0"

definition mono_frame :: "f32 list \<Rightarrow> AudioFrame" where
  "mono_frame xs = \<lparr>af_channels = 1, af_sample_rate = 48000, samples = xs\<rparr>"

definition sine_input :: "libm \<Rightarrow> f32 list" where
  "sine_input lm =
     map (\<lambda>i. f_mul (m_sin lm (f_mul (f_mul (f_div (f_of_nat i) (f_of_nat 48000)) (f_of_int 440)) TAU)) (f32_lit 8 10)) [0..<256]"

definition Snapshot_capture :: "libm \<Rightarrow> Snapshot option" where
  "Snapshot_capture lm = do {
     let input = sine_input lm;
     let blank = [mono_frame (replicate 256 f_0)];
     (_, eq_out) \<leftarrow> EqNode_process (EqNode_new lm Peaking (f_of_int 1000) (f_of_int 6) f_1 48000 1) [mono_frame input] blank;
     (_, comp_out) \<leftarrow> CompressorNode_process lm
       (CompressorNode_new lm (f_of_int (- 12)) (f_of_int 4) f_1 (f_of_int 50) (f_of_int 3) 48000 1) eq_out blank;
     let lim_out = LimiterNode_process (LimiterNode_new lm (f_of_int (- 1))) comp_out blank;
     (meter, meter_out) \<leftarrow> MeterNode_process lm MeterNode_new lim_out blank;
     let levels = fst (MeterNode_snapshot meter);
     let out = samples (hd meter_out);
     let input_peak = peak_level input;
     let output_peak = peak_level out;
     Some \<lparr>sn_input = input, sn_output = out, sn_levels = levels,
           sn_gain = (if f_lt (f32_lit 1 1000000000) input_peak then f_div output_peak input_peak else f_0),
           sn_input_peak = input_peak, sn_output_peak = output_peak\<rparr>
   }"

section \<open>The waveform line\<close>

text \<open>
  The step is a quotient in double precision, truncated: for fewer than \<open>2^26\<close> samples and columns it is
  that of the integers, since the quotient is never rounded up to one. Without columns nothing is drawn.
\<close>

definition wave_step :: "nat \<Rightarrow> nat \<Rightarrow> nat" where
  "wave_step n width = (if width = 0 then 2 ^ 64 - 1 else max 1 (n div width))"

definition bar :: "f32 \<Rightarrow> nat" where
  "bar s = min (f_to_usize (f_mul (f_abs s) (f_of_int 7))) 8"

function wave_loop :: "f32 list \<Rightarrow> nat \<Rightarrow> nat \<Rightarrow> nat \<Rightarrow> nat list \<Rightarrow> nat list" where
  "wave_loop smps width st i out =
     (if i < length smps \<and> 3 * length out < width \<and> 0 < st
      then wave_loop smps width st (i + st) (out @ [bar (smps ! i)]) else out)"
  by pat_completeness auto

termination by (relation "measure (\<lambda>(smps, width, st, i, out). length smps - i)") auto

declare wave_loop.simps [simp del]

definition waveform_line :: "f32 list \<Rightarrow> nat \<Rightarrow> nat list" where
  "waveform_line smps width = (if smps = [] then [] else wave_loop smps width (wave_step (length smps) width) 0 [])"

section \<open>Keys\<close>

datatype Msg = Quit | ScrollDown | ScrollUp

datatype Key = KChar char | KEsc | KDown | KUp | KOther

definition diagnose_update :: "Msg \<Rightarrow> u64 \<Rightarrow> u64" where
  "diagnose_update msg scroll =
     (case msg of Quit \<Rightarrow> scroll | ScrollDown \<Rightarrow> saturating_add scroll 4 | ScrollUp \<Rightarrow> if unat scroll < 4 then 0 else scroll - 4)"

definition on_key :: "bool \<Rightarrow> Key \<Rightarrow> Msg option" where
  "on_key press k =
     (if \<not> press then None
      else case k of
        KChar c \<Rightarrow> if c = CHR ''q'' then Some Quit else if c = CHR ''j'' then Some ScrollDown
                   else if c = CHR ''k'' then Some ScrollUp else None
      | KEsc \<Rightarrow> Some Quit | KDown \<Rightarrow> Some ScrollDown | KUp \<Rightarrow> Some ScrollUp | KOther \<Rightarrow> None)"

section \<open>The chain is safe and bounded\<close>

lemma process_planar_channels:
  "process_planar step s ins outs = Some (s', outs') \<Longrightarrow> map af_channels outs' = map af_channels outs"
  by (auto simp: process_planar_def Let_def split: list.splits if_splits option.splits bind_splits)

lemma peak_level_bound:
  assumes "\<forall>x \<in> set xs. is_nan x \<or> f_le (f_abs x) t" "f_le f_0 t"
  shows "f_le (peak_level xs) t"
proof -
  have "f_le (fold (\<lambda>s a. f_max a (f_abs s)) xs a) t" if "f_le a t" for a
    using assms(1) that
  proof (induction xs arbitrary: a)
    case (Cons x xs)
    have nan: "is_nan (f_abs x) \<longleftrightarrow> is_nan x" by simp
    have "f_le (f_max a (f_abs x)) t" using Cons.prems nan by (auto simp: f_max_def f_le_def)
    then show ?case using Cons by simp
  qed simp
  then show ?thesis using assms(2) by (simp add: peak_level_def)
qed

text \<open>
  What the display shows is limited. Where the limiter's threshold is a level between zero and full scale, the
  captured chain of equaliser, compressor, limiter and meter runs without a panic, whatever the mathematics
  library computes, shows 256 samples, none of which (that is a number) exceeds the threshold, and
  reports an output peak within the threshold.\<close>

theorem capture_limited:
  assumes "t = LimiterNode_new lm (f_of_int (- 1))" "f_le f_0 t" "f_le t f_1"
  shows "\<exists>snap. Snapshot_capture lm = Some snap \<and> length (sn_output snap) = 256 \<and>
    (\<forall>y \<in> set (sn_output snap). is_nan y \<or> f_le (f_abs y) t) \<and> f_le (sn_output_peak snap) t"
proof -
  let ?blank = "[mono_frame (replicate 256 f_0)]"
  let ?eq = "EqNode_new lm Peaking (f_of_int 1000) (f_of_int 6) f_1 48000 1"
  let ?comp = "CompressorNode_new lm (f_of_int (- 12)) (f_of_int 4) f_1 (f_of_int 50) (f_of_int 3) 48000 1"
  have mono: "unat (af_channels (mono_frame xs)) = 1" "samples (mono_frame xs) = xs" for xs by (simp_all add: mono_frame_def)
  obtain eq eq_out where eq: "EqNode_process ?eq [mono_frame (sine_input lm)] ?blank = Some (eq, eq_out)"
      "map (\<lambda>f. length (samples f)) eq_out = [256]"
    using equalizer.process_safe [of ?eq "[mono_frame (sine_input lm)]" ?blank] EqNode_new_ok mono
    by (auto simp: EqNode_process_def)
  have "map af_channels eq_out = [1]"
    using process_planar_channels [OF eq(1) [unfolded EqNode_process_def]] by (simp add: mono_frame_def)
  then obtain comp comp_out where comp: "CompressorNode_process lm ?comp eq_out ?blank = Some (comp, comp_out)"
      "map (\<lambda>f. length (samples f)) comp_out = [256]"
    using compressor.process_safe [where s = ?comp and ins = eq_out and outs = ?blank and lm = lm] CompressorNode_new_ok mono
    by (auto simp: CompressorNode_process_def)
  then obtain cf where cf: "comp_out = [cf]" "length (samples cf) = 256" by auto
  let ?ys = "map (limit_sample t) (samples cf)"
  have lim: "LimiterNode_process t comp_out ?blank = [mono_frame ?ys]"
    using cf by (simp add: LimiterNode_process_def one_to_one_def map_into_def mono_frame_def)
  obtain meter where meter: "MeterNode_process lm MeterNode_new [mono_frame ?ys] ?blank = Some (meter, [mono_frame ?ys])"
    using cf by (simp add: MeterNode_process_def map_into_def mono_frame_def Let_def)
  have bound: "\<forall>y \<in> set ?ys. is_nan y \<or> f_le (f_abs y) t" using limit_sample_bound [OF assms(2,3)] by auto
  show ?thesis
    using eq(1) comp(1) lim meter bound peak_level_bound [OF bound assms(2)] cf(2) assms(1)
    by (simp add: Snapshot_capture_def Let_def mono)
qed

theorem capture_limited_witness:
  "\<exists>snap. Snapshot_capture \<lparr>m_sin = id, m_cos = id, m_exp = id, m_tanh = id, m_powf = (\<lambda>x y. f32_lit 9 10), m_sqrt = id\<rparr> = Some snap \<and>
     f_le (sn_output_peak snap) (f32_lit 9 10)"
proof -
  have "f_le f_0 (f32_lit 9 10)" "f_le (f32_lit 9 10) f_1" by (code_simp, code_simp)
  with capture_limited [OF refl, of "\<lparr>m_sin = id, m_cos = id, m_exp = id, m_tanh = id, m_powf = (\<lambda>x y. f32_lit 9 10), m_sqrt = id\<rparr>"]
  show ?thesis by (auto simp: LimiterNode_new_def)
qed

section \<open>The waveform is a third of its width\<close>

lemma wave_loop_length:
  assumes "0 < st"
  shows "length (wave_loop smps width st i out) =
    (if i < length smps \<and> 3 * length out < width
     then min (length out + (length smps - i + st - 1) div st) ((width + 2) div 3) else length out)"
proof (induction smps width st i out rule: wave_loop.induct)
  case (1 smps width st i out)
  show ?case
  proof (cases "i < length smps \<and> 3 * length out < width \<and> 0 < st")
    case True
    have split: "(length smps - i + st - 1) div st = Suc ((length smps - (i + st) + st - 1) div st)" if "i + st < length smps"
    proof -
      have "length smps - i + st - 1 = (length smps - (i + st) + st - 1) + st" using that by simp
      then show ?thesis using True by (metis Suc_eq_plus1 div_add_self2 not_gr_zero)
    qed
    have last: "(length smps - i + st - 1) div st = 1" if "\<not> i + st < length smps"
      using that True by (intro div_nat_eqI) auto
    have one: "1 \<le> (length smps - i + st - 1) div st" using True by (auto simp: Suc_le_eq div_greater_zero_iff)
    have full: "(width + 2) div 3 = Suc (length out)" if "\<not> 3 * length (out @ [bar (smps ! i)]) < width"
      using that True by simp linarith
    have room: "Suc (length out) \<le> (width + 2) div 3" using True by linarith
    note rec = 1 [OF True]
    have unfold: "wave_loop smps width st i out = wave_loop smps width st (i + st) (out @ [bar (smps ! i)])"
      using True by (subst wave_loop.simps) simp
    show ?thesis
    proof (cases "i + st < length smps \<and> 3 * length (out @ [bar (smps ! i)]) < width")
      case True
      then show ?thesis using \<open>i < length smps \<and> 3 * length out < width \<and> 0 < st\<close> split unfolding unfold rec by simp
    next
      case False
      then have "length (wave_loop smps width st i out) = Suc (length out)" unfolding unfold rec by auto
      moreover have "min (length out + (length smps - i + st - 1) div st) ((width + 2) div 3) = Suc (length out)"
      proof (cases "i + st < length smps")
        case True
        then show ?thesis using False full one by simp
      next
        case False
        then show ?thesis unfolding last [OF False] using room by simp
      qed
      ultimately show ?thesis using True by simp
    qed
  next
    case False
    then show ?thesis using assms by (subst wave_loop.simps) auto
  qed
qed

text \<open>
  The waveform fills a third of its width. The loop compares the length of the line in bytes with the number
  of columns, and every bar takes three bytes: with at least as many samples as columns, the line has
  exactly a third of the columns, rounded up.\<close>

theorem waveform_third:
  assumes "0 < width" "width \<le> length smps"
  shows "length (waveform_line smps width) = (width + 2) div 3"
proof -
  let ?st = "length smps div width"
  have st: "1 \<le> ?st" using assms by (simp add: Suc_le_eq div_greater_zero_iff)
  have "width * ?st \<le> length smps" by (rule times_div_less_eq_dividend)
  then have "width * ?st \<le> length smps + ?st - 1" using st by linarith
  then have "width \<le> (length smps + ?st - 1) div ?st" using st by (simp add: less_eq_div_iff_mult_less_eq)
  moreover have "(width + 2) div 3 \<le> width" using assms(1) by linarith
  ultimately show ?thesis
    using assms st wave_loop_length [of ?st smps width 0 "[]"]
    by (auto simp: waveform_line_def wave_step_def max_def)
qed

theorem waveform_third_witness: "length (waveform_line (replicate 256 f_1) 60) = 20"
  using waveform_third [of 60 "replicate 256 f_1"] by simp

end
