(* ===== verification/Spec2Isabelle.thy ===== *)
theory Spec2Isabelle
  imports Rtp_Worker Netmap Pulse_Daemon Browser_Gateway Alsa_Params Alsa_Plugin Raft_Log Raft_Cluster Control_Api Audio_Engine Node_Factory Server_Engine Gateways Diagnose
begin

text \<open>
  A verification development of sonicbrew, a real-time audio server: a graph of audio nodes that a REST API
  edits, that gateways (browser, PulseAudio, ALSA, RTP) feed and drain, and whose topology is kept by a
  session store, on one node or replicated. File names below are relative to \<open>src/crates\<close>.

  \<^bold>\<open>How the parts interact.\<close> A client request reaches the control API, which turns it into topology
  mutations of the session store. The store persists the topology and sends an event; the audio engine
  rebuilds its graph from the new snapshot through a node factory, which renders each node from the kind and
  the parameters that the control API keeps. A gateway worker exchanges frames with the graph over two rings;
  the gateway bridge lets a rebuilt graph take over a worker's rings. The real-time loop runs the graph and
  the monitor counts what it did.

  \<^bold>\<open>Conventions.\<close> A Rust struct is a record, an enum a datatype, \<open>Result<T, E>\<close> the sum \<open>'e + 't\<close> (\<open>Err\<close> and
  \<open>Ok\<close>), a panic of an audio node is \<open>None\<close>, a fixed-width integer a word and \<open>usize\<close> a \<open>nat\<close> where the value is
  a length or an index. \<open>&mut self\<close> is state passing. An \<open>f32\<close> is its IEEE 754 bit pattern (\<open>Float32\<close>): the
  arithmetic is computed exactly and rounded to nearest even, so that the theorems on samples hold for the
  bits. Third-party code is an argument: a record of its operations with a predicate that states the
  documented laws it is used under (\<open>redb_laws\<close>, \<open>topo_laws\<close>, \<open>lookup_laws\<close>, \<open>graph_laws\<close>, \<open>ring_laws\<close>); each such
  predicate is shown to hold of a concrete implementation, which the witnesses use.

  \<^bold>\<open>Theories and sources.\<close>
  \<^item> \<open>Prelude\<close>, \<open>Float32\<close>: results, byte orders, list lemmas, saturating and wrapping arithmetic; binary32.
  \<^item> RTP (\<open>net-rtp-aes67\<close>). \<open>Rtp_Codec\<close> (packet header, \<open>codec.rs\<close>), \<open>Pcm_Framing\<close> (L16 and L24, \<open>codec.rs\<close>),
    \<open>Jitter\<close> (reorder buffer, \<open>jitter.rs\<close>), \<open>Rtp_Transport\<close> (send clock and UDP, \<open>lib.rs\<close>, \<open>transport.rs\<close>),
    \<open>Rtp_Worker\<close> (send and receive cycles, \<open>worker.rs\<close>), \<open>Netmap\<close> (rings, slots and ABI,
    \<open>transport/netmap_backend.rs\<close>, \<open>transport/netmap_layout.rs\<close>). Shown: parsing inverts encoding; the buffer
    delivers in sequence order across the wrap-around; draining it is sorting; a frame sent is the frame
    received up to the proved sample error; the ABI sizes, offsets and request numbers.
  \<^item> PulseAudio (\<open>gw-pulse\<close>). \<open>Pulse_Codec\<close> (\<open>codec.rs\<close>), \<open>Pulse_Tags\<close> (tagstructs, \<open>tags.rs\<close>), \<open>Byte_Stream\<close> (blocking
    reads and writes), \<open>Pulse_Daemon\<close> (framing, handshake, streams, \<open>daemon.rs\<close>). Shown: round trips of property
    lists and frames, and what the handshake writes and returns against a daemon that answers.
  \<^item> Browser (\<open>gw-browser\<close>). \<open>Browser_Gateway\<close>: the message codec (\<open>codec.rs\<close>), connections and the accept loop
    (\<open>server.rs\<close>): every client is served, in order, whatever the earlier ones sent.
  \<^item> ALSA (\<open>gw-alsa\<close>, \<open>gw-alsa-plugin\<close>). \<open>Alsa_Params\<close> (formats and negotiation: sound, and complete up to the
    cases the findings name), \<open>Alsa_Bridge\<close> (handshake, reply, configuration, \<open>bridge.rs\<close>), \<open>Alsa_Plugin\<close> (the transfer
    callbacks over a memory of bytes, and opening, \<open>lib.rs\<close>).
  \<^item> \<open>Gateways\<close> (the \<open>lib.rs\<close> of the three gateways and \<open>sonicbrew/src/bt_input.rs\<close>): configuration, registration with a
    graph, and, by the locale \<open>gateway\<close>, what all of them promise; the path from a connected browser to the
    ring of the default server's graph.
  \<^item> Session store (\<open>session-store\<close>). \<open>Topology\<close> (the exchanged data), \<open>Redb\<close> (transactions on the embedded
    database), \<open>Session_Store\<close> (the interface as a locale, and the single-node engine, \<open>lib.rs\<close>), \<open>Raft_Types\<close>,
    \<open>Raft_Log\<close> (\<open>raft_log_store.rs\<close>), \<open>Raft_State_Machine\<close> (\<open>raft_state_machine.rs\<close>), \<open>Raft_Cluster\<close> (\<open>distributed.rs\<close>,
    \<open>raft_network.rs\<close>). Shown: a restart restores what was applied; the log behaves as a sequence; replicas
    that apply the same entries agree, also through a snapshot; a write is read back.
  \<^item> Control API (\<open>control-api/src/lib.rs\<close>). \<open>Node_Params\<close> (the typed parameters), \<open>Control_Api\<close> (controller, presets,
    REST routes): every route keeps the graph well formed, a failed request changes nothing, an exported
    preset imports to the same graph.
  \<^item> Audio engine (\<open>audio-engine/src\<close>). \<open>Audio_Engine\<close> (building and rebuilding, \<open>lib.rs\<close>), \<open>Gateway_Bridge\<close>
    (\<open>bridge.rs\<close>), \<open>Dsp_Core\<close>, \<open>Dsp_Stateless\<close>, \<open>Dsp_Filters\<close>, \<open>Dsp_Modulation\<close>, \<open>Dsp_Sources\<close> (\<open>builtins.rs\<close> and
    \<open>nodes/*.rs\<close>, one record and one step per node). Shown: a built graph is the topology; the rebuild loop
    settles on the last snapshot; the delay, bitcrusher, limiter and file source compute what they promise.
  \<^item> Server (\<open>sonicbrew/src\<close>). \<open>Node_Factory\<close> (\<open>render_node\<close> and the textual parameters: a rendered node never
    panics apart from chorus and flanger, whose read position can round up to the end of the buffer: a theorem of its own),
    \<open>Server_Main\<close> (command line, real-time loops, log summary), \<open>Server_Engine\<close> (boot, seeding, restoring, the
    rebuilding factory, autosave), \<open>Diagnose\<close> (\<open>diagnose.rs\<close>: snapshot, waveform, keys).
  \<^item> \<open>Monitor\<close> (\<open>monitor/src/lib.rs\<close>): latency window, xrun counter as a step relation over its atomic accesses,
    and the exported text.

  \<^bold>\<open>Interfaces.\<close> A locale states what the clients of an operation rely on, and each is interpreted on the
  model's own definitions: \<open>rtp_sender\<close> (the send clock; UDP and netmap), \<open>tag_field\<close> (a tagstruct field reads back;
  every field type), \<open>axis\<close> (one axis of the ALSA negotiation; rate, channels, format, period), \<open>session_store\<close> (the
  single-node engine), \<open>raft_log\<close> (the redb log), \<open>planar_node\<close> and \<open>shared_node\<close> (nodes that filter channel by channel,
  and nodes with one oscillator for all channels; nine nodes), \<open>gateway\<close> (browser, PulseAudio, ALSA).

  \<^bold>\<open>Bounds.\<close> Loops over data are structural or have a termination proof. The loops of the code that have no
  end (accepting, receiving, rebuilding, the real-time loops) run over the list of what their environment
  gives them, one element per round, so no bound is chosen. Counters of the code that wrap or saturate do so
  in the model.

  \<^bold>\<open>Not modelled.\<close> The operating system and the crates that are only called: sockets, terminals, threads and
  their scheduling, the web framework's request parsing, the media decoder, the consensus protocol itself,
  the graph crate's scheduler and the lock-free ring; what the sources rely on of them is a hypothesis. The
  self-test modes of \<open>main.rs\<close>, which drive the modelled parts and print a report, the drawing of the
  diagnostic screen, logging, and the tests, benches, fuzz targets and examples. The functions of the math library on
  \<open>f32\<close> (\<open>sin\<close>, \<open>cos\<close>, \<open>exp\<close>, \<open>tanh\<close>, \<open>powf\<close>, \<open>sqrt\<close>) are arguments of the nodes that use them.
\<close>

end
